(* ===== verification/Prelude.thy ===== *)
theory Prelude
  imports Main "HOL-Library.Word"
begin

text \<open>
  Shared ground of the development: the machine types of the MIPS32 little-endian target
  (\<open>u32\<close>, \<open>ulong\<close> and \<open>size_t\<close> are 32-bit words), the error numbers of
  include/linux/errno.h as integers, memory as a function from offsets to bytes, the
  unaligned accessors of include/asm/unaligned.h, and the generic lemmas on lists and
  words that the component theories use.
\<close>

unbundle bit_operations_syntax

section \<open>Types\<close>

type_synonym byte = "8 word"
type_synonym u16 = "16 word"
type_synonym u32 = "32 word"
type_synonym u64 = "64 word"
type_synonym ulong = "32 word"

text \<open>A C pointer to bytes, as the function that reads the byte at an offset from it.\<close>

type_synonym bytes_ptr = "nat \<Rightarrow> byte"

named_theorems bounds_simps \<open>inequalities between words rewritten to their \<open>unat\<close> values\<close>
named_theorems frame_simps \<open>record fields an operation leaves as they were\<close>

section \<open>Error numbers (include/linux/errno.h)\<close>

abbreviation ENOENT :: int where "ENOENT \<equiv> 2"
abbreviation EINTR :: int where "EINTR \<equiv> 4"
abbreviation EIO :: int where "EIO \<equiv> 5"
abbreviation E2BIG :: int where "E2BIG \<equiv> 7"
abbreviation ENOEXEC :: int where "ENOEXEC \<equiv> 8"
abbreviation ENOMEM :: int where "ENOMEM \<equiv> 12"
abbreviation EACCES :: int where "EACCES \<equiv> 13"
abbreviation EBUSY :: int where "EBUSY \<equiv> 16"
abbreviation EEXIST :: int where "EEXIST \<equiv> 17"
abbreviation ENODEV :: int where "ENODEV \<equiv> 19"
abbreviation EINVAL :: int where "EINVAL \<equiv> 22"
abbreviation EFBIG :: int where "EFBIG \<equiv> 27"
abbreviation ENOSPC :: int where "ENOSPC \<equiv> 28"
abbreviation ERANGE :: int where "ERANGE \<equiv> 34"
abbreviation EBADMSG :: int where "EBADMSG \<equiv> 74"
abbreviation EOVERFLOW :: int where "EOVERFLOW \<equiv> 75"
abbreviation EPROTONOSUPPORT :: int where "EPROTONOSUPPORT \<equiv> 93"
abbreviation EADDRINUSE :: int where "EADDRINUSE \<equiv> 98"
abbreviation ENOTCONN :: int where "ENOTCONN \<equiv> 107"
abbreviation ETIMEDOUT :: int where "ETIMEDOUT \<equiv> 110"

section \<open>Characters and bytes\<close>

definition byte_of_char :: "char \<Rightarrow> byte" where
  "byte_of_char c = of_char c"

definition char_of_byte :: "byte \<Rightarrow> char" where
  "char_of_byte b = char_of (unat b)"

definition bytes_of :: "string \<Rightarrow> byte list" where
  "bytes_of s = map byte_of_char s"

lemma unat_byte_of_char: "unat (byte_of_char c) = of_char c"
proof -
  have "byte_of_char c = of_nat (of_char c)"
    by (simp add: byte_of_char_def of_nat_of_char)
  moreover have "(of_char c :: nat) < 256" by simp
  ultimately show ?thesis by (simp add: unat_of_nat)
qed

lemma char_of_byte_of_char [simp]: "char_of_byte (byte_of_char c) = c"
  by (simp add: char_of_byte_def unat_byte_of_char)

lemma byte_of_char_of_byte [simp]: "byte_of_char (char_of_byte b) = b"
proof -
  have "unat b < 256" using unsigned_less [of b, where 'a = nat] by simp
  then have "unat (byte_of_char (char_of_byte b)) = unat b"
    by (simp add: unat_byte_of_char char_of_byte_def)
  then show ?thesis by (simp add: word_unat_eq_iff)
qed

lemma byte_of_char_eq_iff [simp]: "byte_of_char c = byte_of_char d \<longleftrightarrow> c = d"
  by (metis char_of_byte_of_char)

lemma length_bytes_of [simp]: "length (bytes_of s) = length s"
  by (simp add: bytes_of_def)

lemma bytes_of_simps [simp]:
  "bytes_of [] = []" "bytes_of (s @ t) = bytes_of s @ bytes_of t"
  "bytes_of (take n s) = take n (bytes_of s)" "bytes_of (drop n s) = drop n (bytes_of s)"
  by (simp_all add: bytes_of_def take_map drop_map)

section \<open>Reading and writing memory\<close>

text \<open>The bytes at offsets \<open>off .. off + len - 1\<close> from a pointer.\<close>

definition mem_bytes :: "bytes_ptr \<Rightarrow> nat \<Rightarrow> nat \<Rightarrow> byte list" where
  "mem_bytes p off len = map p [off..<off + len]"

lemma length_mem_bytes [simp]: "length (mem_bytes p off len) = len"
  by (simp add: mem_bytes_def)

lemma mem_bytes_0 [simp]: "mem_bytes p off 0 = []"
  by (simp add: mem_bytes_def)

lemma nth_mem_bytes [simp]: "i < len \<Longrightarrow> mem_bytes p off len ! i = p (off + i)"
  by (simp add: mem_bytes_def)

lemma mem_bytes_add: "mem_bytes p off (m + n) = mem_bytes p off m @ mem_bytes p (off + m) n"
proof -
  have "[off..<off + (m + n)] = [off..<off + m] @ [off + m..<off + (m + n)]"
    by (metis add.assoc upt_add_eq_append le_add1)
  then show ?thesis by (simp add: mem_bytes_def add.assoc)
qed

lemma mem_bytes_Suc: "mem_bytes p off (Suc n) = p off # mem_bytes p (Suc off) n"
  using mem_bytes_add [of p off 1 n] by (simp add: mem_bytes_def)

lemma mem_bytes_cong:
  "(\<And>i. off \<le> i \<Longrightarrow> i < off + len \<Longrightarrow> p i = q i) \<Longrightarrow> mem_bytes p off len = mem_bytes q off len"
  by (simp add: mem_bytes_def)

text \<open>
  \<open>get_unaligned_le16/32/64\<close> and \<open>be32_to_cpu\<close> of a packed field: the value at an
  offset, assembled from its bytes.
\<close>

definition get_unaligned_le16 :: "bytes_ptr \<Rightarrow> nat \<Rightarrow> u16" where
  "get_unaligned_le16 p off = ucast (p off) OR push_bit 8 (ucast (p (off + 1)))"

definition get_unaligned_le32 :: "bytes_ptr \<Rightarrow> nat \<Rightarrow> u32" where
  "get_unaligned_le32 p off =
     ucast (p off) OR push_bit 8 (ucast (p (off + 1))) OR
     push_bit 16 (ucast (p (off + 2))) OR push_bit 24 (ucast (p (off + 3)))"

definition get_unaligned_le64 :: "bytes_ptr \<Rightarrow> nat \<Rightarrow> u64" where
  "get_unaligned_le64 p off =
     ucast (get_unaligned_le32 p off) OR push_bit 32 (ucast (get_unaligned_le32 p (off + 4)))"

definition get_be32 :: "bytes_ptr \<Rightarrow> nat \<Rightarrow> u32" where
  "get_be32 p off =
     push_bit 24 (ucast (p off)) OR push_bit 16 (ucast (p (off + 1))) OR
     push_bit 8 (ucast (p (off + 2))) OR ucast (p (off + 3))"

text \<open>A list of bytes seen through a pointer; bytes past its end read as 0.\<close>

definition ptr_of :: "byte list \<Rightarrow> bytes_ptr" where
  "ptr_of xs = (\<lambda>i. if i < length xs then xs ! i else 0)"

lemma mem_bytes_ptr_of: "off + len \<le> length xs \<Longrightarrow> mem_bytes (ptr_of xs) off len = take len (drop off xs)"
  by (rule nth_equalityI) (auto simp: ptr_of_def)

text \<open>
  The prefix of a buffer that a C function overwrites: \<open>memcpy(buf, data, len)\<close> on a
  buffer whose contents are a list.
\<close>

definition buf_put :: "byte list \<Rightarrow> byte list \<Rightarrow> byte list" where
  "buf_put buf data = data @ drop (length data) buf"

lemma length_buf_put [simp]: "length data \<le> length buf \<Longrightarrow> length (buf_put buf data) = length buf"
  by (simp add: buf_put_def)

lemma take_buf_put [simp]: "n = length data \<Longrightarrow> take n (buf_put buf data) = data"
  by (simp add: buf_put_def)

section \<open>Words\<close>

lemma u32_less_iff [bounds_simps]: "(a :: u32) < b \<longleftrightarrow> unat a < unat b"
  by (rule word_less_nat_alt)

lemma u32_le_iff [bounds_simps]: "(a :: u32) \<le> b \<longleftrightarrow> unat a \<le> unat b"
  by (rule word_le_nat_alt)

lemma u32_eq_0_iff [bounds_simps]: "(a :: u32) = 0 \<longleftrightarrow> unat a = 0"
  by (rule word_unat_eq_iff [of a 0, simplified])

lemma u32_unat_lt: "unat (a :: u32) < 2 ^ 32"
  using unsigned_less [of a, where 'a = nat] by simp

lemma unat_add_no_wrap:
  "unat (a :: u32) + unat b < 2 ^ 32 \<Longrightarrow> unat (a + b) = unat a + unat b"
  by (simp add: unat_word_ariths)

lemma unat_sub_no_wrap: "b \<le> a \<Longrightarrow> unat ((a :: u32) - b) = unat a - unat b"
  by (rule unat_sub)

lemma unat_min: "unat (min a b :: u32) = min (unat a) (unat b)"
  by (simp add: min_def u32_le_iff)

lemma u32_add_le_self: "(a :: u32) \<le> a + b \<longleftrightarrow> unat a + unat b < 2 ^ 32"
proof
  assume le: "a \<le> a + b"
  show "unat a + unat b < 2 ^ 32"
  proof (rule ccontr)
    assume nw: "\<not> unat a + unat b < 2 ^ 32"
    have lt: "unat a < 2 ^ 32" "unat b < 2 ^ 32" using u32_unat_lt by simp_all
    have "unat (a + b) = (unat a + unat b) mod 2 ^ 32" by (simp add: unat_word_ariths)
    also have "\<dots> = (unat a + unat b) - 2 ^ 32"
      using nw lt by (subst mod_if) (simp add: le_mod_geq)
    finally have "unat (a + b) < unat a" using nw lt by simp
    with le show False by (simp add: u32_le_iff)
  qed
next
  assume "unat a + unat b < 2 ^ 32"
  then show "a \<le> a + b" by (simp add: u32_le_iff unat_add_no_wrap)
qed

lemma u32_xor_cancel [simp]: "(a :: u32) XOR b = a XOR c \<longleftrightarrow> b = c"
  by (metis xor.assoc xor_self_eq xor.left_neutral)

lemma u32_xor_cancel_right [simp]: "(b :: u32) XOR a = c XOR a \<longleftrightarrow> b = c"
  by (simp add: xor.commute [of _ a])

lemma byte_ff_and [simp]: "0xff AND (b :: byte) = b"
proof -
  have "(0xff :: byte) = - 1" by simp
  then show ?thesis by (simp only: and.left_neutral)
qed

lemma page_step_less:
  "0 < ps \<Longrightarrow> i < n \<Longrightarrow> n - (i + min (ps - a mod ps) (n - i)) < n - (i :: nat)"
  using mod_less_divisor [of ps a] by (simp add: min_def, linarith)

lemma ucast_u16_u32 [simp]: "unat (ucast (a :: u16) :: u32) = unat a"
  proof -
  have "unat a < 2 ^ 16" using unsigned_less [of a, where 'a = nat] by simp
  then show ?thesis by (simp add: unsigned_ucast_eq take_bit_nat_eq_self)
qed

lemma ucast_u32_u64: "unat (ucast (s :: u32) :: u64) = unat s"
  using u32_unat_lt [of s] by (simp add: unsigned_ucast_eq take_bit_nat_eq_self)

end
