(* ===== verification/CString.thy ===== *)
theory CString
  imports Prelude "HOL-Library.Sublist"
begin

text \<open>
  The string routines of lib/string.c, the character classes of lib/ctype.c, the number
  parser of lib/strto.c and \<open>hex_to_bin\<close> of include/hexdump.h, as the web console
  uses them.

  A \<open>const char *\<close> is the list of characters from the pointer to the end of its buffer;
  the byte after the last one is the terminator, so the list may also hold an embedded NUL
  (a request header can).  Advancing the pointer is \<open>tl\<close> or \<open>drop\<close>, and the
  difference of two pointers into the same buffer is the difference of the lengths.
\<close>

section \<open>Characters\<close>

abbreviation NUL :: char where "NUL \<equiv> CHR 0x00"
abbreviation CR :: char where "CR \<equiv> CHR 0x0D"
abbreviation LF :: char where "LF \<equiv> CHR 0x0A"
abbreviation TAB :: char where "TAB \<equiv> CHR 0x09"
abbreviation DQUOTE :: char where "DQUOTE \<equiv> CHR 0x22"

text \<open>\<open>*s\<close>: the character under the pointer.\<close>

definition c0 :: "string \<Rightarrow> char" where
  "c0 s = (case s of [] \<Rightarrow> NUL | c # _ \<Rightarrow> c)"

lemma c0_simps [simp]: "c0 [] = NUL" "c0 (c # s) = c"
  by (simp_all add: c0_def)

text \<open>The contents of a C string: everything before the first NUL.\<close>

definition cstr :: "string \<Rightarrow> string" where
  "cstr s = takeWhile (\<lambda>c. c \<noteq> NUL) s"

lemma cstr_simps [simp]:
  "cstr [] = []" "cstr (c # s) = (if c = NUL then [] else c # cstr s)"
  by (simp_all add: cstr_def)

lemma cstr_no_NUL [simp]: "NUL \<notin> set (cstr s)"
  by (auto simp: cstr_def dest: set_takeWhileD)

lemma cstr_id [simp]: "NUL \<notin> set s \<Longrightarrow> cstr s = s"
  by (induction s) auto

text \<open>lib/ctype.c: the \<open>_U\<close> and \<open>_D|_X\<close> classes of the table.\<close>

definition isupper :: "char \<Rightarrow> bool" where
  "isupper c = (let n = of_char c :: nat in
     65 \<le> n \<and> n \<le> 90 \<or> 192 \<le> n \<and> n \<le> 222 \<and> n \<noteq> 215)"

definition isxdigit :: "char \<Rightarrow> bool" where
  "isxdigit c = (let n = of_char c :: nat in
     48 \<le> n \<and> n \<le> 57 \<or> 65 \<le> n \<and> n \<le> 70 \<or> 97 \<le> n \<and> n \<le> 102)"

definition tolower :: "char \<Rightarrow> char" where
  "tolower c = (if isupper c then char_of (of_char c + 32 :: nat) else c)"

section \<open>lib/string.c\<close>

fun strlen :: "string \<Rightarrow> nat" where
  "strlen [] = 0"
| "strlen (c # s) = (if c = NUL then 0 else Suc (strlen s))"

function strcmp :: "string \<Rightarrow> string \<Rightarrow> int" where
  "strcmp cs ct =
     (let a = c0 cs; b = c0 ct; ret = of_char a - of_char b
      in if ret \<noteq> 0 \<or> b = NUL then ret else strcmp (tl cs) (tl ct))"
  by pat_completeness auto
termination
  by (relation "measure (\<lambda>(cs, ct). length ct)") (auto simp: c0_def split: list.splits)

declare strcmp.simps [simp del]

fun strncmp :: "string \<Rightarrow> string \<Rightarrow> nat \<Rightarrow> int" where
  "strncmp cs ct 0 = 0"
| "strncmp cs ct (Suc count) =
     (let a = c0 cs; b = c0 ct; ret = of_char a - of_char b
      in if ret \<noteq> 0 \<or> b = NUL then ret else strncmp (tl cs) (tl ct) count)"

fun strncasecmp :: "string \<Rightarrow> string \<Rightarrow> nat \<Rightarrow> int" where
  "strncasecmp s1 s2 0 = 0"
| "strncasecmp s1 s2 (Suc len) =
     (let c1 = c0 s1; c2 = c0 s2
      in if c1 = NUL \<or> c2 = NUL then of_char c1 - of_char c2
         else if c1 \<noteq> c2 \<and> tolower c1 \<noteq> tolower c2
              then of_char (tolower c1) - of_char (tolower c2)
         else strncasecmp (tl s1) (tl s2) len)"

fun strchr :: "string \<Rightarrow> char \<Rightarrow> string option" where
  "strchr [] c = (if c = NUL then Some [] else None)"
| "strchr (x # s) c = (if x = c then Some (x # s) else if x = NUL then None else strchr s c)"

fun strnlen :: "string \<Rightarrow> nat \<Rightarrow> nat" where
  "strnlen s 0 = 0"
| "strnlen s (Suc count) = (if c0 s = NUL then 0 else Suc (strnlen (tl s) count))"

fun memcmp :: "string \<Rightarrow> string \<Rightarrow> nat \<Rightarrow> int" where
  "memcmp cs ct 0 = 0"
| "memcmp cs ct (Suc count) =
     (let res = of_char (c0 cs) - of_char (c0 ct)
      in if res \<noteq> 0 then res else memcmp (tl cs) (tl ct) count)"

fun memchr :: "string \<Rightarrow> char \<Rightarrow> nat \<Rightarrow> string option" where
  "memchr s c 0 = None"
| "memchr s c (Suc n) = (if c0 s = c then Some s else memchr (tl s) c n)"

text \<open>The loop of \<open>strnstr\<close>: \<open>l1\<close> characters of the first string remain.\<close>

fun strnstr_loop :: "string \<Rightarrow> string \<Rightarrow> nat \<Rightarrow> nat \<Rightarrow> string option" where
  "strnstr_loop s1 s2 l2 0 =
     (if 0 < l2 then None else if memcmp s1 s2 l2 = 0 then Some s1 else None)"
| "strnstr_loop s1 s2 l2 (Suc l1) =
     (if Suc l1 < l2 then None
      else if memcmp s1 s2 l2 = 0 then Some s1
      else strnstr_loop (tl s1) s2 l2 l1)"

definition strnstr :: "string \<Rightarrow> string \<Rightarrow> nat \<Rightarrow> string option" where
  "strnstr s1 s2 len = strnstr_loop s1 s2 (strlen s2) (strnlen s1 len)"

text \<open>\<open>SIZE_MAX\<close> exceeds every buffer of a 32-bit machine, so it does not cut the string.\<close>

definition strstr :: "string \<Rightarrow> string \<Rightarrow> string option" where
  "strstr s1 s2 = strnstr_loop s1 s2 (strlen s2) (strlen s1)"

section \<open>lib/strto.c and include/hexdump.h\<close>

definition parse_integer_fixup_radix :: "string \<Rightarrow> nat \<Rightarrow> string \<times> nat" where
  "parse_integer_fixup_radix s base =
     (let (s, base) =
        (if c0 s = CHR ''0'' then
           (if tolower (c0 (tl s)) = CHR ''x'' then (drop 2 s, 16)
            else if base = 0 then (s, 8) else (s, base))
         else (s, base))
      in (s, if base = 0 then 10 else base))"

definition decode_digit :: "char \<Rightarrow> nat" where
  "decode_digit ch =
     (if \<not> isxdigit ch then 256
      else let ch = (of_char (tolower ch) :: nat)
           in if ch \<le> 57 then ch - 48 else ch - 97 + 10)"

fun strtoul_loop :: "nat \<Rightarrow> ulong \<Rightarrow> string \<Rightarrow> ulong \<times> string" where
  "strtoul_loop base result [] = (result, [])"
| "strtoul_loop base result (c # cp) =
     (let v = decode_digit c
      in if v < base then strtoul_loop base (result * of_nat base + of_nat v) cp
         else (result, c # cp))"

text \<open>The value and the end pointer; \<open>result\<close> wraps at 32 bits.\<close>

definition simple_strtoul :: "string \<Rightarrow> nat \<Rightarrow> ulong \<times> string" where
  "simple_strtoul cp base =
     (let (cp, base) = parse_integer_fixup_radix cp base in strtoul_loop base 0 cp)"

definition hextoul :: "string \<Rightarrow> ulong \<times> string" where
  "hextoul cp = simple_strtoul cp 16"

definition hex_to_bin :: "char \<Rightarrow> int" where
  "hex_to_bin ch =
     (let n = (of_char ch :: nat); m = (of_char (tolower ch) :: nat)
      in if 48 \<le> n \<and> n \<le> 57 then int n - 48
         else if 97 \<le> m \<and> m \<le> 102 then int m - 97 + 10
         else -1)"

section \<open>Formatted output\<close>

text \<open>
  The conversions of \<open>snprintf\<close> the console uses: \<open>%u\<close>/\<open>%lu\<close>, \<open>%d\<close>,
  \<open>%x\<close> and its zero-padded forms.  \<open>snprintf(buf, size, ...)\<close> stores at most
  \<open>size - 1\<close> characters and returns the length of the whole text.
\<close>

definition digit_char :: "nat \<Rightarrow> char" where
  "digit_char d = (if d < 10 then char_of (48 + d) else char_of (87 + d))"

fun number :: "nat \<Rightarrow> nat \<Rightarrow> string" where
  "number base n =
     (if base \<le> 1 \<or> n < base then [digit_char n]
      else number base (n div base) @ [digit_char (n mod base)])"

declare number.simps [simp del]

definition fmt_u :: "nat \<Rightarrow> string" where
  "fmt_u n = number 10 n"

definition fmt_d :: "int \<Rightarrow> string" where
  "fmt_d i = (if i < 0 then CHR ''-'' # number 10 (nat (- i)) else number 10 (nat i))"

definition fmt_x :: "nat \<Rightarrow> nat \<Rightarrow> string" where
  "fmt_x width n = (let s = number 16 n in replicate (width - length s) (CHR ''0'') @ s)"

definition snprintf_store :: "nat \<Rightarrow> string \<Rightarrow> string" where
  "snprintf_store sz s = take (sz - 1) s"

section \<open>Properties\<close>

lemma strlen_cstr: "strlen s = length (cstr s)"
  by (induction s) auto

lemma strlen_le: "strlen s \<le> length s"
  by (induction s) auto

lemma strlen_id [simp]: "NUL \<notin> set s \<Longrightarrow> strlen s = length s"
  by (simp add: strlen_cstr)

lemma of_char_0_iff [simp]: "of_char c = (0 :: int) \<longleftrightarrow> c = NUL"
proof -
  have "of_char NUL = (0 :: int)" by simp
  then show ?thesis by (metis of_char_eq_iff)
qed

lemma strcmp_0_iff: "strcmp cs ct = 0 \<longleftrightarrow> cstr cs = cstr ct"
proof (induction cs ct rule: strcmp.induct)
  case (1 cs ct)
  show ?case
    by (subst strcmp.simps, cases cs; cases ct) (use 1 in \<open>auto simp: Let_def\<close>)
qed

lemma strncmp_prefix:
  "NUL \<notin> set ct \<Longrightarrow> strncmp cs ct (length ct) = 0 \<longleftrightarrow> prefix ct cs"
proof (induction ct arbitrary: cs)
  case Nil
  then show ?case by simp
next
  case (Cons c ct)
  then show ?case by (cases cs) (auto simp: Let_def)
qed

lemma memcmp_0_iff:
  "n \<le> length cs \<Longrightarrow> n \<le> length ct \<Longrightarrow> memcmp cs ct n = 0 \<longleftrightarrow> take n cs = take n ct"
proof (induction n arbitrary: cs ct)
  case 0
  then show ?case by simp
next
  case (Suc n)
  then show ?case by (cases cs; cases ct) (auto simp: Let_def)
qed

lemma memchr_Some:
  "memchr s c n = Some t \<Longrightarrow> n \<le> length s \<Longrightarrow>
     \<exists>pre. s = pre @ t \<and> c \<notin> set pre \<and> length pre < n \<and> c0 t = c \<and> t \<noteq> []"
proof (induction n arbitrary: s)
  case 0
  then show ?case by simp
next
  case (Suc n)
  then obtain x s' where s: "s = x # s'" by (cases s) auto
  show ?case
  proof (cases "x = c")
    case True
    with Suc.prems s show ?thesis by auto
  next
    case False
    with Suc.prems s obtain pre where "s' = pre @ t" "c \<notin> set pre" "length pre < n" "c0 t = c" "t \<noteq> []"
      using Suc.IH [of s'] by auto
    with s False show ?thesis by (intro exI [of _ "x # pre"]) auto
  qed
qed

lemma memchr_None: "memchr s c n = None \<Longrightarrow> n \<le> length s \<Longrightarrow> c \<notin> set (take n s)"
proof (induction n arbitrary: s)
  case 0
  then show ?case by simp
next
  case (Suc n)
  then show ?case by (cases s) (auto split: if_splits)
qed

lemma strnlen_strlen: "length s \<le> n \<Longrightarrow> strnlen s n = strlen s"
proof (induction s arbitrary: n)
  case Nil
  then show ?case by (cases n) auto
next
  case (Cons c s)
  then show ?case by (cases n) auto
qed

lemma strnstr_loop_Some:
  "strnstr_loop s1 s2 l2 l1 = Some t \<Longrightarrow> l1 \<le> length s1 \<Longrightarrow> l2 = length s2 \<Longrightarrow>
     \<exists>pre. s1 = pre @ t \<and> prefix s2 t \<and> length pre + l2 \<le> l1"
proof (induction l1 arbitrary: s1)
  case 0
  then show ?case by (auto split: if_splits)
next
  case (Suc l1)
  show ?case
  proof (cases "memcmp s1 s2 l2 = 0 \<and> \<not> Suc l1 < l2")
    case True
    with Suc.prems have "take l2 s1 = s2" and t: "t = s1"
      using memcmp_0_iff [of l2 s1 s2] by auto
    then have "prefix s2 s1" using take_is_prefix [of l2 s1] by simp
    with True t show ?thesis by auto
  next
    case False
    with Suc.prems have rec: "strnstr_loop (tl s1) s2 l2 l1 = Some t" by (auto split: if_splits)
    obtain c s' where s1: "s1 = c # s'" using Suc.prems by (cases s1) auto
    with Suc.IH [of s'] rec Suc.prems obtain pre
      where "s' = pre @ t" "prefix s2 t" "length pre + l2 \<le> l1" by auto
    with s1 show ?thesis by (intro exI [of _ "c # pre"]) auto
  qed
qed

lemma strstr_Some:
  assumes "strstr s1 s2 = Some t" and "NUL \<notin> set s2"
  obtains pre where "s1 = pre @ t" and "prefix s2 t"
  using strnstr_loop_Some [of s1 s2 "strlen s2" "strlen s1" t] assms strlen_le [of s1]
  by (auto simp: strstr_def)

lemma digit_char_decode: "d < 16 \<Longrightarrow> decode_digit (digit_char d) = d"
  by (cases "d < 10")
    (simp_all add: decode_digit_def digit_char_def isxdigit_def tolower_def isupper_def Let_def)

lemma strtoul_loop_append:
  "(\<forall>c \<in> set s. decode_digit c < base) \<Longrightarrow>
     strtoul_loop base acc (s @ t) =
     strtoul_loop base (fst (strtoul_loop base acc s)) t"
  by (induction s arbitrary: acc) (auto simp: Let_def)

lemma number_digits:
  assumes "1 < base" "base \<le> 16"
  shows "\<forall>c \<in> set (number base n). decode_digit c < base"
  using assms
proof (induction base n rule: number.induct)
  case (1 base n)
  then have m: "n mod base < base" by simp
  then have "decode_digit (digit_char (n mod base)) = n mod base"
    using 1 by (intro digit_char_decode) linarith
  with m 1 show ?case
    by (subst number.simps) (auto simp: digit_char_decode)
qed

text \<open>Printing a number and parsing it back gives the number, reduced to 32 bits.\<close>

lemma strtoul_loop_number:
  assumes "1 < base" "base \<le> 16"
  shows "strtoul_loop base 0 (number base n) = (of_nat n, [])"
  using assms
proof (induction base n rule: number.induct)
  case (1 base n)
  show ?case
  proof (cases "n < base")
    case True
    with 1 show ?thesis by (subst number.simps) (simp add: digit_char_decode)
  next
    case False
    with 1 have IH: "strtoul_loop base 0 (number base (n div base)) = (of_nat (n div base), [])"
      by simp
    have "n mod base < 16" using 1 mod_less_divisor [of base n] by linarith
    then have "strtoul_loop base 0 (number base (n div base) @ [digit_char (n mod base)])
        = (of_nat (n div base) * of_nat base + of_nat (n mod base), [])"
      using 1 IH by (simp add: strtoul_loop_append number_digits digit_char_decode)
    also have "of_nat (n div base) * of_nat base + of_nat (n mod base) = (of_nat n :: ulong)"
      by (metis div_mult_mod_eq of_nat_add of_nat_mult)
    finally show ?thesis using False 1 by (subst number.simps) simp
  qed
qed

lemma number_ne [simp]: "number base n \<noteq> []"
  by (subst number.simps) simp

lemma hd_number:
  assumes "1 < base" "base \<le> 16" "0 < n"
  shows "hd (number base n) \<noteq> CHR ''0''"
  using assms
proof (induction base n rule: number.induct)
  case (1 base n)
  show ?case
  proof (cases "n < base")
    case True
    then have "n < 16" "decode_digit (CHR ''0'') = 0" using 1 by (auto simp: decode_digit_def isxdigit_def tolower_def isupper_def)
    then have "digit_char n \<noteq> CHR ''0''" using digit_char_decode [of n] 1 by auto
    with True show ?thesis by (subst number.simps) simp
  next
    case False
    then have "0 < n div base" using 1 by (simp add: div_greater_zero_iff)
    with 1 False show ?thesis by (subst number.simps) (simp add: hd_append)
  qed
qed

lemma strtoul_loop_stop:
  "rest = [] \<or> base \<le> decode_digit (hd rest) \<Longrightarrow> strtoul_loop base r rest = (r, rest)"
  by (cases rest) (auto simp: Let_def)

section \<open>Print and parse\<close>

lemma strtoul_number:
  assumes "rest = [] \<or> 10 \<le> decode_digit (hd rest)"
    and "n = 0 \<Longrightarrow> rest = [] \<or> tolower (hd rest) \<noteq> CHR ''x''"
  shows "simple_strtoul (fmt_u n @ rest) 10 = (of_nat n, rest)"
proof -
  have "parse_integer_fixup_radix (fmt_u n @ rest) 10 = (fmt_u n @ rest, 10)"
  proof (cases "n = 0")
    case True
    have "fmt_u 0 = ''0''" by code_simp
    then show ?thesis using True assms(2)
      by (cases rest) (auto simp: parse_integer_fixup_radix_def tolower_def isupper_def)
  next
    case False
    then have "hd (fmt_u n) \<noteq> CHR ''0''" "fmt_u n \<noteq> []"
      using hd_number [of 10 n] by (simp_all add: fmt_u_def)
    then show ?thesis by (cases "fmt_u n") (simp_all add: parse_integer_fixup_radix_def)
  qed
  then show ?thesis
    using assms(1) by (simp add: simple_strtoul_def strtoul_loop_append number_digits fmt_u_def
        strtoul_loop_number strtoul_loop_stop)
qed

text \<open>
  What the printer writes, the parser reads: the decimal digits of a number, followed by
  the end of the string or a character that is no digit, parse to that number modulo
  \<open>2 ^ 32\<close>, and the end pointer is left at that character.  (After a lone 0 the
  character must not be an x, which the parser takes for a hexadecimal prefix whatever the
  base.)
\<close>

theorem strtoul_prints_back:
  assumes "rest = [] \<or> 10 \<le> decode_digit (hd rest)"
    and "n = 0 \<Longrightarrow> rest = [] \<or> tolower (hd rest) \<noteq> CHR ''x''"
  shows "simple_strtoul (fmt_u n @ rest) 10 = (of_nat n, rest)"
  using strtoul_number [OF assms] by simp

theorem strtoul_prints_back_witness:
  "simple_strtoul (fmt_u 4294967808 @ [CR, LF]) 10 = (512, [CR, LF])"
proof -
  have "simple_strtoul (fmt_u 4294967808 @ [CR, LF]) 10 = (of_nat 4294967808, [CR, LF])"
    by (rule strtoul_prints_back) (simp_all add: decode_digit_def isxdigit_def)
  then show ?thesis by simp
qed

end
