(* ===== verification/Crc32.thy ===== *)
theory Crc32
  imports Prelude
begin

text \<open>
  lib/crc32.c, for the little-endian build with the precomputed table
  (no \<open>CONFIG_DYNAMIC_CRC_TABLE\<close>, no \<open>CONFIG_ARM64_CRC32\<close>, \<open>CONFIG_WATCHDOG\<close>
  set): the table, the generator it was made with, the word-at-a-time loop with its
  alignment prologue and tail, and the watchdog-friendly chunked variant.  The optimised
  loop is proved equal to a byte-wise fold, the table to the shift register, and the
  checksum is proved to compose over concatenation and to detect every burst of up to
  32 bits.
\<close>

section \<open>The table and its generator\<close>

text \<open>One turn of the shift register: the body of the inner loop of \<open>make_crc_table\<close>.\<close>

definition crc_shift :: "u32 \<Rightarrow> u32 \<Rightarrow> u32" where
  "crc_shift poly c = (if c AND 1 \<noteq> 0 then poly XOR drop_bit 1 c else drop_bit 1 c)"

definition crc_terms :: "nat list" where
  "crc_terms = [0, 1, 2, 4, 5, 7, 8, 10, 11, 12, 16, 22, 23, 26]"

definition make_crc_table :: "u32 list" where
  "make_crc_table =
     (let poly = fold (\<lambda>t p. p OR push_bit (31 - t) 1) crc_terms 0
      in map (\<lambda>n. (crc_shift poly ^^ 8) (of_nat n)) [0..<256])"

definition crc_table :: "u32 list" where
  "crc_table = [
     0x00000000, 0x77073096, 0xee0e612c, 0x990951ba, 0x076dc419, 0x706af48f,
     0xe963a535, 0x9e6495a3, 0x0edb8832, 0x79dcb8a4, 0xe0d5e91e, 0x97d2d988,
     0x09b64c2b, 0x7eb17cbd, 0xe7b82d07, 0x90bf1d91, 0x1db71064, 0x6ab020f2,
     0xf3b97148, 0x84be41de, 0x1adad47d, 0x6ddde4eb, 0xf4d4b551, 0x83d385c7,
     0x136c9856, 0x646ba8c0, 0xfd62f97a, 0x8a65c9ec, 0x14015c4f, 0x63066cd9,
     0xfa0f3d63, 0x8d080df5, 0x3b6e20c8, 0x4c69105e, 0xd56041e4, 0xa2677172,
     0x3c03e4d1, 0x4b04d447, 0xd20d85fd, 0xa50ab56b, 0x35b5a8fa, 0x42b2986c,
     0xdbbbc9d6, 0xacbcf940, 0x32d86ce3, 0x45df5c75, 0xdcd60dcf, 0xabd13d59,
     0x26d930ac, 0x51de003a, 0xc8d75180, 0xbfd06116, 0x21b4f4b5, 0x56b3c423,
     0xcfba9599, 0xb8bda50f, 0x2802b89e, 0x5f058808, 0xc60cd9b2, 0xb10be924,
     0x2f6f7c87, 0x58684c11, 0xc1611dab, 0xb6662d3d, 0x76dc4190, 0x01db7106,
     0x98d220bc, 0xefd5102a, 0x71b18589, 0x06b6b51f, 0x9fbfe4a5, 0xe8b8d433,
     0x7807c9a2, 0x0f00f934, 0x9609a88e, 0xe10e9818, 0x7f6a0dbb, 0x086d3d2d,
     0x91646c97, 0xe6635c01, 0x6b6b51f4, 0x1c6c6162, 0x856530d8, 0xf262004e,
     0x6c0695ed, 0x1b01a57b, 0x8208f4c1, 0xf50fc457, 0x65b0d9c6, 0x12b7e950,
     0x8bbeb8ea, 0xfcb9887c, 0x62dd1ddf, 0x15da2d49, 0x8cd37cf3, 0xfbd44c65,
     0x4db26158, 0x3ab551ce, 0xa3bc0074, 0xd4bb30e2, 0x4adfa541, 0x3dd895d7,
     0xa4d1c46d, 0xd3d6f4fb, 0x4369e96a, 0x346ed9fc, 0xad678846, 0xda60b8d0,
     0x44042d73, 0x33031de5, 0xaa0a4c5f, 0xdd0d7cc9, 0x5005713c, 0x270241aa,
     0xbe0b1010, 0xc90c2086, 0x5768b525, 0x206f85b3, 0xb966d409, 0xce61e49f,
     0x5edef90e, 0x29d9c998, 0xb0d09822, 0xc7d7a8b4, 0x59b33d17, 0x2eb40d81,
     0xb7bd5c3b, 0xc0ba6cad, 0xedb88320, 0x9abfb3b6, 0x03b6e20c, 0x74b1d29a,
     0xead54739, 0x9dd277af, 0x04db2615, 0x73dc1683, 0xe3630b12, 0x94643b84,
     0x0d6d6a3e, 0x7a6a5aa8, 0xe40ecf0b, 0x9309ff9d, 0x0a00ae27, 0x7d079eb1,
     0xf00f9344, 0x8708a3d2, 0x1e01f268, 0x6906c2fe, 0xf762575d, 0x806567cb,
     0x196c3671, 0x6e6b06e7, 0xfed41b76, 0x89d32be0, 0x10da7a5a, 0x67dd4acc,
     0xf9b9df6f, 0x8ebeeff9, 0x17b7be43, 0x60b08ed5, 0xd6d6a3e8, 0xa1d1937e,
     0x38d8c2c4, 0x4fdff252, 0xd1bb67f1, 0xa6bc5767, 0x3fb506dd, 0x48b2364b,
     0xd80d2bda, 0xaf0a1b4c, 0x36034af6, 0x41047a60, 0xdf60efc3, 0xa867df55,
     0x316e8eef, 0x4669be79, 0xcb61b38c, 0xbc66831a, 0x256fd2a0, 0x5268e236,
     0xcc0c7795, 0xbb0b4703, 0x220216b9, 0x5505262f, 0xc5ba3bbe, 0xb2bd0b28,
     0x2bb45a92, 0x5cb36a04, 0xc2d7ffa7, 0xb5d0cf31, 0x2cd99e8b, 0x5bdeae1d,
     0x9b64c2b0, 0xec63f226, 0x756aa39c, 0x026d930a, 0x9c0906a9, 0xeb0e363f,
     0x72076785, 0x05005713, 0x95bf4a82, 0xe2b87a14, 0x7bb12bae, 0x0cb61b38,
     0x92d28e9b, 0xe5d5be0d, 0x7cdcefb7, 0x0bdbdf21, 0x86d3d2d4, 0xf1d4e242,
     0x68ddb3f8, 0x1fda836e, 0x81be16cd, 0xf6b9265b, 0x6fb077e1, 0x18b74777,
     0x88085ae6, 0xff0f6a70, 0x66063bca, 0x11010b5c, 0x8f659eff, 0xf862ae69,
     0x616bffd3, 0x166ccf45, 0xa00ae278, 0xd70dd2ee, 0x4e048354, 0x3903b3c2,
     0xa7672661, 0xd06016f7, 0x4969474d, 0x3e6e77db, 0xaed16a4a, 0xd9d65adc,
     0x40df0b66, 0x37d83bf0, 0xa9bcae53, 0xdebb9ec5, 0x47b2cf7f, 0x30b5ffe9,
     0xbdbdf21c, 0xcabac28a, 0x53b39330, 0x24b4a3a6, 0xbad03605, 0xcdd70693,
     0x54de5729, 0x23d967bf, 0xb3667a2e, 0xc4614ab8, 0x5d681b02, 0x2a6f2b94,
     0xb40bbe37, 0xc30c8ea1, 0x5a05df1b, 0x2d02ef8d]"

section \<open>The checksum\<close>

text \<open>\<open>DO_CRC\<close> for a little-endian machine.\<close>

definition do_crc :: "u32 \<Rightarrow> u32 \<Rightarrow> u32" where
  "do_crc crc x = crc_table ! unat ((crc XOR x) AND 255) XOR drop_bit 8 crc"

text \<open>The prologue: single bytes up to the first word boundary.\<close>

fun crc_align :: "u32 \<Rightarrow> u32 \<Rightarrow> byte list \<Rightarrow> u32 \<times> byte list" where
  "crc_align addr crc [] = (crc, [])"
| "crc_align addr crc (b # bs) =
     (if addr AND 3 \<noteq> 0 then crc_align (addr + 1) (do_crc crc (ucast b)) bs else (crc, b # bs))"

text \<open>A 32-bit load of four bytes on a little-endian machine.\<close>

definition le_word :: "byte \<Rightarrow> byte \<Rightarrow> byte \<Rightarrow> byte \<Rightarrow> u32" where
  "le_word b0 b1 b2 b3 =
     ucast b0 OR push_bit 8 (ucast b1) OR push_bit 16 (ucast b2) OR push_bit 24 (ucast b3)"

fun crc_words :: "u32 \<Rightarrow> byte list \<Rightarrow> u32 \<times> byte list" where
  "crc_words crc (b0 # b1 # b2 # b3 # bs) =
     crc_words (do_crc (do_crc (do_crc (do_crc (crc XOR le_word b0 b1 b2 b3) 0) 0) 0) 0) bs"
| "crc_words crc bs = (crc, bs)"

fun crc_tail :: "u32 \<Rightarrow> byte list \<Rightarrow> u32" where
  "crc_tail crc [] = crc"
| "crc_tail crc (b # bs) = crc_tail (do_crc crc (ucast b)) bs"

text \<open>
  \<open>addr\<close> is the address of the buffer: the source aligns on it, and the result does not
  depend on it (\<open>crc32_no_comp_bytewise\<close> below).
\<close>

definition crc32_no_comp :: "u32 \<Rightarrow> u32 \<Rightarrow> byte list \<Rightarrow> u32" where
  "crc32_no_comp addr crc buf =
     (let (crc, buf) = crc_align addr crc buf;
          (crc, buf) = crc_words crc buf
      in crc_tail crc buf)"

definition crc32 :: "u32 \<Rightarrow> u32 \<Rightarrow> byte list \<Rightarrow> u32" where
  "crc32 addr crc p = crc32_no_comp addr (crc XOR 0xffffffff) p XOR 0xffffffff"

text \<open>
  The loop of \<open>crc32_wd\<close> feeds \<open>chunk_sz\<close> bytes at a time.  Every caller passes
  64 KiB; a chunk size of 0, with which the C loop would not end, returns at once here.
\<close>

function crc32_wd :: "u32 \<Rightarrow> u32 \<Rightarrow> byte list \<Rightarrow> nat \<Rightarrow> u32" where
  "crc32_wd addr crc buf chunk_sz =
     (if buf = [] \<or> chunk_sz = 0 then crc
      else let chunk = min (length buf) chunk_sz
           in crc32_wd (addr + of_nat chunk) (crc32 addr crc (take chunk buf)) (drop chunk buf) chunk_sz)"
  by pat_completeness auto
termination
  by (relation "measure (\<lambda>(addr, crc, buf, chunk_sz). length buf)") auto

declare crc32_wd.simps [simp del]

section \<open>The table is the shift register run eight times\<close>

abbreviation crc_poly :: u32 where "crc_poly \<equiv> 0xedb88320"

lemma make_crc_table_poly:
  "make_crc_table = map (\<lambda>n. (crc_shift crc_poly ^^ 8) (of_nat n)) [0..<256]"
proof -
  have "fold (\<lambda>t p. p OR push_bit (31 - t) 1) crc_terms 0 = crc_poly"
    by (simp add: crc_terms_def)
  then show ?thesis by (simp add: make_crc_table_def Let_def)
qed

definition crc_entry :: "nat \<Rightarrow> u32" where
  "crc_entry n = (crc_shift crc_poly ^^ 8) (of_nat n)"

lemma funpow_8: "(f ^^ 8) x = f (f (f (f (f (f (f (f x)))))))"
  by (simp add: eval_nat_numeral)

lemma crc_shift_numeral:
  "crc_shift crc_poly (numeral n) =
     (if numeral n AND (1 :: u32) \<noteq> 0 then crc_poly XOR drop_bit 1 (numeral n)
      else drop_bit 1 (numeral n))"
  "crc_shift crc_poly 0 = 0" "crc_shift crc_poly 1 = crc_poly"
  by (simp_all add: crc_shift_def)

lemma upt_0_256: "[0..<256] = 0 # Suc 0 # [2..<256]"
  by (simp only: upt_rec [of 0 256] upt_rec [of "Suc 0" 256] numeral_2_eq_2) simp

lemma make_crc_table_eq: "make_crc_table = crc_table"
proof -
  have "make_crc_table = map crc_entry [0..<256]"
    by (simp add: make_crc_table_poly crc_entry_def)
  also have "\<dots> = crc_table"
    by (simp add: upt_0_256 crc_entry_def funpow_8 crc_shift_numeral crc_table_def)
  finally show ?thesis .
qed

lemma nth_crc_table: "n < 256 \<Longrightarrow> crc_table ! n = (crc_shift crc_poly ^^ 8) (of_nat n)"
  by (simp add: make_crc_table_eq [symmetric] make_crc_table_poly)

section \<open>The shift register is linear and invertible\<close>

abbreviation crc_shift8 :: "u32 \<Rightarrow> u32" where
  "crc_shift8 \<equiv> crc_shift crc_poly ^^ 8"

lemma crc_shift_odd:
  "crc_shift poly c = (if odd c then poly XOR drop_bit 1 c else drop_bit 1 c)"
  by (simp add: crc_shift_def and_one_eq even_iff_mod_2_eq_zero)

lemma crc_shift_xor: "crc_shift poly (a XOR b) = crc_shift poly a XOR crc_shift poly b"
  by (auto simp: crc_shift_odd drop_bit_xor even_xor_iff ac_simps)

lemma crc_shift_pow_xor:
  "(crc_shift poly ^^ n) (a XOR b) = (crc_shift poly ^^ n) a XOR (crc_shift poly ^^ n) b"
  by (induction n) (simp_all add: crc_shift_xor)

lemma crc_shift_pow_low_zero:
  "take_bit n y = 0 \<Longrightarrow> (crc_shift poly ^^ n) y = drop_bit n y"
proof (induction n arbitrary: y)
  case 0
  then show ?case by simp
next
  case (Suc n)
  have "even y" using Suc.prems by (metis dvd_0_right even_take_bit_eq Suc_neq_Zero)
  then have shift: "crc_shift poly y = drop_bit 1 y" by (simp add: crc_shift_odd)
  have "take_bit n (drop_bit 1 y) = 0"
    using Suc.prems by (simp add: take_bit_drop_bit)
  then have "(crc_shift poly ^^ n) (drop_bit 1 y) = drop_bit n (drop_bit 1 y)"
    by (rule Suc.IH)
  with shift show ?case by (simp add: funpow_Suc_right drop_bit_drop_bit del: funpow.simps)
qed

lemma crc_shift_inj: "crc_shift crc_poly c = crc_shift crc_poly d \<Longrightarrow> c = d"
proof -
  assume eq: "crc_shift crc_poly c = crc_shift crc_poly d"
  have top: "bit (crc_shift crc_poly x) 31 \<longleftrightarrow> odd x" for x
    using bit_imp_le_length [of x 32] by (auto simp: crc_shift_odd bit_simps)
  with eq have "odd c = odd d" by metis
  moreover from this eq have "drop_bit 1 c = drop_bit 1 d"
    by (auto simp: crc_shift_odd split: if_splits)
  moreover have "bit x (Suc m) = bit (drop_bit 1 x) m" for x :: u32 and m
    by (simp add: bit_drop_bit_eq)
  ultimately have "bit c n = bit d n" for n
    by (cases n) (simp_all add: bit_0)
  then show ?thesis by (auto intro: bit_word_eqI)
qed

lemma crc_shift_pow_inj:
  "(crc_shift crc_poly ^^ n) c = (crc_shift crc_poly ^^ n) d \<Longrightarrow> c = d"
  by (induction n) (auto dest: crc_shift_inj)

section \<open>The optimised loop is the byte-wise register\<close>

text \<open>A table look-up per byte is eight turns of the register on \<open>crc XOR byte\<close>.\<close>

lemma do_crc_shift8:
  assumes "drop_bit 8 x = 0"
  shows "do_crc c x = crc_shift8 (c XOR x)"
proof -
  let ?y = "c XOR x"
  have m: "255 = (mask 8 :: u32)" by (simp add: mask_eq_exp_minus_1)
  have low: "unat (?y AND 255) < 256"
    using word_and_le1 [of ?y 255] by (simp add: word_le_nat_alt)
  have split: "?y = (?y AND mask 8) XOR (?y AND NOT (mask 8))"
    by (rule bit_word_eqI) (auto simp: bit_simps)
  have "take_bit 8 (?y AND NOT (mask 8)) = 0"
    by (rule bit_word_eqI) (auto simp: bit_simps)
  then have high: "crc_shift8 (?y AND NOT (mask 8)) = drop_bit 8 (?y AND NOT (mask 8))"
    by (rule crc_shift_pow_low_zero)
  have "drop_bit 8 (?y AND NOT (mask 8)) = drop_bit 8 ?y"
    by (rule bit_word_eqI) (auto simp: bit_simps dest: bit_imp_le_length)
  also have "\<dots> = drop_bit 8 c" using assms by (simp add: drop_bit_xor)
  finally have "crc_shift8 ?y = crc_shift8 (?y AND mask 8) XOR drop_bit 8 c"
    using high by (subst split) (simp only: crc_shift_pow_xor)
  then show ?thesis using nth_crc_table [OF low] by (simp add: do_crc_def m)
qed

lemma drop_bit_8_ucast [simp]: "drop_bit 8 (ucast (b :: byte) :: u32) = 0"
  by (rule bit_word_eqI) (auto simp: bit_simps dest: bit_imp_le_length)

lemma do_crc_byte: "do_crc c (ucast (b :: byte)) = crc_shift8 (c XOR ucast b)"
  by (rule do_crc_shift8) simp

lemma do_crc_0: "do_crc c 0 = crc_shift8 c"
  using do_crc_shift8 [of 0 c] by simp

lemma le_word_xor:
  "le_word b0 b1 b2 b3 =
     ucast b0 XOR push_bit 8 (ucast b1 XOR push_bit 8 (ucast b2 XOR push_bit 8 (ucast b3)))"
  by (rule bit_word_eqI) (auto simp: le_word_def bit_simps dest: bit_imp_le_length)

lemma crc_shift8_push:
  "drop_bit 24 z = 0 \<Longrightarrow> crc_shift8 (c XOR push_bit 8 z) = crc_shift8 c XOR z"
proof -
  assume z: "drop_bit 24 z = 0"
  have "take_bit 8 (push_bit 8 z) = 0" by (rule bit_word_eqI) (auto simp: bit_simps)
  then have "crc_shift8 (push_bit 8 z) = drop_bit 8 (push_bit 8 z)"
    by (rule crc_shift_pow_low_zero)
  also have "\<dots> = z"
  proof (rule bit_word_eqI)
    fix n assume n: "n < LENGTH(32)"
    have "\<not> bit z k" if "24 \<le> k" for k
    proof -
      have "bit (drop_bit 24 z) (k - 24) = bit z k" using that by (simp add: bit_drop_bit_eq)
      with z show ?thesis by simp
    qed
    with n show "bit (drop_bit 8 (push_bit 8 z)) n = bit z n"
      by (cases "24 \<le> n") (auto simp: bit_simps)
  qed
  finally show ?thesis by (simp add: crc_shift_pow_xor)
qed

lemma drop_bit_24_bytes [simp]:
  "drop_bit 24 (ucast (b :: byte) XOR push_bit 8 (ucast (c :: byte) XOR push_bit 8 (ucast (d :: byte)))) = (0 :: u32)"
  "drop_bit 24 (ucast (b :: byte) XOR push_bit 8 (ucast (c :: byte))) = (0 :: u32)"
  "drop_bit 24 (ucast (b :: byte)) = (0 :: u32)"
  by (rule bit_word_eqI; auto simp: bit_simps dest: bit_imp_le_length)+

lemma crc_word_bytes:
  "do_crc (do_crc (do_crc (do_crc (c XOR le_word b0 b1 b2 b3) 0) 0) 0) 0 =
   do_crc (do_crc (do_crc (do_crc c (ucast b0)) (ucast b1)) (ucast b2)) (ucast b3)"
  by (simp only: do_crc_0 do_crc_byte le_word_xor xor.assoc [symmetric] crc_shift8_push drop_bit_24_bytes)

lemma crc_tail_append [simp]: "crc_tail c (xs @ ys) = crc_tail (crc_tail c xs) ys"
  by (induction c xs rule: crc_tail.induct) auto

lemma crc_align_tail: "crc_align addr c bs = (c', bs') \<Longrightarrow> crc_tail c' bs' = crc_tail c bs"
  by (induction addr c bs rule: crc_align.induct) (auto split: if_splits)

lemma crc_words_tail: "crc_words c bs = (c', bs') \<Longrightarrow> crc_tail c' bs' = crc_tail c bs"
  by (induction c bs rule: crc_words.induct) (auto simp: crc_word_bytes)

lemma crc32_no_comp_bytewise: "crc32_no_comp addr c buf = crc_tail c buf"
  by (auto simp: crc32_no_comp_def crc_align_tail crc_words_tail split: prod.splits)

lemma crc32_bytewise: "crc32 addr c buf = crc_tail (c XOR 0xffffffff) buf XOR 0xffffffff"
  by (simp add: crc32_def crc32_no_comp_bytewise)

lemma crc32_Nil [simp]: "crc32 addr c [] = c"
  by (simp add: crc32_bytewise xor.assoc)

lemma crc32_append: "crc32 addr c (xs @ ys) = crc32 addr' (crc32 addr'' c xs) ys"
  by (simp add: crc32_bytewise xor.assoc)

lemma crc32_addr: "crc32 addr c xs = crc32 0 c xs"
  by (simp add: crc32_bytewise)

lemma crc32_wd_eq: "0 < chunk_sz \<Longrightarrow> crc32_wd addr c buf chunk_sz = crc32 0 c buf"
proof (induction addr c buf chunk_sz rule: crc32_wd.induct)
  case (1 addr c buf chunk_sz)
  show ?case
  proof (cases "buf = []")
    case True
    then show ?thesis by (simp add: crc32_wd.simps)
  next
    case False
    let ?n = "min (length buf) chunk_sz"
    have "crc32_wd addr c buf chunk_sz =
        crc32_wd (addr + of_nat ?n) (crc32 addr c (take ?n buf)) (drop ?n buf) chunk_sz"
      using False 1 by (subst crc32_wd.simps) (simp add: Let_def)
    also have "\<dots> = crc32 0 (crc32 addr c (take ?n buf)) (drop ?n buf)"
      using 1 False by simp
    also have "\<dots> = crc32 0 c (take ?n buf @ drop ?n buf)"
      by (rule crc32_append [symmetric])
    finally show ?thesis by simp
  qed
qed

section \<open>What the checksum detects\<close>

lemma crc_tail_inj_state: "crc_tail c xs = crc_tail d xs \<Longrightarrow> c = d"
proof (induction xs arbitrary: c d)
  case Nil
  then show ?case by simp
next
  case (Cons x xs)
  then have "do_crc c (ucast x) = do_crc d (ucast x)" by simp
  then have "c XOR ucast x = d XOR ucast x"
    by (auto simp: do_crc_byte dest: crc_shift_pow_inj)
  then show ?case by simp
qed

lemma crc_tail_4:
  "crc_tail c [b0, b1, b2, b3] = crc_shift8 (crc_shift8 (crc_shift8 (crc_shift8 (c XOR le_word b0 b1 b2 b3))))"
  using crc_word_bytes [of c b0 b1 b2 b3] by (simp add: do_crc_0)

lemma le_word_inj:
  assumes "le_word a0 a1 a2 a3 = le_word b0 b1 b2 b3"
  shows "a0 = b0 \<and> a1 = b1 \<and> a2 = b2 \<and> a3 = b3"
proof -
  have bits: "bit (le_word x0 x1 x2 x3) n \<longleftrightarrow> bit (if n < 8 then x0 else if n < 16 then x1 else if n < 24 then x2 else x3) (n mod 8)"
    if "n < 32" for x0 x1 x2 x3 :: byte and n
    using that by (auto simp: le_word_def bit_simps mod_if dest: bit_imp_le_length)
  have "bit a0 k = bit b0 k \<and> bit a1 k = bit b1 k \<and> bit a2 k = bit b2 k \<and> bit a3 k = bit b3 k"
    if "k < 8" for k
    using that assms mod_less [OF that] bits [of k a0 a1 a2 a3] bits [of k b0 b1 b2 b3]
      bits [of "8 + k" a0 a1 a2 a3] bits [of "8 + k" b0 b1 b2 b3]
      bits [of "16 + k" a0 a1 a2 a3] bits [of "16 + k" b0 b1 b2 b3]
      bits [of "24 + k" a0 a1 a2 a3] bits [of "24 + k" b0 b1 b2 b3]
    by (simp add: mod_add_left_eq [of 8 8 k, symmetric] mod_add_left_eq [of 16 8 k, symmetric]
        mod_add_left_eq [of 24 8 k, symmetric])
  then show ?thesis by (auto intro: bit_word_eqI)
qed

lemma length_4_cases: "length xs = 4 \<Longrightarrow> \<exists>a b c d. xs = [a, b, c, d]"
  by (auto simp: eval_nat_numeral length_Suc_conv)

lemma crc_tail_burst:
  assumes "length xs = length ys" and "length xs \<le> 4" and eq: "crc_tail c xs = crc_tail c ys"
  shows "xs = ys"
proof -
  let ?z = "replicate (4 - length xs) (0 :: byte)"
  from eq have "crc_tail c (xs @ ?z) = crc_tail c (ys @ ?z)" by simp
  moreover obtain a0 a1 a2 a3 where a: "xs @ ?z = [a0, a1, a2, a3]"
    using length_4_cases [of "xs @ ?z"] assms(2) by auto
  moreover obtain b0 b1 b2 b3 where b: "ys @ ?z = [b0, b1, b2, b3]"
    using length_4_cases [of "ys @ ?z"] assms(1,2) by auto
  ultimately have "c XOR le_word a0 a1 a2 a3 = c XOR le_word b0 b1 b2 b3"
    by (auto simp: crc_tail_4 simp del: crc_tail.simps dest!: crc_shift_pow_inj)
  then have "le_word a0 a1 a2 a3 = le_word b0 b1 b2 b3" by simp
  with a b have "xs @ ?z = ys @ ?z" by (simp add: le_word_inj)
  then show ?thesis by simp
qed

section \<open>Properties\<close>

text \<open>
  The 256 constants compiled into the firmware are what the generator of the same file
  computes from the polynomial.
\<close>

theorem crc_table_generated: "make_crc_table = crc_table"
  by (rule make_crc_table_eq)

text \<open>
  C39: the table-driven, word-at-a-time checksum is the bit-serial CRC-32: whatever the
  alignment of the buffer, every byte is added to the register, which then shifts eight
  times under the reflected polynomial.
\<close>

theorem crc32_is_bit_serial:
  "crc32 addr c buf =
     fold (\<lambda>b r. (crc_shift 0xedb88320 ^^ 8) (r XOR ucast b)) buf (c XOR 0xffffffff) XOR 0xffffffff"
proof -
  have "crc_tail r buf = fold (\<lambda>b r. (crc_shift 0xedb88320 ^^ 8) (r XOR ucast b)) buf r" for r
    by (induction buf arbitrary: r) (simp_all add: do_crc_byte)
  then show ?thesis by (simp add: crc32_bytewise)
qed

text \<open>
  C40: checksums compose: feeding a stream in pieces (as the upload does with network
  buffers and the verification with flash blocks), or through the watchdog variant in
  chunks of any size, gives the checksum of the whole.
\<close>

theorem crc32_streams:
  assumes "0 < chunk_sz"
  shows "fold (\<lambda>piece c. crc32 addr c piece) pieces c = crc32 0 c (concat pieces) \<and>
    crc32_wd addr c (concat pieces) chunk_sz = crc32 0 c (concat pieces)"
proof
  show "fold (\<lambda>piece c. crc32 addr c piece) pieces c = crc32 0 c (concat pieces)"
    by (induction pieces arbitrary: c) (simp_all add: crc32_append [of 0 _ _ _ 0 addr])
  show "crc32_wd addr c (concat pieces) chunk_sz = crc32 0 c (concat pieces)"
    by (rule crc32_wd_eq [OF assms])
qed

theorem crc32_streams_witness:
  "crc32_wd 0 0 (concat [[1, 2], [3, 4, 5]]) 2 = crc32 0 0 [1, 2, 3, 4, 5]"
  using crc32_streams [of 2 0 "[[1, 2], [3, 4, 5]]" 0] by simp

text \<open>
  A change confined to a window of four bytes (a burst of up to 32 bits) always changes
  the checksum.
\<close>

theorem crc32_detects_bursts:
  assumes "length xs = length ys" and "length xs \<le> 4" and "xs \<noteq> ys"
  shows "crc32 addr c (pre @ xs @ post) \<noteq> crc32 addr' c (pre @ ys @ post)"
  using assms crc_tail_burst [of xs ys] crc_tail_inj_state
  by (auto simp: crc32_bytewise dest!: crc_tail_inj_state)

theorem crc32_detects_bursts_witness:
  "crc32 0 0 ([7, 8] @ [1, 2, 3] @ [9]) \<noteq> crc32 2 0 ([7, 8] @ [1, 5, 3] @ [9])"
  by (rule crc32_detects_bursts) simp_all

end
