(* ===== verification/SpiNor.thy ===== *)
theory SpiNor
  imports Prelude
begin

text \<open>
  The SPI NOR path below the web console: the driver-model operations of
  drivers/mtd/spi/sf_probe.c over erase, read and write of drivers/mtd/spi/spi-nor-core.c,
  in the configuration of the board (\<open>CONFIG_SPI_FLASH_BAR\<close>: three-byte addresses and a
  bank register above 16 MiB; no stacked or parallel chips, no DTR, no SST).

  The chip itself is hardware.  Its part of the state is the array, the extended address
  register and the write enable latch, and it does what a serial NOR does: a read returns
  the bytes at bank and address, a page program clears bits and wraps inside its page, a
  sector erase sets the sector to 0xff, and program, erase and a register write happen only
  with the latch set.  \<open>xfer\<close> is the outcome of the coming bus transactions (an empty
  list: all succeed) and \<open>ctrlc_in\<close> the answers of the coming \<open>ctrlc()\<close> calls.
\<close>

section \<open>The operations of a flash device (include/spi_flash.h)\<close>

text \<open>
  A read returns its status, the bytes it stored at the start of the caller's buffer, and
  the device.
\<close>

record 'c dm_spi_flash_ops =
  sf_read :: "'c \<Rightarrow> u32 \<Rightarrow> u32 \<Rightarrow> int \<times> byte list \<times> 'c"
  sf_write :: "'c \<Rightarrow> u32 \<Rightarrow> byte list \<Rightarrow> int \<times> 'c"
  sf_erase :: "'c \<Rightarrow> u32 \<Rightarrow> u32 \<Rightarrow> int \<times> 'c"

section \<open>Driver and chip state\<close>

record spi_nor =
  mtd_size :: nat
  erasesize :: nat
  page_size :: nat
  no_op_chip_erase :: bool
  bank_curr :: nat
  array :: "nat \<Rightarrow> byte"
  ear :: nat
  wel :: bool
  xfer :: "int list"
  ctrlc_in :: "bool list"

abbreviation SZ_16M :: nat where "SZ_16M \<equiv> 16777216"

text \<open>\<open>spi_mem_exec_op\<close>: the outcome of one transaction on the bus.\<close>

definition spi_mem_exec_op :: "spi_nor \<Rightarrow> int \<times> spi_nor" where
  "spi_mem_exec_op nor =
     (case xfer nor of [] \<Rightarrow> (0, nor) | e # es \<Rightarrow> (e, nor\<lparr>xfer := es\<rparr>))"

definition ctrlc :: "spi_nor \<Rightarrow> bool \<times> spi_nor" where
  "ctrlc nor = (case ctrlc_in nor of [] \<Rightarrow> (False, nor) | b # bs \<Rightarrow> (b, nor\<lparr>ctrlc_in := bs\<rparr>))"

definition write_enable :: "spi_nor \<Rightarrow> int \<times> spi_nor" where
  "write_enable nor =
     (let (ret, nor) = spi_mem_exec_op nor in (ret, if ret = 0 then nor\<lparr>wel := True\<rparr> else nor))"

definition write_disable :: "spi_nor \<Rightarrow> int \<times> spi_nor" where
  "write_disable nor =
     (let (ret, nor) = spi_mem_exec_op nor in (ret, if ret = 0 then nor\<lparr>wel := False\<rparr> else nor))"

text \<open>The register write of the bank number: the chip takes it with the latch set.\<close>

definition write_bank_reg :: "spi_nor \<Rightarrow> nat \<Rightarrow> int \<times> spi_nor" where
  "write_bank_reg nor bank =
     (let (ret, nor) = spi_mem_exec_op nor
      in (ret, if ret = 0 \<and> wel nor then nor\<lparr>ear := bank, wel := False\<rparr> else nor))"

text \<open>
  Polling the status register until the chip is ready or the time is up; one outcome of the
  bus stands for the whole poll (0: ready, negative: an error or \<open>-ETIMEDOUT\<close>).
\<close>

definition spi_nor_wait_till_ready :: "spi_nor \<Rightarrow> int \<times> spi_nor" where
  "spi_nor_wait_till_ready nor = spi_mem_exec_op nor"

definition clean_bar :: "spi_nor \<Rightarrow> int \<times> spi_nor" where
  "clean_bar nor =
     (if bank_curr nor = 0 then (0, nor)
      else let nor = nor\<lparr>bank_curr := 0\<rparr>;
               (_, nor) = write_enable nor;
               (ret, nor) = write_bank_reg nor 0
           in if ret \<noteq> 0 then (ret, nor) else write_disable nor)"

definition write_bar :: "spi_nor \<Rightarrow> nat \<Rightarrow> int \<times> spi_nor" where
  "write_bar nor offset =
     (let (rdy, nor) = spi_nor_wait_till_ready nor
      in if rdy \<noteq> 0 then (1, nor)
         else if mtd_size nor \<le> SZ_16M then (0, nor)
         else let offset = offset mod mtd_size nor;
                  bank_sel = (offset div SZ_16M) mod 256
              in if bank_sel = bank_curr nor then (0, nor)
                 else let (_, nor) = write_enable nor;
                          (ret, nor) = write_bank_reg nor bank_sel
                      in if ret < 0 then (ret, nor)
                         else write_disable (nor\<lparr>bank_curr := bank_sel\<rparr>))"

section \<open>Erase\<close>

text \<open>The cell a three-byte address selects in the current bank.\<close>

definition chip_addr :: "spi_nor \<Rightarrow> nat \<Rightarrow> nat" where
  "chip_addr nor a = ear nor * SZ_16M + a mod SZ_16M"

definition spi_nor_erase_chip :: "spi_nor \<Rightarrow> int \<times> spi_nor" where
  "spi_nor_erase_chip nor =
     (let (ret, nor) = spi_mem_exec_op nor
      in if ret \<noteq> 0 then (ret, nor)
         else (int (mtd_size nor),
               if wel nor
               then nor\<lparr>array := (\<lambda>a. if a < mtd_size nor then 0xff else array nor a), wel := False\<rparr>
               else nor))"

definition spi_nor_erase_sector :: "spi_nor \<Rightarrow> nat \<Rightarrow> int \<times> spi_nor" where
  "spi_nor_erase_sector nor addr =
     (let (ret, nor) = spi_mem_exec_op nor
      in if ret \<noteq> 0 then (ret, nor)
         else let base = chip_addr nor addr - chip_addr nor addr mod erasesize nor
              in (int (erasesize nor),
                  if wel nor
                  then nor\<lparr>array := (\<lambda>a. if base \<le> a \<and> a < base + erasesize nor then 0xff
                                         else array nor a), wel := False\<rparr>
                  else nor))"

text \<open>
  One turn of the \<open>while (len)\<close> loop of \<open>spi_nor_erase\<close>: the status, what was erased and
  the device; a negative or (from the final wait) non-zero status leaves the loop.
\<close>

definition erase_turn :: "spi_nor \<Rightarrow> nat \<Rightarrow> nat \<Rightarrow> nat \<Rightarrow> int \<times> nat \<times> spi_nor" where
  "erase_turn nor addr len max_size =
     (let (stop, nor) = ctrlc nor
      in if stop then (- EINTR, 0, nor)
         else let (ret, nor) = write_bar nor addr
              in if ret < 0 then (ret, 0, nor)
                 else let (ret, nor) = write_enable nor
                      in if ret < 0 then (ret, 0, nor)
                         else let (ret, nor) =
                                (if len = mtd_size nor \<and> \<not> no_op_chip_erase nor
                                 then spi_nor_erase_chip nor else spi_nor_erase_sector nor addr)
                              in if ret < 0 then (ret, 0, nor)
                                 else let (w, nor) = spi_nor_wait_till_ready nor
                                      in (w, nat ret, nor))"

text \<open>
  The loop ends: every completed turn takes a sector (or the whole chip) off \<open>len\<close>.  The
  guard \<open>n = 0\<close> names the impossible turn that erases nothing.
\<close>

function erase_loop :: "spi_nor \<Rightarrow> nat \<Rightarrow> nat \<Rightarrow> nat \<Rightarrow> int \<times> spi_nor" where
  "erase_loop nor addr len max_size =
     (if len = 0 then (0, nor)
      else let r = erase_turn nor addr len max_size; n = fst (snd r)
           in if fst r \<noteq> 0 \<or> n = 0 then (fst r, snd (snd r))
              else erase_loop (snd (snd r)) (addr + n) (len - n) max_size)"
  by pat_completeness auto
termination
  by (relation "measure (\<lambda>(nor, addr, len, max_size). len)") auto

declare erase_loop.simps [simp del]

definition spi_nor_erase :: "spi_nor \<Rightarrow> nat \<Rightarrow> nat \<Rightarrow> int \<times> spi_nor" where
  "spi_nor_erase nor addr len =
     (if len mod erasesize nor \<noteq> 0 then (- EINVAL, nor)
      else let (ret, nor) = erase_loop nor addr len len;
               (err, nor) = clean_bar nor;
               ret = (if ret = 0 then err else ret);
               (err, nor) = write_disable nor
           in (if ret = 0 then err else ret, nor))"

section \<open>Read\<close>

text \<open>\<open>nor->read\<close> (\<open>spi_nor_read_data\<close>): the number of bytes read, or an error.\<close>

definition spi_nor_read_data :: "spi_nor \<Rightarrow> nat \<Rightarrow> nat \<Rightarrow> int \<times> byte list \<times> spi_nor" where
  "spi_nor_read_data nor from len =
     (let (ret, nor) = spi_mem_exec_op nor
      in if ret \<noteq> 0 then (ret, [], nor)
         else (int len, map (\<lambda>i. array nor (chip_addr nor (from + i))) [0..<len], nor))"

text \<open>
  The loop of \<open>spi_nor_read\<close>, at most one bank per turn: the bytes stored so far and the
  device.  \<open>Some e\<close> is an early \<open>return e\<close> inside the loop, \<open>None\<close> the way through
  \<open>read_err\<close>, which overwrites the status with that of \<open>clean_bar\<close>.
\<close>

function read_loop :: "spi_nor \<Rightarrow> nat \<Rightarrow> nat \<Rightarrow> byte list \<Rightarrow> int option \<times> byte list \<times> spi_nor" where
  "read_loop nor from len buf =
     (if len = 0 then (None, buf, nor)
      else let bank = from div SZ_16M;
               rem_bank_len = SZ_16M * (bank + 1) - from;
               b = write_bar nor from
           in if fst b < 0 then (Some (fst b), buf, snd b)
              else let read_len = (if len < rem_bank_len then len else rem_bank_len)
                   in if read_len = 0 then (Some (- EIO), buf, snd b)
                      else let r = spi_nor_read_data (snd b) from read_len
                           in if fst r \<le> 0 then (None, buf, snd (snd r))
                              else read_loop (snd (snd r)) (from + read_len) (len - read_len)
                                     (buf @ fst (snd r)))"
  by pat_completeness auto
termination
  by (relation "measure (\<lambda>(nor, from, len, buf). len)") auto

declare read_loop.simps [simp del]

definition spi_nor_read :: "spi_nor \<Rightarrow> nat \<Rightarrow> nat \<Rightarrow> int \<times> byte list \<times> spi_nor" where
  "spi_nor_read nor from len =
     (case read_loop nor from len [] of
        (Some e, buf, nor) \<Rightarrow> (e, buf, nor)
      | (None, buf, nor) \<Rightarrow> (let (ret, nor) = clean_bar nor in (ret, buf, nor)))"

section \<open>Write\<close>

text \<open>
  \<open>nor->write\<close> (\<open>spi_nor_write_data\<close>): one page program.  Its address counter wraps
  inside the page, and programming only clears bits.
\<close>

definition page_program :: "spi_nor \<Rightarrow> nat \<Rightarrow> byte list \<Rightarrow> spi_nor" where
  "page_program nor to data =
     (let base = chip_addr nor to - chip_addr nor to mod page_size nor;
          cell = (\<lambda>i. base + (chip_addr nor to + i) mod page_size nor)
      in nor\<lparr>array := fold (\<lambda>i m. m(cell i := m (cell i) AND data ! i)) [0..<length data] (array nor),
             wel := False\<rparr>)"

definition spi_nor_write_data :: "spi_nor \<Rightarrow> nat \<Rightarrow> byte list \<Rightarrow> int \<times> spi_nor" where
  "spi_nor_write_data nor to data =
     (let (ret, nor) = spi_mem_exec_op nor
      in if ret \<noteq> 0 then (ret, nor)
         else (int (length data), if wel nor then page_program nor to data else nor))"

text \<open>
  The loop of \<open>spi_nor_write\<close>: \<open>i\<close> bytes are written.  A result of \<open>write_enable\<close>
  is not looked at; \<open>write_err\<close> discards the status (\<open>None\<close>).  The page size of a
  probed chip is not 0, which the guard names.
\<close>

function write_loop :: "spi_nor \<Rightarrow> nat \<Rightarrow> byte list \<Rightarrow> nat \<Rightarrow> int option \<times> spi_nor" where
  "write_loop nor to buf i =
     (if length buf \<le> i \<or> page_size nor = 0 then (None, nor)
      else let addr = to + i;
               page_offset = addr mod page_size nor;
               b = write_bar nor addr
           in if fst b < 0 then (Some (fst b), snd b)
              else let page_remain = min (page_size nor - page_offset) (length buf - i);
                       nor1 = snd (write_enable (snd b));
                       r = spi_nor_write_data nor1 addr (take page_remain (drop i buf))
                   in if fst r < 0 then (None, snd r)
                      else let w = spi_nor_wait_till_ready (snd r)
                           in if fst w \<noteq> 0 then (None, snd w)
                              else write_loop (snd w) to buf (i + page_remain))"
  by pat_completeness auto
termination
  by (relation "measure (\<lambda>(nor, to, buf, i). length buf - i)")
    (auto intro!: page_step_less simp: not_le)

declare write_loop.simps [simp del]

definition spi_nor_write :: "spi_nor \<Rightarrow> nat \<Rightarrow> byte list \<Rightarrow> int \<times> spi_nor" where
  "spi_nor_write nor to buf =
     (if buf = [] then (0, nor)
      else case write_loop nor to buf 0 of
             (Some e, nor) \<Rightarrow> (e, nor)
           | (None, nor) \<Rightarrow> clean_bar nor)"

section \<open>The driver-model operations (drivers/mtd/spi/sf_probe.c)\<close>

definition spi_flash_std_read :: "spi_nor \<Rightarrow> u32 \<Rightarrow> u32 \<Rightarrow> int \<times> byte list \<times> spi_nor" where
  "spi_flash_std_read nor offset len = spi_nor_read nor (unat offset) (unat len)"

definition spi_flash_std_write :: "spi_nor \<Rightarrow> u32 \<Rightarrow> byte list \<Rightarrow> int \<times> spi_nor" where
  "spi_flash_std_write nor offset buf = spi_nor_write nor (unat offset) buf"

definition spi_flash_std_erase :: "spi_nor \<Rightarrow> u32 \<Rightarrow> u32 \<Rightarrow> int \<times> spi_nor" where
  "spi_flash_std_erase nor offset len =
     (if erasesize nor = 0 \<or> unat offset mod erasesize nor \<noteq> 0 \<or> unat len mod erasesize nor \<noteq> 0
      then (- EINVAL, nor)
      else spi_nor_erase nor (unat offset) (unat len))"

definition spi_flash_std_ops :: "spi_nor dm_spi_flash_ops" where
  "spi_flash_std_ops =
     \<lparr>sf_read = spi_flash_std_read, sf_write = spi_flash_std_write, sf_erase = spi_flash_std_erase\<rparr>"

section \<open>The contract of a flash device\<close>

text \<open>
  What a client of the three operations relies on: \<open>view\<close> is the contents, \<open>ok\<close> holds of a
  device that is idle on a bus without faults and every operation keeps it.  An erase can be
  interrupted, so its success is not promised; what it leaves alone is.
\<close>

locale nor_flash =
  fixes ops :: "'c dm_spi_flash_ops"
    and view :: "'c \<Rightarrow> nat \<Rightarrow> byte"
    and ok :: "'c \<Rightarrow> bool"
    and capacity :: "'c \<Rightarrow> nat"
    and sector :: "'c \<Rightarrow> nat"
  assumes read_ok:
      "ok c \<Longrightarrow> unat off + unat len \<le> capacity c \<Longrightarrow>
       \<exists>c'. sf_read ops c off len = (0, mem_bytes (view c) (unat off) (unat len), c') \<and>
            view c' = view c \<and> ok c' \<and> capacity c' = capacity c \<and> sector c' = sector c"
    and write_ok:
      "ok c \<Longrightarrow> unat off + length buf \<le> capacity c \<Longrightarrow>
       \<exists>c'. sf_write ops c off buf = (0, c') \<and>
            view c' = (\<lambda>a. if unat off \<le> a \<and> a < unat off + length buf
                           then view c a AND buf ! (a - unat off) else view c a) \<and>
            ok c' \<and> capacity c' = capacity c \<and> sector c' = sector c"
    and erase_ok:
      "ok c \<Longrightarrow> unat off + unat len \<le> capacity c \<Longrightarrow>
       sf_erase ops c off len = (r, c') \<Longrightarrow>
         ok c' \<and> capacity c' = capacity c \<and> sector c' = sector c \<and>
         (\<forall>a. \<not> (unat off \<le> a \<and> a < unat off + unat len) \<longrightarrow> view c' a = view c a) \<and>
         (r = 0 \<longrightarrow> (\<forall>a. unat off \<le> a \<and> a < unat off + unat len \<longrightarrow> view c' a = 0xff))"
begin

text \<open>Bytes written to an erased range read back as they were.\<close>

lemma erase_write_read:
  assumes "ok c" and "unat off + unat len \<le> capacity c" and "length buf \<le> unat len"
    and "sf_erase ops c off len = (0, c1)" and "sf_write ops c1 off buf = (r, c2)"
    and "unat n = length buf"
  shows "r = 0 \<and> ok c2 \<and> (\<exists>c3. sf_read ops c2 off n = (0, buf, c3) \<and> ok c3)"
proof -
  have e: "ok c1" "capacity c1 = capacity c"
      "\<forall>a. unat off \<le> a \<and> a < unat off + unat len \<longrightarrow> view c1 a = 0xff"
    using erase_ok [OF assms(1,2,4)] by simp_all
  with assms obtain v where w: "r = 0" "ok c2" "capacity c2 = capacity c" "view c2 = v"
      "v = (\<lambda>a. if unat off \<le> a \<and> a < unat off + length buf
                   then view c1 a AND buf ! (a - unat off) else view c1 a)"
    using write_ok [of c1 off buf] by auto
  have "mem_bytes v (unat off) (length buf) = buf"
  proof (rule nth_equalityI)
    fix i assume "i < length (mem_bytes v (unat off) (length buf))"
    with w e assms(3) show "mem_bytes v (unat off) (length buf) ! i = buf ! i"
      by simp
  qed simp
  with w assms read_ok [of c2 off n] show ?thesis by auto
qed

end

section \<open>The driver keeps the contract\<close>

text \<open>
  Inside an operation the bank register of the chip and the driver's copy agree
  (\<open>spi_mid\<close>); between operations both are 0 (\<open>spi_ok\<close>).
\<close>

definition spi_geometry :: "spi_nor \<Rightarrow> bool" where
  "spi_geometry nor \<longleftrightarrow>
     0 < erasesize nor \<and> erasesize nor dvd SZ_16M \<and> 0 < page_size nor \<and>
     page_size nor dvd SZ_16M \<and> mtd_size nor \<le> 256 * SZ_16M"

definition spi_mid :: "spi_nor \<Rightarrow> bool" where
  "spi_mid nor \<longleftrightarrow>
     spi_geometry nor \<and> xfer nor = [] \<and> ear nor = bank_curr nor \<and>
     (mtd_size nor \<le> SZ_16M \<longrightarrow> bank_curr nor = 0)"

definition spi_ok :: "spi_nor \<Rightarrow> bool" where
  "spi_ok nor \<longleftrightarrow> spi_mid nor \<and> bank_curr nor = 0"

definition set_bank :: "spi_nor \<Rightarrow> nat \<Rightarrow> spi_nor" where
  "set_bank nor b =
     (if b = bank_curr nor then nor else nor\<lparr>bank_curr := b, ear := b, wel := False\<rparr>)"

lemma set_bank_fields [simp]:
  "mtd_size (set_bank nor b) = mtd_size nor" "erasesize (set_bank nor b) = erasesize nor"
  "page_size (set_bank nor b) = page_size nor" "array (set_bank nor b) = array nor"
  "no_op_chip_erase (set_bank nor b) = no_op_chip_erase nor"
  "xfer (set_bank nor b) = xfer nor" "bank_curr (set_bank nor b) = b"
  by (simp_all add: set_bank_def)

lemma set_bank_mid:
  "spi_mid nor \<Longrightarrow> (mtd_size nor \<le> SZ_16M \<Longrightarrow> b = 0) \<Longrightarrow> spi_mid (set_bank nor b) \<and> ear (set_bank nor b) = b"
  by (auto simp: set_bank_def spi_mid_def spi_geometry_def)

lemma exec_ok [simp]: "xfer nor = [] \<Longrightarrow> spi_mem_exec_op nor = (0, nor)"
  by (simp add: spi_mem_exec_op_def)

lemmas spi_reg_defs =
  write_enable_def write_disable_def write_bank_reg_def spi_nor_wait_till_ready_def

lemma write_bar_ok:
  assumes "spi_mid nor" and "a < mtd_size nor"
  shows "write_bar nor a = (0, set_bank nor (a div SZ_16M))"
proof -
  have "a div SZ_16M < 256" using assms
    by (simp add: spi_mid_def spi_geometry_def less_mult_imp_div_less mult.commute)
  moreover have "a div SZ_16M = 0" if "mtd_size nor \<le> SZ_16M" using that assms by simp
  ultimately show ?thesis using assms
    by (auto simp: write_bar_def spi_reg_defs set_bank_def spi_mid_def Let_def)
qed

lemma clean_bar_ok: "spi_mid nor \<Longrightarrow> clean_bar nor = (0, set_bank nor 0)"
  by (auto simp: clean_bar_def spi_reg_defs set_bank_def spi_mid_def)

lemma chip_addr_bank:
  assumes "spi_mid nor" and "a < mtd_size nor" and "b div SZ_16M = a div SZ_16M"
  shows "chip_addr (set_bank nor (a div SZ_16M)) b = b"
proof -
  have "mtd_size nor \<le> SZ_16M \<Longrightarrow> a div SZ_16M = 0" using assms(2) by simp
  then have "ear (set_bank nor (a div SZ_16M)) = a div SZ_16M"
    using set_bank_mid [OF assms(1)] by simp
  then show ?thesis using assms(3) by (simp add: chip_addr_def) (metis div_mult_mod_eq)
qed

lemma bank_mid: "spi_mid nor \<Longrightarrow> a < mtd_size nor \<Longrightarrow> spi_mid (set_bank nor (a div SZ_16M))"
  using set_bank_mid [of nor "a div SZ_16M"] by auto

subsection \<open>Erase\<close>

lemma spi_mid_update [simp]:
  "spi_mid (nor\<lparr>array := m\<rparr>) = spi_mid nor" "spi_mid (nor\<lparr>wel := w\<rparr>) = spi_mid nor"
  "spi_mid (nor\<lparr>ctrlc_in := cs\<rparr>) = spi_mid nor"
  by (simp_all add: spi_mid_def spi_geometry_def)

lemma ctrlc_fields:
  assumes "ctrlc nor = (stop, nor')"
  shows "\<exists>cs. nor' = nor\<lparr>ctrlc_in := cs\<rparr>"
proof (cases "ctrlc_in nor")
  case Nil
  with assms have "nor' = nor\<lparr>ctrlc_in := ctrlc_in nor\<rparr>" by (simp add: ctrlc_def)
  then show ?thesis ..
next
  case (Cons b bs)
  with assms show ?thesis by (auto simp: ctrlc_def)
qed

lemma erase_turn_ok:
  assumes mid: "spi_mid nor" and len: "0 < len" "addr + len \<le> mtd_size nor"
    and al: "erasesize nor dvd addr" "erasesize nor dvd len"
    and turn: "erase_turn nor addr len max_size = (r, n, nor')"
  shows "spi_mid nor' \<and> mtd_size nor' = mtd_size nor \<and> erasesize nor' = erasesize nor \<and>
    page_size nor' = page_size nor \<and>
    ((r = - EINTR \<and> array nor' = array nor) \<or>
     (r = 0 \<and> 0 < n \<and> n \<le> len \<and> erasesize nor dvd n \<and>
      array nor' = (\<lambda>a. if addr \<le> a \<and> a < addr + n then 0xff else array nor a)))"
proof -
  obtain stop nor1 where c: "ctrlc nor = (stop, nor1)" by fastforce
  obtain cs where nor1: "nor1 = nor\<lparr>ctrlc_in := cs\<rparr>" using ctrlc_fields [OF c] by blast
  have mid1: "spi_mid nor1" and sz1: "mtd_size nor1 = mtd_size nor" "erasesize nor1 = erasesize nor"
    "page_size nor1 = page_size nor" "array nor1 = array nor" using mid nor1 by simp_all
  show ?thesis
  proof (cases stop)
    case True
    with turn c nor1 mid show ?thesis by (auto simp: erase_turn_def)
  next
    case False
    let ?b = "set_bank nor1 (addr div SZ_16M)"
    have addr: "addr < mtd_size nor1" using len sz1 by simp
    have bmid: "spi_mid ?b" by (rule bank_mid [OF mid1 addr])
    have wb: "write_bar nor1 addr = (0, ?b)" by (rule write_bar_ok [OF mid1 addr])
    have x: "xfer nor1 = []" and es: "0 < erasesize nor" using mid1 mid by (simp_all add: spi_mid_def spi_geometry_def)
    have ca: "chip_addr (?b\<lparr>wel := True\<rparr>) addr = addr"
      using chip_addr_bank [OF mid1 addr refl] by (simp add: chip_addr_def)
    show ?thesis
    proof (cases "len = mtd_size nor \<and> \<not> no_op_chip_erase nor")
      case True
      with len have "addr = 0" by simp
      with turn c False wb x True sz1 bmid al es len nor1 show ?thesis
        by (auto simp: erase_turn_def spi_reg_defs spi_nor_erase_chip_def fun_eq_iff)
    next
      case sector: False
      have "addr - addr mod erasesize nor = addr" using al(1) by simp
      moreover have "erasesize nor \<le> len" using al(2) len by (simp add: dvd_imp_le)
      ultimately show ?thesis
        using turn c False wb x sector sz1 bmid es ca nor1
        by (auto simp: erase_turn_def spi_reg_defs spi_nor_erase_sector_def Let_def fun_eq_iff)
    qed
  qed
qed

lemma erase_loop_ok:
  assumes "spi_mid nor" and "addr + len \<le> mtd_size nor"
    and "erasesize nor dvd addr" "erasesize nor dvd len"
    and "erase_loop nor addr len max_size = (r, nor')"
  shows "spi_mid nor' \<and> mtd_size nor' = mtd_size nor \<and> erasesize nor' = erasesize nor \<and>
    page_size nor' = page_size nor \<and>
    (\<forall>a. \<not> (addr \<le> a \<and> a < addr + len) \<longrightarrow> array nor' a = array nor a) \<and>
    (r = 0 \<longrightarrow> (\<forall>a. addr \<le> a \<and> a < addr + len \<longrightarrow> array nor' a = 0xff))"
  using assms
proof (induction nor addr len max_size arbitrary: r nor' rule: erase_loop.induct)
  case (1 nor addr len max_size)
  show ?case
  proof (cases "len = 0")
    case True
    with 1 show ?thesis by (auto simp: erase_loop.simps)
  next
    case False
    obtain r1 n nor1 where t: "erase_turn nor addr len max_size = (r1, n, nor1)"
      by (metis prod_cases3)
    note T = erase_turn_ok [OF "1.prems"(1) _ "1.prems"(2-4) t]
    show ?thesis
    proof (cases "r1 \<noteq> 0 \<or> n = 0")
      case True
      with "1.prems"(5) t False have "r = r1" "nor' = nor1"
        by (simp_all add: erase_loop.simps [of nor addr len])
      with T False True show ?thesis by auto
    next
      case go: False
      with T False have T': "spi_mid nor1" "mtd_size nor1 = mtd_size nor" "erasesize nor1 = erasesize nor"
          "page_size nor1 = page_size nor" "n \<le> len" "erasesize nor dvd n"
          "array nor1 = (\<lambda>a. if addr \<le> a \<and> a < addr + n then 0xff else array nor a)"
        by auto
      have rec: "erase_loop nor1 (addr + n) (len - n) max_size = (r, nor')"
        using "1.prems"(5) t False go by (simp add: erase_loop.simps [of nor addr len])
      have "spi_mid nor' \<and> mtd_size nor' = mtd_size nor1 \<and> erasesize nor' = erasesize nor1 \<and>
        page_size nor' = page_size nor1 \<and>
        (\<forall>a. \<not> (addr + n \<le> a \<and> a < addr + n + (len - n)) \<longrightarrow> array nor' a = array nor1 a) \<and>
        (r = 0 \<longrightarrow> (\<forall>a. addr + n \<le> a \<and> a < addr + n + (len - n) \<longrightarrow> array nor' a = 0xff))"
        using "1.IH" [OF False t [symmetric] refl] "1.prems" T' go rec
        by (simp add: dvd_diff_nat)
      with T' show ?thesis by (auto simp: not_le) (metis not_le)
    qed
  qed
qed

lemma spi_nor_erase_ok:
  assumes "spi_ok nor" and "addr + len \<le> mtd_size nor"
    and "erasesize nor dvd addr" "erasesize nor dvd len"
    and "spi_nor_erase nor addr len = (r, nor')"
  shows "spi_ok nor' \<and> mtd_size nor' = mtd_size nor \<and> erasesize nor' = erasesize nor \<and>
    (\<forall>a. \<not> (addr \<le> a \<and> a < addr + len) \<longrightarrow> array nor' a = array nor a) \<and>
    (r = 0 \<longrightarrow> (\<forall>a. addr \<le> a \<and> a < addr + len \<longrightarrow> array nor' a = 0xff))"
proof -
  obtain r1 nor1 where l: "erase_loop nor addr len len = (r1, nor1)" by fastforce
  note L = erase_loop_ok [OF _ assms(2-4) l]
  from assms(1) have "spi_mid nor" by (simp add: spi_ok_def)
  with L have L': "spi_mid nor1" "mtd_size nor1 = mtd_size nor" "erasesize nor1 = erasesize nor"
      "\<forall>a. \<not> (addr \<le> a \<and> a < addr + len) \<longrightarrow> array nor1 a = array nor a"
      "r1 = 0 \<longrightarrow> (\<forall>a. addr \<le> a \<and> a < addr + len \<longrightarrow> array nor1 a = 0xff)"
    by simp_all
  let ?b = "set_bank nor1 0"
  have "spi_mid ?b" using set_bank_mid [of nor1 0] L'(1) by simp
  moreover have "len mod erasesize nor = 0" using assms(4) by simp
  ultimately have "r = r1 \<and> nor' = ?b\<lparr>wel := False\<rparr>"
    using assms(5) l clean_bar_ok [OF L'(1)]
    by (auto simp: spi_nor_erase_def write_disable_def spi_mid_def)
  with L' \<open>spi_mid ?b\<close> show ?thesis by (simp add: spi_ok_def)
qed

subsection \<open>Read\<close>

lemma read_data_bank:
  assumes "spi_mid nor" and "from + n \<le> mtd_size nor" and "0 < n"
    and "n \<le> SZ_16M * (from div SZ_16M + 1) - from"
  shows "spi_nor_read_data (set_bank nor (from div SZ_16M)) from n =
    (int n, mem_bytes (array nor) from n, set_bank nor (from div SZ_16M))"
proof -
  have "chip_addr (set_bank nor (from div SZ_16M)) (from + i) = from + i" if "i < n" for i
  proof (rule chip_addr_bank [OF assms(1)])
    show "from < mtd_size nor" using assms by simp
    have "from + i < SZ_16M * (from div SZ_16M + 1)" using that assms(3,4) by linarith
    then show "(from + i) div SZ_16M = from div SZ_16M" by simp
  qed
  then have "map (\<lambda>i. array nor (chip_addr (set_bank nor (from div SZ_16M)) (from + i))) [0..<n] =
      mem_bytes (array nor) from n"
    by (intro nth_equalityI) simp_all
  moreover have "xfer nor = []" using assms(1) by (simp add: spi_mid_def)
  ultimately show ?thesis by (simp add: spi_nor_read_data_def)
qed

lemma read_loop_ok:
  assumes "spi_mid nor" and "from + len \<le> mtd_size nor"
  shows "\<exists>nor'. read_loop nor from len buf = (None, buf @ mem_bytes (array nor) from len, nor') \<and>
    spi_mid nor' \<and> array nor' = array nor \<and> mtd_size nor' = mtd_size nor \<and> erasesize nor' = erasesize nor"
  using assms
proof (induction len arbitrary: nor "from" buf rule: less_induct)
  case (less len)
  show ?case
  proof (cases "len = 0")
    case True
    with less.prems show ?thesis by (simp add: read_loop.simps)
  next
    case False
    define rl where "rl = SZ_16M * (from div SZ_16M + 1) - from"
    define n where "n = (if len < rl then len else rl)"
    let ?b = "set_bank nor (from div SZ_16M)"
    have fr: "from < mtd_size nor" using less.prems False by simp
    have wb: "write_bar nor from = (0, ?b)" by (rule write_bar_ok [OF less.prems(1) fr])
    have "0 < rl" unfolding rl_def by (simp add: less_mult_imp_div_less)
    then have n: "0 < n" "n \<le> len" "n \<le> rl" using False by (auto simp: n_def)
    have rd: "spi_nor_read_data ?b from n = (int n, mem_bytes (array nor) from n, ?b)"
      using read_data_bank [OF less.prems(1), of "from" n] n less.prems(2) by (simp add: rl_def)
    have step: "read_loop nor from len buf = read_loop ?b (from + n) (len - n) (buf @ mem_bytes (array nor) from n)"
    proof -
      have eq: "(if len < SZ_16M * (from div SZ_16M + 1) - from then len
          else SZ_16M * (from div SZ_16M + 1) - from) = n"
        by (simp only: n_def rl_def)
      have F: "(len = 0) = False" "(n = 0) = False" "(int n \<le> 0) = False" using False n by auto
      show ?thesis
        by (subst read_loop.simps)
          (simp only: Let_def wb rd eq F fst_conv snd_conv if_False less_irrefl)
    qed
    have IH: "\<exists>nor'. read_loop ?b (from + n) (len - n) (buf @ mem_bytes (array nor) from n) =
        (None, (buf @ mem_bytes (array nor) from n) @ mem_bytes (array ?b) (from + n) (len - n), nor') \<and>
      spi_mid nor' \<and> array nor' = array ?b \<and> mtd_size nor' = mtd_size ?b \<and> erasesize nor' = erasesize ?b"
      using n bank_mid [OF less.prems(1) fr] less.prems(2) by (intro less.IH) auto
    have "mem_bytes (array nor) from len = mem_bytes (array nor) from n @ mem_bytes (array nor) (from + n) (len - n)"
      using mem_bytes_add [of "array nor" "from" n "len - n"] n by simp
    with step IH show ?thesis by simp
  qed
qed

lemma spi_nor_read_ok:
  assumes "spi_ok nor" and "from + len \<le> mtd_size nor"
  shows "\<exists>nor'. spi_nor_read nor from len = (0, mem_bytes (array nor) from len, nor') \<and>
    spi_ok nor' \<and> array nor' = array nor \<and> mtd_size nor' = mtd_size nor \<and> erasesize nor' = erasesize nor"
proof -
  have "spi_mid nor" using assms(1) by (simp add: spi_ok_def)
  from read_loop_ok [OF this assms(2), of "[]"] obtain nor1 where
    l: "read_loop nor from len [] = (None, mem_bytes (array nor) from len, nor1)"
       "spi_mid nor1" "array nor1 = array nor" "mtd_size nor1 = mtd_size nor" "erasesize nor1 = erasesize nor"
    by auto
  with clean_bar_ok [OF l(2)] set_bank_mid [OF l(2), of 0] show ?thesis
    by (simp add: spi_nor_read_def spi_ok_def)
qed

subsection \<open>Write\<close>

text \<open>A program that stays inside its page clears exactly the bits that are 0 in the data.\<close>

lemma fold_and_cells:
  assumes "inj_on cell {..<n}" and "n \<le> length data"
  shows "fold (\<lambda>i m. m(cell i := m (cell i) AND data ! i)) [0..<n] m =
    (\<lambda>a. if \<exists>i < n. a = cell i then m a AND data ! (THE i. i < n \<and> a = cell i) else (m a :: byte))"
  using assms
proof (induction n)
  case 0
  then show ?case by simp
next
  case (Suc n)
  have inj: "inj_on cell {..<n}" using Suc.prems(1) by (rule inj_on_subset) auto
  have the: "(THE i. i < Suc n \<and> cell k = cell i) = k" "k < n \<Longrightarrow> (THE i. i < n \<and> cell k = cell i) = k"
    if "k < Suc n" for k
    using Suc.prems(1) inj that by (auto intro!: the_equality simp: inj_on_def)
  have new: "cell n \<noteq> cell i" if "i < n" for i
    using inj_onD [OF Suc.prems(1), of n i] that by auto
  define F where "F = (\<lambda>i m. m(cell i := m (cell i) AND data ! i))"
  have IH: "fold F [0..<n] m a = (if \<exists>i < n. a = cell i
      then m a AND data ! (THE i. i < n \<and> a = cell i) else m a)" for a
    using fun_cong [OF Suc.IH [OF inj Suc_leD [OF Suc.prems(2)]]] unfolding F_def .
  have step: "fold F [0..<Suc n] m = (fold F [0..<n] m)(cell n := fold F [0..<n] m (cell n) AND data ! n)"
    by (simp add: F_def)
  have "fold F [0..<Suc n] m a = (if \<exists>i < Suc n. a = cell i
      then m a AND data ! (THE i. i < Suc n \<and> a = cell i) else m a)" for a
  proof (cases "a = cell n")
    case True
    then show ?thesis unfolding step using new the(1) [of n] by (auto simp: IH)
  next
    case False
    then show ?thesis unfolding step using the by (auto simp: IH less_Suc_eq)
  qed
  then show ?case unfolding F_def by (rule ext)
qed

lemma page_program_cells:
  assumes "0 < page_size nor"
    and "chip_addr nor to mod page_size nor + length data \<le> page_size nor"
  shows "array (page_program nor to data) =
    (\<lambda>a. if chip_addr nor to \<le> a \<and> a < chip_addr nor to + length data
         then array nor a AND data ! (a - chip_addr nor to) else array nor a)"
proof -
  let ?c = "chip_addr nor to" and ?p = "page_size nor"
  have cell: "?c - ?c mod ?p + (?c + i) mod ?p = ?c + i" if "i < length data" for i
  proof -
    have "(?c + i) mod ?p = (?c mod ?p + i) mod ?p" by (simp add: mod_add_left_eq)
    also have "\<dots> = ?c mod ?p + i" using that assms by simp
    finally show ?thesis using mod_less_eq_dividend [of ?c ?p] by linarith
  qed
  have "fold (\<lambda>i m. m(?c - ?c mod ?p + (?c + i) mod ?p := m (?c - ?c mod ?p + (?c + i) mod ?p) AND data ! i))
          [0..<length data] (array nor) =
        fold (\<lambda>i m. m(?c + i := m (?c + i) AND data ! i)) [0..<length data] (array nor)"
  proof (rule fold_cong)
    fix i assume "i \<in> set [0..<length data]"
    then have "i < length data" by simp
    then show "(\<lambda>m. m(?c - ?c mod ?p + (?c + i) mod ?p := m (?c - ?c mod ?p + (?c + i) mod ?p) AND data ! i)) =
        (\<lambda>m. m(?c + i := m (?c + i) AND data ! i))"
      by (simp only: cell)
  qed simp_all
  also have "\<dots> = (\<lambda>a. if \<exists>i < length data. a = ?c + i
      then array nor a AND data ! (THE i. i < length data \<and> a = ?c + i) else array nor a)"
    by (rule fold_and_cells) simp_all
  also have "\<dots> = (\<lambda>a. if ?c \<le> a \<and> a < ?c + length data
         then array nor a AND data ! (a - ?c) else array nor a)"
  proof (rule ext)
    fix a
    show "(if \<exists>i < length data. a = ?c + i
        then array nor a AND data ! (THE i. i < length data \<and> a = ?c + i) else array nor a) =
      (if ?c \<le> a \<and> a < ?c + length data then array nor a AND data ! (a - ?c) else array nor a)"
    proof (cases "?c \<le> a \<and> a < ?c + length data")
      case True
      then have "(THE i. i < length data \<and> a = ?c + i) = a - ?c" by (intro the_equality) auto
      moreover have "\<exists>i < length data. a = ?c + i" using True by (intro exI [of _ "a - ?c"]) auto
      ultimately show ?thesis using True by simp
    qed auto
  qed
  finally show ?thesis by (simp add: page_program_def Let_def)
qed

lemma write_page_ok:
  assumes mid: "spi_mid nor" and "addr + length data \<le> mtd_size nor" and "data \<noteq> []"
    and "addr mod page_size nor + length data \<le> page_size nor"
  shows "\<exists>nor'. spi_nor_write_data (snd (write_enable (set_bank nor (addr div SZ_16M)))) addr data =
      (int (length data), nor') \<and> spi_mid nor' \<and> mtd_size nor' = mtd_size nor \<and>
      erasesize nor' = erasesize nor \<and> page_size nor' = page_size nor \<and>
      array nor' = (\<lambda>a. if addr \<le> a \<and> a < addr + length data
         then array nor a AND data ! (a - addr) else array nor a)"
proof -
  let ?b = "(set_bank nor (addr div SZ_16M))\<lparr>wel := True\<rparr>"
  have addr: "addr < mtd_size nor" using assms(2,3) by (cases data) auto
  have x: "xfer nor = []" and ps: "0 < page_size nor"
    using mid by (simp_all add: spi_mid_def spi_geometry_def)
  have ca: "chip_addr ?b addr = addr"
    using chip_addr_bank [OF mid addr refl] by (simp add: chip_addr_def)
  have en: "write_enable (set_bank nor (addr div SZ_16M)) = (0, ?b)"
    using x by (simp add: write_enable_def)
  have arr: "array (page_program ?b addr data) =
      (\<lambda>a. if addr \<le> a \<and> a < addr + length data then array nor a AND data ! (a - addr) else array nor a)"
  proof -
    have 1: "page_size ?b = page_size nor" "array ?b = array nor" by simp_all
    have "0 < page_size ?b" "chip_addr ?b addr mod page_size ?b + length data \<le> page_size ?b"
      unfolding ca 1 using ps assms(4) by simp_all
    from page_program_cells [OF this] show ?thesis unfolding ca 1 .
  qed
  have "spi_mid (page_program ?b addr data)"
    using bank_mid [OF mid addr] by (simp add: page_program_def Let_def)
  then show ?thesis using en x arr
    by (simp add: spi_nor_write_data_def) (simp add: page_program_def Let_def)
qed

lemma write_loop_ok:
  assumes "spi_mid nor" and "to + length buf \<le> mtd_size nor" and "i \<le> length buf"
  shows "\<exists>nor'. write_loop nor to buf i = (None, nor') \<and> spi_mid nor' \<and>
    mtd_size nor' = mtd_size nor \<and> erasesize nor' = erasesize nor \<and>
    array nor' = (\<lambda>a. if to + i \<le> a \<and> a < to + length buf
       then array nor a AND buf ! (a - to) else array nor a)"
  using assms
proof (induction "length buf - i" arbitrary: nor i rule: less_induct)
  case less
  show ?case
  proof (cases "length buf \<le> i")
    case True
    with less.prems show ?thesis by (auto simp: write_loop.simps fun_eq_iff)
  next
    case False
    let ?a = "to + i" and ?p = "page_size nor"
    let ?b = "set_bank nor (?a div SZ_16M)"
    define n where "n = min (?p - ?a mod ?p) (length buf - i)"
    define d where "d = take n (drop i buf)"
    have ps: "0 < ?p" using less.prems(1) by (simp add: spi_mid_def spi_geometry_def)
    have n: "0 < n" "n \<le> length buf - i" "?a mod ?p + n \<le> ?p"
      using False mod_less_divisor [OF ps, of ?a] by (auto simp: n_def)
    have d: "length d = n" "d \<noteq> []" "\<And>k. k < n \<Longrightarrow> d ! k = buf ! (i + k)"
      using n False by (auto simp: d_def)
    have wb: "write_bar nor ?a = (0, ?b)"
      using less.prems False by (intro write_bar_ok) auto
    have "?a + length d \<le> mtd_size nor" "?a mod ?p + length d \<le> ?p"
      using less.prems(2,3) n d(1) by simp_all
    from write_page_ok [OF less.prems(1) this(1) d(2) this(2)] obtain nor1 where w:
        "spi_nor_write_data (snd (write_enable ?b)) ?a d = (int (length d), nor1)"
        "spi_mid nor1" "mtd_size nor1 = mtd_size nor" "erasesize nor1 = erasesize nor"
        "array nor1 = (\<lambda>a. if ?a \<le> a \<and> a < ?a + length d then array nor a AND d ! (a - ?a) else array nor a)"
      by blast
    have rdy: "spi_nor_wait_till_ready nor1 = (0, nor1)"
      using w(2) by (simp add: spi_nor_wait_till_ready_def spi_mid_def)
    have step: "write_loop nor to buf i = write_loop nor1 to buf (i + n)"
    proof -
      have F: "(length buf \<le> i \<or> ?p = 0) = False" "(int (length d) < 0) = False" using False ps by auto
      show ?thesis
        by (subst write_loop.simps)
          (simp only: Let_def wb F fst_conv snd_conv if_False less_irrefl n_def [symmetric]
            d_def [symmetric] w(1) rdy simp_thms)
    qed
    have "\<exists>nor'. write_loop nor1 to buf (i + n) = (None, nor') \<and> spi_mid nor' \<and>
        mtd_size nor' = mtd_size nor1 \<and> erasesize nor' = erasesize nor1 \<and>
        array nor' = (\<lambda>a. if to + (i + n) \<le> a \<and> a < to + length buf
           then array nor1 a AND buf ! (a - to) else array nor1 a)"
      using less.prems n w by (intro less.hyps) auto
    then obtain nor' where r: "write_loop nor1 to buf (i + n) = (None, nor')" "spi_mid nor'"
        "mtd_size nor' = mtd_size nor" "erasesize nor' = erasesize nor"
        "array nor' = (\<lambda>a. if to + (i + n) \<le> a \<and> a < to + length buf
           then array nor1 a AND buf ! (a - to) else array nor1 a)"
      using w by auto
    have "array nor' a = (if ?a \<le> a \<and> a < to + length buf
           then array nor a AND buf ! (a - to) else array nor a)" for a
    proof -
      have "d ! (a - ?a) = buf ! (a - to)" if "?a \<le> a" "a < ?a + n"
        using d(3) [of "a - ?a"] that by simp
      then show ?thesis unfolding r(5) w(5) using n False by (auto simp: d(1))
    qed
    with step r show ?thesis by auto
  qed
qed

lemma spi_nor_write_ok:
  assumes "spi_ok nor" and "to + length buf \<le> mtd_size nor"
  shows "\<exists>nor'. spi_nor_write nor to buf = (0, nor') \<and> spi_ok nor' \<and>
    mtd_size nor' = mtd_size nor \<and> erasesize nor' = erasesize nor \<and>
    array nor' = (\<lambda>a. if to \<le> a \<and> a < to + length buf
       then array nor a AND buf ! (a - to) else array nor a)"
proof (cases "buf = []")
  case True
  with assms show ?thesis by (auto simp: spi_nor_write_def fun_eq_iff)
next
  case False
  have "spi_mid nor" using assms(1) by (simp add: spi_ok_def)
  from write_loop_ok [OF this assms(2), of 0] obtain nor1 where
    l: "write_loop nor to buf 0 = (None, nor1)" "spi_mid nor1" "mtd_size nor1 = mtd_size nor"
       "erasesize nor1 = erasesize nor"
       "array nor1 = (\<lambda>a. if to \<le> a \<and> a < to + length buf
          then array nor a AND buf ! (a - to) else array nor a)"
    by auto
  with clean_bar_ok [OF l(2)] set_bank_mid [OF l(2), of 0] False show ?thesis
    by (simp add: spi_nor_write_def spi_ok_def)
qed

section \<open>The interpretation\<close>

lemma std_erase_ok:
  assumes "spi_ok nor" and "unat off + unat len \<le> mtd_size nor"
    and "spi_flash_std_erase nor off len = (r, nor')"
  shows "spi_ok nor' \<and> mtd_size nor' = mtd_size nor \<and> erasesize nor' = erasesize nor \<and>
    (\<forall>a. \<not> (unat off \<le> a \<and> a < unat off + unat len) \<longrightarrow> array nor' a = array nor a) \<and>
    (r = 0 \<longrightarrow> (\<forall>a. unat off \<le> a \<and> a < unat off + unat len \<longrightarrow> array nor' a = 0xff))"
proof (cases "erasesize nor = 0 \<or> unat off mod erasesize nor \<noteq> 0 \<or> unat len mod erasesize nor \<noteq> 0")
  case True
  with assms show ?thesis by (auto simp: spi_flash_std_erase_def)
next
  case False
  with assms(3) have "spi_nor_erase nor (unat off) (unat len) = (r, nor')"
    by (simp add: spi_flash_std_erase_def)
  with False assms(1,2) show ?thesis by (intro spi_nor_erase_ok) auto
qed

interpretation std: nor_flash spi_flash_std_ops array spi_ok mtd_size erasesize
proof
  fix c :: spi_nor and off len :: u32
  assume "spi_ok c" and "unat off + unat len \<le> mtd_size c"
  from spi_nor_read_ok [OF this]
  show "\<exists>c'. sf_read spi_flash_std_ops c off len = (0, mem_bytes (array c) (unat off) (unat len), c') \<and>
      array c' = array c \<and> spi_ok c' \<and> mtd_size c' = mtd_size c \<and> erasesize c' = erasesize c"
    by (auto simp: spi_flash_std_ops_def spi_flash_std_read_def)
next
  fix c :: spi_nor and off :: u32 and buf :: "byte list"
  assume "spi_ok c" and "unat off + length buf \<le> mtd_size c"
  from spi_nor_write_ok [OF this]
  show "\<exists>c'. sf_write spi_flash_std_ops c off buf = (0, c') \<and>
      array c' = (\<lambda>a. if unat off \<le> a \<and> a < unat off + length buf
         then array c a AND buf ! (a - unat off) else array c a) \<and>
      spi_ok c' \<and> mtd_size c' = mtd_size c \<and> erasesize c' = erasesize c"
    by (auto simp: spi_flash_std_ops_def spi_flash_std_write_def)
next
  fix c c' :: spi_nor and off len :: u32 and r :: int
  assume "spi_ok c" and "unat off + unat len \<le> mtd_size c"
    and "sf_erase spi_flash_std_ops c off len = (r, c')"
  then show "spi_ok c' \<and> mtd_size c' = mtd_size c \<and> erasesize c' = erasesize c \<and>
      (\<forall>a. \<not> (unat off \<le> a \<and> a < unat off + unat len) \<longrightarrow> array c' a = array c a) \<and>
      (r = 0 \<longrightarrow> (\<forall>a. unat off \<le> a \<and> a < unat off + unat len \<longrightarrow> array c' a = 0xff))"
    by (intro std_erase_ok) (simp_all add: spi_flash_std_ops_def)
qed

end
