(* ===== verification/Lmb.thy ===== *)
theory Lmb
  imports Prelude
begin

text \<open>
  lib/lmb.c, the logical memory blocks: the lists of available and of reserved memory that
  \<open>lmb_read_check\<close> (include/lmb.h) consults, and changes, before the console stores an
  upload.  An \<open>alist\<close> (lib/alist.c) is its regions, its capacity, its failure flag and the
  outcomes of the coming \<open>malloc\<close> calls (an empty list: all succeed); \<open>count\<close> is the
  length of \<open>al_data\<close>, a natural number: the 16-bit counters of the source would wrap only
  beyond 65535 regions.  \<open>CONFIG_EFI_LOADER\<close> is off on this board, so
  \<open>lmb_map_update_notify\<close> returns 0 and tells nobody.
\<close>

section \<open>Regions and lists\<close>

record lmb_region =
  rbase :: u32
  rsize :: u32
  rflags :: u32

record alist =
  al_data :: "lmb_region list"
  al_alloc :: nat
  al_fail :: bool
  al_malloc :: "bool list"

record lmb =
  available_mem :: alist
  used_mem :: alist

abbreviation LMB_NONE :: u32 where "LMB_NONE \<equiv> 0"
abbreviation LMB_NOMAP :: u32 where "LMB_NOMAP \<equiv> 2"
abbreviation LMB_NOOVERWRITE :: u32 where "LMB_NOOVERWRITE \<equiv> 4"

definition alist_err :: "alist \<Rightarrow> bool" where
  "alist_err lst = al_fail lst"

definition alist_full :: "alist \<Rightarrow> bool" where
  "alist_full lst \<longleftrightarrow> length (al_data lst) = al_alloc lst"

definition alist_expand_by :: "alist \<Rightarrow> nat \<Rightarrow> bool \<times> alist" where
  "alist_expand_by lst inc_by =
     (if al_fail lst then (False, lst)
      else case al_malloc lst of
             False # ms \<Rightarrow> (False, lst\<lparr>al_fail := True, al_malloc := ms\<rparr>)
           | ms \<Rightarrow> (True, lst\<lparr>al_alloc := al_alloc lst + inc_by, al_malloc := tl ms\<rparr>))"

section \<open>Low level operations\<close>

definition lmb_addrs_overlap :: "u32 \<Rightarrow> u32 \<Rightarrow> u32 \<Rightarrow> u32 \<Rightarrow> bool" where
  "lmb_addrs_overlap base1 size1 base2 size2 \<longleftrightarrow>
     (let base1_end = base1 + size1 - 1; base2_end = base2 + size2 - 1
      in base1 \<le> base2_end \<and> base2 \<le> base1_end)"

definition lmb_addrs_adjacent :: "u32 \<Rightarrow> u32 \<Rightarrow> u32 \<Rightarrow> u32 \<Rightarrow> int" where
  "lmb_addrs_adjacent base1 size1 base2 size2 =
     (if base2 = base1 + size1 then 1 else if base1 = base2 + size2 then -1 else 0)"

definition LMB_RGN_OVERLAP :: int where "LMB_RGN_OVERLAP = 1"
definition LMB_RGN_ADJACENT :: int where "LMB_RGN_ADJACENT = 2"

definition lmb_regions_check :: "lmb_region list \<Rightarrow> nat \<Rightarrow> nat \<Rightarrow> int" where
  "lmb_regions_check rgn r1 r2 =
     (let a = rgn ! r1; b = rgn ! r2
      in if rflags a \<noteq> rflags b then 0
         else if lmb_addrs_overlap (rbase a) (rsize a) (rbase b) (rsize b) then LMB_RGN_OVERLAP
         else if lmb_addrs_adjacent (rbase a) (rsize a) (rbase b) (rsize b) \<noteq> 0 then LMB_RGN_ADJACENT
         else 0)"

definition lmb_remove_region :: "lmb_region list \<Rightarrow> nat \<Rightarrow> lmb_region list" where
  "lmb_remove_region rgn r = take r rgn @ drop (Suc r) rgn"

definition lmb_coalesce_regions :: "lmb_region list \<Rightarrow> nat \<Rightarrow> nat \<Rightarrow> lmb_region list" where
  "lmb_coalesce_regions rgn r1 r2 =
     lmb_remove_region (rgn[r1 := (rgn ! r1)\<lparr>rsize := rsize (rgn ! r1) + rsize (rgn ! r2)\<rparr>]) r2"

text \<open>
  The counting loop of \<open>lmb_resize_regions\<close> over the regions from \<open>idx\<close> on: how many the
  request overlaps and the last of them; \<open>None\<close> is the \<open>return -1\<close> on a region that is
  not \<open>LMB_NONE\<close>.
\<close>

fun resize_count :: "u32 \<Rightarrow> u32 \<Rightarrow> lmb_region list \<Rightarrow> nat \<Rightarrow> nat \<Rightarrow> nat \<Rightarrow> (nat \<times> nat) option" where
  "resize_count base sz [] idx rgn_cnt idx_end = Some (rgn_cnt, idx_end)"
| "resize_count base sz (r # rs) idx rgn_cnt idx_end =
     (if lmb_addrs_overlap base sz (rbase r) (rsize r)
      then if rflags r \<noteq> LMB_NONE then None
           else resize_count base sz rs (Suc idx) (Suc rgn_cnt) idx
      else resize_count base sz rs (Suc idx) rgn_cnt idx_end)"

text \<open>
  The callers pass a request that overlaps the region at \<open>idx_start\<close>, so \<open>rgn_cnt\<close> is
  at least 1 when the removal loop \<open>while (--rgn_cnt)\<close> starts.
\<close>

definition lmb_resize_regions :: "lmb_region list \<Rightarrow> nat \<Rightarrow> u32 \<Rightarrow> u32 \<Rightarrow> lmb_region list option" where
  "lmb_resize_regions rgn idx_start base sz =
     (case resize_count base sz (drop idx_start rgn) idx_start 0 idx_start of
        None \<Rightarrow> None
      | Some (rgn_cnt, idx_end) \<Rightarrow>
          let mergebase = min base (rbase (rgn ! idx_start));
              rgnend = rbase (rgn ! idx_end) + rsize (rgn ! idx_end);
              mergeend = max rgnend (base + sz);
              rgn = rgn[idx_start := (rgn ! idx_start)\<lparr>rbase := mergebase, rsize := mergeend - mergebase\<rparr>]
          in Some (((\<lambda>rgn. lmb_remove_region rgn (Suc idx_start)) ^^ (rgn_cnt - 1)) rgn))"

text \<open>
  The first loop of \<open>lmb_add_region_flags\<close>: the regions, the index it stopped at and
  \<open>coalesced\<close>.
\<close>

function add_scan :: "lmb_region list \<Rightarrow> u32 \<Rightarrow> u32 \<Rightarrow> u32 \<Rightarrow> nat \<Rightarrow> (lmb_region list \<times> nat \<times> nat) option" where
  "add_scan rgn base sz flags i =
     (if length rgn \<le> i then Some (rgn, i, 0)
      else let r = rgn ! i; ret = lmb_addrs_adjacent base sz (rbase r) (rsize r)
           in if ret > 0 then
                (if flags \<noteq> rflags r then Some (rgn, i, 0)
                 else Some (rgn[i := r\<lparr>rbase := rbase r - sz, rsize := rsize r + sz\<rparr>], i, 1))
              else if ret < 0 then
                (if flags \<noteq> rflags r then add_scan rgn base sz flags (Suc i)
                 else Some (rgn[i := r\<lparr>rsize := rsize r + sz\<rparr>], i, 1))
              else if lmb_addrs_overlap base sz (rbase r) (rsize r) then
                (case lmb_resize_regions rgn i base sz of
                   None \<Rightarrow> None
                 | Some rgn \<Rightarrow> Some (rgn, i, 1))
              else add_scan rgn base sz flags (Suc i))"
  by pat_completeness auto
termination
  by (relation "measure (\<lambda>(rgn, base, sz, flags, i). length rgn - i)") auto

declare add_scan.simps [simp del]

text \<open>The fix-up of the region the scan stopped at with its successor.\<close>

definition add_fixup :: "lmb_region list \<Rightarrow> nat \<Rightarrow> nat \<Rightarrow> (lmb_region list \<times> nat) option" where
  "add_fixup rgn i coalesced =
     (if rgn \<noteq> [] \<and> i < length rgn - 1
      then let ret = lmb_regions_check rgn i (i + 1)
           in if ret = LMB_RGN_ADJACENT then Some (lmb_coalesce_regions rgn i (i + 1), Suc coalesced)
              else if ret = LMB_RGN_OVERLAP then
                (case lmb_resize_regions rgn i (rbase (rgn ! i)) (rsize (rgn ! i)) of
                   None \<Rightarrow> None
                 | Some rgn \<Rightarrow> Some (rgn, Suc coalesced))
              else Some (rgn, coalesced)
      else Some (rgn, coalesced))"

text \<open>The insertion loop, from the end of the sorted table down.\<close>

fun insert_region :: "lmb_region list \<Rightarrow> lmb_region \<Rightarrow> nat \<Rightarrow> lmb_region list" where
  "insert_region rgn r 0 = r # rgn"
| "insert_region rgn r (Suc i) =
     (if rbase r < rbase (rgn ! i) then insert_region rgn r i
      else take (Suc i) rgn @ r # drop (Suc i) rgn)"

definition lmb_add_region_flags :: "alist \<Rightarrow> u32 \<Rightarrow> u32 \<Rightarrow> u32 \<Rightarrow> int \<times> alist" where
  "lmb_add_region_flags lst base sz flags =
     (if alist_err lst then (-1, lst)
      else case add_scan (al_data lst) base sz flags 0 of
        None \<Rightarrow> (-1, lst)
      | Some (rgn, i, coalesced) \<Rightarrow>
          (case add_fixup rgn i coalesced of
             None \<Rightarrow> (-1, lst\<lparr>al_data := rgn\<rparr>)
           | Some (rgn, coalesced) \<Rightarrow>
               let lst = lst\<lparr>al_data := rgn\<rparr>
               in if coalesced \<noteq> 0 then (0, lst)
                  else let (grown, lst) =
                         (if alist_full lst then alist_expand_by lst (al_alloc lst) else (True, lst))
                       in if \<not> grown then (-1, lst)
                          else (0, lst\<lparr>al_data := insert_region rgn
                                   \<lparr>rbase = base, rsize = sz, rflags = flags\<rparr> (length rgn)\<rparr>)))"

text \<open>The first region that holds all of \<open>[base, end]\<close>.\<close>

fun free_find :: "lmb_region list \<Rightarrow> u32 \<Rightarrow> u32 \<Rightarrow> nat \<Rightarrow> nat option" where
  "free_find [] base fin i = None"
| "free_find (r # rs) base fin i =
     (if rbase r \<le> base \<and> fin \<le> rbase r + rsize r - 1 then Some i
      else free_find rs base fin (Suc i))"

definition lmb_free_rgn :: "alist \<Rightarrow> u32 \<Rightarrow> u32 \<Rightarrow> int \<times> alist" where
  "lmb_free_rgn lst base sz =
     (let fin = base + sz - 1; rgn = al_data lst
      in case free_find rgn base fin 0 of
           None \<Rightarrow> (-1, lst)
         | Some i \<Rightarrow>
             let r = rgn ! i; rgnbegin = rbase r; rgnend = rbase r + rsize r - 1
             in if rgnbegin = base \<and> rgnend = fin then (0, lst\<lparr>al_data := lmb_remove_region rgn i\<rparr>)
                else if rgnbegin = base then
                  (0, lst\<lparr>al_data := rgn[i := r\<lparr>rbase := fin + 1, rsize := rsize r - sz\<rparr>]\<rparr>)
                else if rgnend = fin then
                  (0, lst\<lparr>al_data := rgn[i := r\<lparr>rsize := rsize r - sz\<rparr>]\<rparr>)
                else lmb_add_region_flags
                       (lst\<lparr>al_data := rgn[i := r\<lparr>rsize := base - rbase r\<rparr>]\<rparr>)
                       (fin + 1) (rgnend - fin) (rflags r))"

fun overlap_find :: "lmb_region list \<Rightarrow> u32 \<Rightarrow> u32 \<Rightarrow> u32 \<Rightarrow> bool \<Rightarrow> nat \<Rightarrow> nat option" where
  "overlap_find [] base sz flags alloc i = None"
| "overlap_find (r # rs) base sz flags alloc i =
     (if lmb_addrs_overlap base sz (rbase r) (rsize r) \<and>
         (alloc \<or> flags \<noteq> LMB_NONE \<or> flags \<noteq> rflags r)
      then Some i else overlap_find rs base sz flags alloc (Suc i))"

text \<open>\<open>None\<close> is the result -1.\<close>

definition lmb_overlap_checks :: "alist \<Rightarrow> u32 \<Rightarrow> u32 \<Rightarrow> u32 \<Rightarrow> bool \<Rightarrow> nat option" where
  "lmb_overlap_checks lst base sz flags alloc = overlap_find (al_data lst) base sz flags alloc 0"

section \<open>The global memory map\<close>

definition lmb_map_update_notify :: "u32 \<Rightarrow> u32 \<Rightarrow> u32 \<Rightarrow> int" where
  "lmb_map_update_notify addr sz flags = 0"

definition lmb_reserve :: "lmb \<Rightarrow> u32 \<Rightarrow> u32 \<Rightarrow> u32 \<Rightarrow> int \<times> lmb" where
  "lmb_reserve m base sz flags =
     (case lmb_overlap_checks (used_mem m) base sz flags False of
        Some _ \<Rightarrow> (- EEXIST, m)
      | None \<Rightarrow>
          let (ret, lst) = lmb_add_region_flags (used_mem m) base sz flags; m = m\<lparr>used_mem := lst\<rparr>
          in if ret \<noteq> 0 then (ret, m) else (lmb_map_update_notify base sz flags, m))"

definition lmb_add :: "lmb \<Rightarrow> u32 \<Rightarrow> u32 \<Rightarrow> int \<times> lmb" where
  "lmb_add m base sz =
     (let (ret, lst) = lmb_add_region_flags (available_mem m) base sz LMB_NONE;
          m = m\<lparr>available_mem := lst\<rparr>
      in if ret \<noteq> 0 then (ret, m) else (lmb_map_update_notify base sz LMB_NONE, m))"

definition lmb_free :: "lmb \<Rightarrow> u32 \<Rightarrow> u32 \<Rightarrow> u32 \<Rightarrow> int \<times> lmb" where
  "lmb_free m base sz flags =
     (let (ret, lst) = lmb_free_rgn (used_mem m) base sz; m = m\<lparr>used_mem := lst\<rparr>
      in if ret < 0 then (ret, m) else (lmb_map_update_notify base sz flags, m))"

definition lmb_alloc_addr :: "lmb \<Rightarrow> u32 \<Rightarrow> u32 \<Rightarrow> u32 \<Rightarrow> int \<times> lmb" where
  "lmb_alloc_addr m base sz flags =
     (case lmb_overlap_checks (available_mem m) base sz LMB_NOOVERWRITE True of
        Some rgn \<Rightarrow>
          let r = al_data (available_mem m) ! rgn
          in if lmb_addrs_overlap (rbase r) (rsize r) (base + sz - 1) 1
             then lmb_reserve m base sz flags else (- EINVAL, m)
      | None \<Rightarrow> (- EINVAL, m))"

text \<open>\<open>lmb_alloc_mem\<close> for \<open>LMB_MEM_ALLOC_ADDR\<close>, the request of \<open>lmb_read_check\<close>.\<close>

definition lmb_alloc_mem_addr :: "lmb \<Rightarrow> u32 \<Rightarrow> u32 \<Rightarrow> u32 \<Rightarrow> int \<times> lmb" where
  "lmb_alloc_mem_addr m addr sz flags =
     (if sz = 0 then (0, m) else lmb_alloc_addr m addr sz flags)"

definition lmb_read_check :: "lmb \<Rightarrow> u32 \<Rightarrow> u32 \<Rightarrow> int \<times> lmb" where
  "lmb_read_check m addr len = lmb_alloc_mem_addr m addr len LMB_NONE"

definition lmb_is_reserved_flags :: "lmb \<Rightarrow> u32 \<Rightarrow> u32 \<Rightarrow> bool" where
  "lmb_is_reserved_flags m addr flags =
     (case find (\<lambda>r. rbase r \<le> addr \<and> addr \<le> rbase r + rsize r - 1) (al_data (used_mem m)) of
        Some r \<Rightarrow> rflags r AND flags = flags
      | None \<Rightarrow> False)"

end
