(* ===== verification/WebflashState.thy ===== *)
theory WebflashState
  imports CString Crc32 SpiNor Lmb
begin

text \<open>
  The data of the recovery console, cmd/lwip/webflash.c lines 35 to 312: its constants (with
  the values of build/.config), its enumerations, the partition table, the job and the
  context, and the predicates on them.

  The context is one record with the fields of \<open>struct webflash_ctx\<close> in their order, and
  after them the machine the handlers act on: RAM, the clock, the memory map and the rest of
  the world, a type parameter.  The SPI flash is the other type parameter.  What the console
  calls outside itself (the flash operations, lwIP, the environment, the generated start
  page) is the record \<open>platform\<close>.  A header or body buffer is the characters stored so far,
  its \<open>_len\<close> field their number.
\<close>

section \<open>Constants\<close>

abbreviation WEBFLASH_HEADER_SIZE :: nat where "WEBFLASH_HEADER_SIZE \<equiv> 1536"
abbreviation WEBFLASH_REPLY_SIZE :: nat where "WEBFLASH_REPLY_SIZE \<equiv> 1536"
abbreviation WEBFLASH_BODY_SIZE :: nat where "WEBFLASH_BODY_SIZE \<equiv> 512"
abbreviation WEBFLASH_IO_SIZE :: u32 where "WEBFLASH_IO_SIZE \<equiv> 65536"
abbreviation WEBFLASH_STREAM_CHUNK :: u16 where "WEBFLASH_STREAM_CHUNK \<equiv> 1024"
abbreviation WEBFLASH_IDLE_TIMEOUT_MS :: ulong where "WEBFLASH_IDLE_TIMEOUT_MS \<equiv> 30000"
abbreviation WEBFLASH_REBOOT_DELAY_MS :: ulong where "WEBFLASH_REBOOT_DELAY_MS \<equiv> 5000"
abbreviation WEBFLASH_BOOT_DELAY_MS :: ulong where "WEBFLASH_BOOT_DELAY_MS \<equiv> 1500"
abbreviation WEBFLASH_FWTOOL_MAGIC :: u32 where "WEBFLASH_FWTOOL_MAGIC \<equiv> 0x46577830"
abbreviation WEBFLASH_FWTOOL_INFO :: byte where "WEBFLASH_FWTOOL_INFO \<equiv> 1"
abbreviation WEBFLASH_SQUASHFS_MAGIC :: u32 where "WEBFLASH_SQUASHFS_MAGIC \<equiv> 0x73717368"
abbreviation WEBFLASH_SQUASHFS_SB_SIZE :: nat where "WEBFLASH_SQUASHFS_SB_SIZE \<equiv> 96"
abbreviation WEBFLASH_EEPROM_OFFSET :: nat where "WEBFLASH_EEPROM_OFFSET \<equiv> 0x8000"
abbreviation WEBFLASH_EEPROM_SIZE :: u32 where "WEBFLASH_EEPROM_SIZE \<equiv> 0x200"

abbreviation CONFIG_WEBFLASH_UBOOT_OFFSET :: u32 where "CONFIG_WEBFLASH_UBOOT_OFFSET \<equiv> 0"
abbreviation CONFIG_WEBFLASH_UBOOT_SIZE :: u32 where "CONFIG_WEBFLASH_UBOOT_SIZE \<equiv> 0x30000"
abbreviation CONFIG_WEBFLASH_ENV_OFFSET :: u32 where "CONFIG_WEBFLASH_ENV_OFFSET \<equiv> 0x30000"
abbreviation CONFIG_WEBFLASH_ENV_SIZE :: u32 where "CONFIG_WEBFLASH_ENV_SIZE \<equiv> 0x10000"
abbreviation CONFIG_WEBFLASH_FACTORY_OFFSET :: u32 where "CONFIG_WEBFLASH_FACTORY_OFFSET \<equiv> 0x40000"
abbreviation CONFIG_WEBFLASH_FACTORY_SIZE :: u32 where "CONFIG_WEBFLASH_FACTORY_SIZE \<equiv> 0x10000"
abbreviation CONFIG_WEBFLASH_FIRMWARE_OFFSET :: u32 where "CONFIG_WEBFLASH_FIRMWARE_OFFSET \<equiv> 0x50000"
abbreviation CONFIG_WEBFLASH_FIRMWARE_SIZE :: u32 where "CONFIG_WEBFLASH_FIRMWARE_SIZE \<equiv> 0x1fb0000"
abbreviation CONFIG_ENV_SIZE :: u32 where "CONFIG_ENV_SIZE \<equiv> 0x1000"
abbreviation CONFIG_SYS_LOAD_ADDR :: ulong where "CONFIG_SYS_LOAD_ADDR \<equiv> 0x83000000"
abbreviation CONFIG_WEBFLASH_DEVICE_ID :: string where
  "CONFIG_WEBFLASH_DEVICE_ID \<equiv> ''hilink,hlk-7621a-evb''"
abbreviation CONFIG_WEBFLASH_PRODUCT_NAME :: string where "CONFIG_WEBFLASH_PRODUCT_NAME \<equiv> ''YJRQZ Boot''"
abbreviation CONFIG_WEBFLASH_DEFAULT_IPADDR :: string where
  "CONFIG_WEBFLASH_DEFAULT_IPADDR \<equiv> ''192.168.31.66''"
abbreviation CONFIG_WEBFLASH_DEFAULT_NETMASK :: string where
  "CONFIG_WEBFLASH_DEFAULT_NETMASK \<equiv> ''255.255.255.0''"

text \<open>The partition flags, \<open>BIT(0)\<close> to \<open>BIT(6)\<close>.\<close>

definition WEBFLASH_PART_PROTECTED :: u32 where "WEBFLASH_PART_PROTECTED = 1"
definition WEBFLASH_PART_FIRMWARE :: u32 where "WEBFLASH_PART_FIRMWARE = 2"
definition WEBFLASH_PART_ENV :: u32 where "WEBFLASH_PART_ENV = 4"
definition WEBFLASH_PART_FACTORY :: u32 where "WEBFLASH_PART_FACTORY = 8"
definition WEBFLASH_PART_UBOOT :: u32 where "WEBFLASH_PART_UBOOT = 16"
definition WEBFLASH_PART_EEPROM :: u32 where "WEBFLASH_PART_EEPROM = 32"
definition WEBFLASH_PART_RAM :: u32 where "WEBFLASH_PART_RAM = 64"

lemmas part_flag_defs =
  WEBFLASH_PART_PROTECTED_def WEBFLASH_PART_FIRMWARE_def WEBFLASH_PART_ENV_def
  WEBFLASH_PART_FACTORY_def WEBFLASH_PART_UBOOT_def WEBFLASH_PART_EEPROM_def WEBFLASH_PART_RAM_def

section \<open>Enumerations\<close>

datatype webflash_rx_state =
  WEBFLASH_RX_HEADERS | WEBFLASH_RX_UPLOAD | WEBFLASH_RX_BODY | WEBFLASH_RX_REPLIED

datatype webflash_action = WEBFLASH_ACTION_NONE | WEBFLASH_ACTION_ENV_SAVE

datatype webflash_job_mode = WEBFLASH_JOB_NONE | WEBFLASH_JOB_FLASH | WEBFLASH_JOB_ERASE_SETTINGS

datatype webflash_job_phase =
  WEBFLASH_PHASE_IDLE | WEBFLASH_PHASE_ERASING | WEBFLASH_PHASE_WRITING |
  WEBFLASH_PHASE_VERIFYING | WEBFLASH_PHASE_DONE | WEBFLASH_PHASE_ERROR

datatype webflash_image_kind =
  WEBFLASH_IMAGE_OPENWRT | WEBFLASH_IMAGE_OPENWRT_OTHER | WEBFLASH_IMAGE_FOREIGN

text \<open>lwIP's error codes (lwip/err.h).\<close>

datatype err_t =
  ERR_OK | ERR_MEM | ERR_BUF | ERR_TIMEOUT | ERR_RTE | ERR_INPROGRESS | ERR_VAL |
  ERR_WOULDBLOCK | ERR_USE | ERR_ALREADY | ERR_ISCONN | ERR_CONN | ERR_IF | ERR_ABRT |
  ERR_RST | ERR_CLSD | ERR_ARG

text \<open>
  The pointers the context keeps into memory it reads later: into its own reply buffer, the
  start page, or the buffer of the factory partition.
\<close>

datatype mem_ptr = Null | Reply_buf nat | Index_html nat | Factory_buf nat

section \<open>Records\<close>

record webflash_partition =
  p_name :: string
  p_filename :: string
  p_offset :: u32
  p_size :: u32
  p_flags :: u32

record webflash_job =
  mode :: webflash_job_mode
  phase :: webflash_job_phase
  part :: "webflash_partition option"
  source_addr :: ulong
  source_buffer :: mem_ptr
  erase_offset :: u32
  erase_size :: u32
  write_size :: u32
  processed :: u32
  source_crc :: u32
  verify_crc :: u32
  job_error :: string

text \<open>\<open>memset(job, 0, sizeof(*job))\<close>.\<close>

definition job_zero :: webflash_job where
  "job_zero = \<lparr>mode = WEBFLASH_JOB_NONE, phase = WEBFLASH_PHASE_IDLE, part = None, source_addr = 0,
     source_buffer = Null, erase_offset = 0, erase_size = 0, write_size = 0, processed = 0,
     source_crc = 0, verify_crc = 0, job_error = []\<rparr>"

record ('c, 'w) webflash_ctx =
  listener :: "nat option"
  client :: "nat option"
  flash :: 'c
  upload_part :: "webflash_partition option"
  job :: webflash_job
  load_addr :: ulong
  upload_size :: ulong
  content_length :: ulong
  last_activity :: ulong
  completed_addr :: ulong
  completed_size :: ulong
  reply_pending :: ulong
  reboot_start :: ulong
  upload_crc :: u32
  image_kind :: webflash_image_kind
  stream_offset :: u32
  stream_remaining :: u32
  stream_memory :: mem_ptr
  rx_state :: webflash_rx_state
  action :: webflash_action
  upload_valid :: bool
  client_aborted :: bool
  output_pending :: bool
  close_pending :: bool
  stream_active :: bool
  stream_from_flash :: bool
  reboot_pending :: bool
  keep_config :: bool
  boot_pending :: bool
  boot_addr :: ulong
  boot_start :: ulong
  io_buf :: "byte list"
  header :: string
  reply :: string
  body :: string
  factory_buf :: "byte list"
  upload_detail :: string
  ram :: "u32 \<Rightarrow> byte"
  now :: ulong
  lmb_map :: lmb
  world :: 'w
  faulted :: bool

abbreviation header_len :: "('c, 'w) webflash_ctx \<Rightarrow> nat" where "header_len ctx \<equiv> length (header ctx)"
abbreviation body_len :: "('c, 'w) webflash_ctx \<Rightarrow> nat" where "body_len ctx \<equiv> length (body ctx)"

text \<open>
  What the console calls.  A \<open>struct tcp_pcb *\<close> is a number; the functions of lwIP and of
  the environment act on the world.  \<open>tcp_arg\<close> to \<open>tcp_poll\<close> set (\<open>True\<close>) or clear the
  console's own callbacks.
\<close>

record ('c, 'w) platform =
  sf_ops :: "'c dm_spi_flash_ops"
  sf_size :: "'c \<Rightarrow> u32"
  sf_sector_size :: "'c \<Rightarrow> u32"
  tcp_sndbuf :: "'w \<Rightarrow> nat \<Rightarrow> u16"
  tcp_write :: "'w \<Rightarrow> nat \<Rightarrow> byte list \<Rightarrow> err_t \<times> 'w"
  tcp_output :: "'w \<Rightarrow> nat \<Rightarrow> err_t \<times> 'w"
  tcp_close :: "'w \<Rightarrow> nat \<Rightarrow> err_t \<times> 'w"
  tcp_abort :: "'w \<Rightarrow> nat \<Rightarrow> 'w"
  tcp_recved :: "'w \<Rightarrow> nat \<Rightarrow> nat \<Rightarrow> 'w"
  tcp_arg :: "'w \<Rightarrow> nat \<Rightarrow> bool \<Rightarrow> 'w"
  tcp_recv :: "'w \<Rightarrow> nat \<Rightarrow> bool \<Rightarrow> 'w"
  tcp_sent :: "'w \<Rightarrow> nat \<Rightarrow> bool \<Rightarrow> 'w"
  tcp_err :: "'w \<Rightarrow> nat \<Rightarrow> bool \<Rightarrow> 'w"
  tcp_poll :: "'w \<Rightarrow> nat \<Rightarrow> bool \<Rightarrow> nat \<Rightarrow> 'w"
  tcp_accept :: "'w \<Rightarrow> nat \<Rightarrow> bool \<Rightarrow> 'w"
  tcp_setprio_min :: "'w \<Rightarrow> nat \<Rightarrow> 'w"
  tcp_nagle_disable :: "'w \<Rightarrow> nat \<Rightarrow> 'w"
  tcp_new :: "'w \<Rightarrow> nat option \<times> 'w"
  tcp_bind :: "'w \<Rightarrow> nat \<Rightarrow> nat \<Rightarrow> err_t \<times> 'w"
  tcp_listen_with_backlog :: "'w \<Rightarrow> nat \<Rightarrow> nat \<Rightarrow> nat option \<times> 'w"
  env_get :: "'w \<Rightarrow> string \<Rightarrow> string option"
  env_set :: "'w \<Rightarrow> string \<Rightarrow> string option \<Rightarrow> int \<times> 'w"
  env_save :: "'w \<Rightarrow> 'c \<Rightarrow> int \<times> 'w \<times> 'c"
  env_set_default :: "'w \<Rightarrow> 'w"
  ram_base :: ulong
  ram_size :: ulong
  webflash_index_html :: string
  version_string :: string

definition get_timer :: "('c, 'w) webflash_ctx \<Rightarrow> ulong \<Rightarrow> ulong" where
  "get_timer ctx base = now ctx - base"

text \<open>\<open>env_set_hex\<close> and \<open>env_get_hex\<close> of env/common.c.\<close>

definition env_set_hex :: "('c, 'w) platform \<Rightarrow> 'w \<Rightarrow> string \<Rightarrow> ulong \<Rightarrow> int \<times> 'w" where
  "env_set_hex P w varname v = env_set P w varname (Some (fmt_x 0 (unat v)))"

definition env_get_hex :: "('c, 'w) platform \<Rightarrow> 'w \<Rightarrow> string \<Rightarrow> ulong \<Rightarrow> ulong" where
  "env_get_hex P w varname default_val =
     (case env_get P w varname of
        None \<Rightarrow> default_val
      | Some s \<Rightarrow> let (v, endp) = hextoul s in if endp = s then default_val else v)"

text \<open>The bytes of the mapped RAM from \<open>addr\<close> on, as the pointer of \<open>map_sysmem\<close>.\<close>

definition map_sysmem :: "('c, 'w) webflash_ctx \<Rightarrow> ulong \<Rightarrow> bytes_ptr" where
  "map_sysmem ctx addr = (\<lambda>i. ram ctx (addr + of_nat i))"

text \<open>\<open>len\<close> bytes at a pointer of the context.\<close>

fun mem_read :: "('c, 'w) platform \<Rightarrow> ('c, 'w) webflash_ctx \<Rightarrow> mem_ptr \<Rightarrow> nat \<Rightarrow> byte list" where
  "mem_read P ctx Null len = []"
| "mem_read P ctx (Reply_buf off) len = bytes_of (take len (drop off (reply ctx)))"
| "mem_read P ctx (Index_html off) len = bytes_of (take len (drop off (webflash_index_html P)))"
| "mem_read P ctx (Factory_buf off) len = take len (drop off (factory_buf ctx))"

fun mem_add :: "mem_ptr \<Rightarrow> nat \<Rightarrow> mem_ptr" where
  "mem_add Null n = Null"
| "mem_add (Reply_buf off) n = Reply_buf (off + n)"
| "mem_add (Index_html off) n = Index_html (off + n)"
| "mem_add (Factory_buf off) n = Factory_buf (off + n)"

section \<open>The partition table\<close>

definition webflash_eeprom_partition :: webflash_partition where
  "webflash_eeprom_partition =
     \<lparr>p_name = ''eeprom'', p_filename = '''',
      p_offset = CONFIG_WEBFLASH_FACTORY_OFFSET + of_nat WEBFLASH_EEPROM_OFFSET,
      p_size = WEBFLASH_EEPROM_SIZE, p_flags = WEBFLASH_PART_PROTECTED OR WEBFLASH_PART_EEPROM\<rparr>"

definition webflash_ram_partition :: webflash_partition where
  "webflash_ram_partition =
     \<lparr>p_name = ''ram'', p_filename = '''', p_offset = 0, p_size = CONFIG_WEBFLASH_FIRMWARE_SIZE,
      p_flags = WEBFLASH_PART_RAM\<rparr>"

definition webflash_partitions :: "webflash_partition list" where
  "webflash_partitions =
     [\<lparr>p_name = ''uboot'', p_filename = ''hlk-7621a-uboot.bin'',
       p_offset = CONFIG_WEBFLASH_UBOOT_OFFSET, p_size = CONFIG_WEBFLASH_UBOOT_SIZE,
       p_flags = WEBFLASH_PART_PROTECTED OR WEBFLASH_PART_UBOOT\<rparr>,
      \<lparr>p_name = ''environment'', p_filename = ''hlk-7621a-environment.bin'',
       p_offset = CONFIG_WEBFLASH_ENV_OFFSET, p_size = CONFIG_WEBFLASH_ENV_SIZE,
       p_flags = WEBFLASH_PART_PROTECTED OR WEBFLASH_PART_ENV\<rparr>,
      \<lparr>p_name = ''factory'', p_filename = ''hlk-7621a-factory.bin'',
       p_offset = CONFIG_WEBFLASH_FACTORY_OFFSET, p_size = CONFIG_WEBFLASH_FACTORY_SIZE,
       p_flags = WEBFLASH_PART_PROTECTED OR WEBFLASH_PART_FACTORY\<rparr>,
      \<lparr>p_name = ''firmware'', p_filename = ''hlk-7621a-firmware.bin'',
       p_offset = CONFIG_WEBFLASH_FIRMWARE_OFFSET, p_size = CONFIG_WEBFLASH_FIRMWARE_SIZE,
       p_flags = WEBFLASH_PART_FIRMWARE\<rparr>]"

definition webflash_partition_find :: "string \<Rightarrow> webflash_partition option" where
  "webflash_partition_find name =
     (if strcmp name ''eeprom'' = 0 then Some webflash_eeprom_partition
      else if strcmp name ''ram'' = 0 then Some webflash_ram_partition
      else find (\<lambda>p. strcmp (p_name p) name = 0) webflash_partitions)"

definition has_flag :: "webflash_partition \<Rightarrow> u32 \<Rightarrow> bool" where
  "has_flag p f \<longleftrightarrow> p_flags p AND f \<noteq> 0"

section \<open>Predicates and names\<close>

fun webflash_phase_name :: "webflash_job_phase \<Rightarrow> string" where
  "webflash_phase_name WEBFLASH_PHASE_ERASING = ''erasing''"
| "webflash_phase_name WEBFLASH_PHASE_WRITING = ''writing''"
| "webflash_phase_name WEBFLASH_PHASE_VERIFYING = ''verifying''"
| "webflash_phase_name WEBFLASH_PHASE_DONE = ''done''"
| "webflash_phase_name WEBFLASH_PHASE_ERROR = ''error''"
| "webflash_phase_name WEBFLASH_PHASE_IDLE = ''idle''"

definition webflash_job_active :: "('c, 'w) webflash_ctx \<Rightarrow> bool" where
  "webflash_job_active ctx \<longleftrightarrow>
     phase (job ctx) = WEBFLASH_PHASE_ERASING \<or> phase (job ctx) = WEBFLASH_PHASE_WRITING \<or>
     phase (job ctx) = WEBFLASH_PHASE_VERIFYING"

definition webflash_operation_blocked :: "('c, 'w) webflash_ctx \<Rightarrow> bool" where
  "webflash_operation_blocked ctx \<longleftrightarrow>
     webflash_job_active ctx \<or> reboot_pending ctx \<or> boot_pending ctx"

definition webflash_upload_is_firmware :: "('c, 'w) webflash_ctx \<Rightarrow> bool" where
  "webflash_upload_is_firmware ctx \<longleftrightarrow>
     (case upload_part ctx of None \<Rightarrow> False | Some p \<Rightarrow> has_flag p WEBFLASH_PART_FIRMWARE)"

definition webflash_image_name :: "('c, 'w) webflash_ctx \<Rightarrow> string" where
  "webflash_image_name ctx =
     (if \<not> webflash_upload_is_firmware ctx then ''raw''
      else case image_kind ctx of
             WEBFLASH_IMAGE_OPENWRT \<Rightarrow> ''openwrt''
           | WEBFLASH_IMAGE_OPENWRT_OTHER \<Rightarrow> ''openwrt-other''
           | _ \<Rightarrow> ''foreign'')"

definition webflash_image_warned :: "('c, 'w) webflash_ctx \<Rightarrow> bool" where
  "webflash_image_warned ctx \<longleftrightarrow>
     webflash_upload_is_firmware ctx \<and> image_kind ctx \<noteq> WEBFLASH_IMAGE_OPENWRT"

definition webflash_expected_confirmation :: "('c, 'w) webflash_ctx \<Rightarrow> string" where
  "webflash_expected_confirmation ctx =
     (let on = (\<lambda>f. case upload_part ctx of None \<Rightarrow> False | Some p \<Rightarrow> has_flag p f)
      in if on WEBFLASH_PART_EEPROM then ''WRITE-EEPROM''
         else if on WEBFLASH_PART_UBOOT then ''RESTORE-UBOOT''
         else if on WEBFLASH_PART_FACTORY then ''RESTORE-FACTORY''
         else if on WEBFLASH_PART_ENV then ''RESTORE-ENVIRONMENT''
         else if webflash_upload_is_firmware ctx \<and> image_kind ctx = WEBFLASH_IMAGE_OPENWRT_OTHER
           then ''FLASH-OPENWRT-OTHER''
         else if webflash_upload_is_firmware ctx \<and> image_kind ctx = WEBFLASH_IMAGE_FOREIGN
           then ''FLASH-FOREIGN''
         else ''FLASH-FIRMWARE'')"

end
