(* ===== verification/WebflashHttp.thy ===== *)
theory WebflashHttp
  imports WebflashState
begin

text \<open>
  The connection and its replies, cmd/lwip/webflash.c lines 314 to 500, 895 to 947 and 1351
  to 1385: closing and aborting the client, filling lwIP's send buffer, the reply functions,
  matching the request line, looking up a header and a form field.
\<close>

abbreviation CRLF :: string where "CRLF \<equiv> [CR, LF]"

section \<open>The client connection\<close>

definition webflash_detach_client ::
    "('c, 'w) platform \<Rightarrow> ('c, 'w) webflash_ctx \<Rightarrow> ('c, 'w) webflash_ctx" where
  "webflash_detach_client P ctx =
     (case client ctx of
        None \<Rightarrow> ctx
      | Some pcb \<Rightarrow>
          let w = tcp_arg P (world ctx) pcb False;
              w = tcp_recv P w pcb False;
              w = tcp_sent P w pcb False;
              w = tcp_err P w pcb False;
              w = tcp_poll P w pcb False 0
          in ctx\<lparr>world := w, client := None\<rparr>)"

definition webflash_abort_client ::
    "('c, 'w) platform \<Rightarrow> ('c, 'w) webflash_ctx \<Rightarrow> ('c, 'w) webflash_ctx" where
  "webflash_abort_client P ctx =
     (case client ctx of
        None \<Rightarrow> ctx
      | Some pcb \<Rightarrow>
          let ctx = (if rx_state ctx = WEBFLASH_RX_UPLOAD then ctx\<lparr>upload_valid := False\<rparr> else ctx);
              ctx = webflash_detach_client P ctx;
              ctx = ctx\<lparr>client_aborted := True\<rparr>
          in ctx\<lparr>world := tcp_abort P (world ctx) pcb\<rparr>)"

definition webflash_try_close_client ::
    "('c, 'w) platform \<Rightarrow> ('c, 'w) webflash_ctx \<Rightarrow> err_t \<times> ('c, 'w) webflash_ctx" where
  "webflash_try_close_client P ctx =
     (case client ctx of
        None \<Rightarrow> (ERR_OK, ctx)
      | Some pcb \<Rightarrow>
          let (err, w) = tcp_close P (world ctx) pcb; ctx = ctx\<lparr>world := w\<rparr>
          in if err = ERR_OK then (ERR_OK, ctx\<lparr>client := None, close_pending := False\<rparr>)
             else if err = ERR_MEM then (ERR_MEM, ctx\<lparr>close_pending := True\<rparr>)
             else (ERR_ABRT, webflash_abort_client P ctx))"

section \<open>Streaming into the send buffer\<close>

text \<open>\<open>spi_flash_read\<close> into the I/O buffer.\<close>

definition flash_read_io ::
    "('c, 'w) platform \<Rightarrow> ('c, 'w) webflash_ctx \<Rightarrow> u32 \<Rightarrow> u32 \<Rightarrow> int \<times> ('c, 'w) webflash_ctx" where
  "flash_read_io P ctx off len =
     (let (ret, bs, c) = sf_read (sf_ops P) (flash ctx) off len
      in (ret, ctx\<lparr>flash := c, io_buf := buf_put (io_buf ctx) bs\<rparr>))"

definition stream_len :: "u32 \<Rightarrow> u16 \<Rightarrow> u16" where
  "stream_len remaining sndbuf = ucast (min remaining (ucast (min sndbuf WEBFLASH_STREAM_CHUNK)))"

text \<open>
  One turn of the loop of \<open>webflash_stream_fill\<close>.  \<open>Inl ret\<close> leaves the loop: with a
  non-zero \<open>ret\<close> by \<open>return\<close>, with 0 by its condition or \<open>break\<close>.  Reading the send
  buffer of a null client is a fault.
\<close>

definition stream_turn ::
    "('c, 'w) platform \<Rightarrow> ('c, 'w) webflash_ctx \<Rightarrow> (int \<times> ('c, 'w) webflash_ctx) + ('c, 'w) webflash_ctx" where
  "stream_turn P ctx =
     (if stream_remaining ctx = 0 then Inl (0, ctx)
      else case client ctx of
        None \<Rightarrow> Inl (0, ctx\<lparr>faulted := True\<rparr>)
      | Some pcb \<Rightarrow>
          if tcp_sndbuf P (world ctx) pcb = 0 then Inl (0, ctx)
          else
            let len = stream_len (stream_remaining ctx) (tcp_sndbuf P (world ctx) pcb);
                (ret, ctx) = (if stream_from_flash ctx
                              then flash_read_io P ctx (stream_offset ctx) (ucast len) else (0, ctx))
            in if ret \<noteq> 0 then Inl (ret, ctx)
               else let payload = (if stream_from_flash ctx then take (unat len) (io_buf ctx)
                                   else mem_read P ctx (stream_memory ctx) (unat len));
                        (err, w) = tcp_write P (world ctx) pcb payload;
                        ctx = ctx\<lparr>world := w\<rparr>
                    in if err = ERR_MEM then Inl (0, ctx)
                       else if err \<noteq> ERR_OK then Inl (- EIO, ctx)
                       else let ctx = (if stream_from_flash ctx
                                       then ctx\<lparr>stream_offset := stream_offset ctx + ucast len\<rparr>
                                       else ctx\<lparr>stream_memory := mem_add (stream_memory ctx) (unat len)\<rparr>)
                            in Inr (ctx\<lparr>stream_remaining := stream_remaining ctx - ucast len\<rparr>))"

lemma stream_len_bounds:
  assumes "remaining \<noteq> 0" and "sndbuf \<noteq> 0"
  shows "0 < unat (stream_len remaining sndbuf)" and "unat (stream_len remaining sndbuf) \<le> unat remaining"
    and "unat (stream_len remaining sndbuf) \<le> 1024" and "unat (stream_len remaining sndbuf) \<le> unat sndbuf"
proof -
  define m :: u32 where "m = min remaining (ucast (min sndbuf WEBFLASH_STREAM_CHUNK))"
  have s: "unat (min sndbuf WEBFLASH_STREAM_CHUNK) = min (unat sndbuf) 1024"
    by (simp add: min_def word_le_nat_alt)
  then have m: "unat m = min (unat remaining) (min (unat sndbuf) 1024)"
    unfolding m_def by (simp add: min_def word_le_nat_alt)
  then have "unat m \<le> 1024" by simp
  then have "unat (ucast m :: u16) = unat m" by (simp add: unsigned_ucast_eq unsigned_take_bit_eq take_bit_nat_eq_self)
  then have *: "unat (stream_len remaining sndbuf) = min (unat remaining) (min (unat sndbuf) 1024)"
    using m by (simp add: stream_len_def m_def)
  have "0 < unat remaining" "0 < unat sndbuf" using assms by (simp_all add: unat_gt_0)
  with * show "0 < unat (stream_len remaining sndbuf)" "unat (stream_len remaining sndbuf) \<le> unat remaining"
    "unat (stream_len remaining sndbuf) \<le> 1024" "unat (stream_len remaining sndbuf) \<le> unat sndbuf"
    by simp_all
qed

lemma stream_turn_remaining:
  assumes "stream_turn P ctx = Inr ctx'"
  shows "unat (stream_remaining ctx') < unat (stream_remaining ctx)"
proof -
  obtain pcb where pcb: "client ctx = Some pcb" and r: "stream_remaining ctx \<noteq> 0"
    and s: "tcp_sndbuf P (world ctx) pcb \<noteq> 0"
    using assms by (auto simp: stream_turn_def split: if_splits option.splits)
  define len where "len = stream_len (stream_remaining ctx) (tcp_sndbuf P (world ctx) pcb)"
  have len: "0 < unat len" "unat len \<le> unat (stream_remaining ctx)"
    using stream_len_bounds [OF r s] by (simp_all add: len_def)
  have "stream_remaining ctx' = stream_remaining ctx - ucast len"
    using assms pcb r s
    by (auto simp: stream_turn_def flash_read_io_def Let_def len_def
        split: if_splits prod.splits)
  moreover have "unat (ucast len :: u32) = unat len" by simp
  ultimately show ?thesis
    using len unat_sub_no_wrap [of "ucast len" "stream_remaining ctx"]
    by (simp add: word_le_nat_alt)
qed

text \<open>The loop ends: every turn that goes on has sent at least one byte.\<close>

function stream_loop ::
    "('c, 'w) platform \<Rightarrow> ('c, 'w) webflash_ctx \<Rightarrow> int \<times> ('c, 'w) webflash_ctx" where
  "stream_loop P ctx =
     (case stream_turn P ctx of Inl r \<Rightarrow> r | Inr ctx' \<Rightarrow> stream_loop P ctx')"
  by pat_completeness auto
termination
  by (relation "measure (\<lambda>(P, ctx). unat (stream_remaining ctx))") (auto dest: stream_turn_remaining)

declare stream_loop.simps [simp del]

definition webflash_stream_fill ::
    "('c, 'w) platform \<Rightarrow> ('c, 'w) webflash_ctx \<Rightarrow> int \<times> ('c, 'w) webflash_ctx" where
  "webflash_stream_fill P ctx =
     (let (ret, ctx) = stream_loop P ctx
      in if ret \<noteq> 0 then (ret, ctx)
         else (0, if stream_remaining ctx = 0 then ctx\<lparr>stream_active := False\<rparr> else ctx))"

section \<open>Replies\<close>

text \<open>The C string at a pointer.\<close>

fun mem_string :: "('c, 'w) platform \<Rightarrow> ('c, 'w) webflash_ctx \<Rightarrow> mem_ptr \<Rightarrow> string" where
  "mem_string P ctx (Reply_buf off) = drop off (reply ctx)"
| "mem_string P ctx (Index_html off) = drop off (webflash_index_html P)"
| "mem_string P ctx _ = []"

definition reply_header :: "string \<Rightarrow> string \<Rightarrow> nat \<Rightarrow> string" where
  "reply_header status ctype n =
     ''HTTP/1.0 '' @ status @ CRLF @
     ''Content-Type: '' @ ctype @ CRLF @
     ''Content-Length: '' @ fmt_u n @ CRLF @
     ''Cache-Control: no-store'' @ CRLF @
     ''Connection: close'' @ CRLF @ CRLF"

definition webflash_reply ::
    "('c, 'w) platform \<Rightarrow> ('c, 'w) webflash_ctx \<Rightarrow> string \<Rightarrow> string \<Rightarrow> mem_ptr \<Rightarrow>
       int \<times> ('c, 'w) webflash_ctx" where
  "webflash_reply P ctx status ctype text =
     (case client ctx of
        None \<Rightarrow> (- ENOTCONN, ctx)
      | Some pcb \<Rightarrow>
          let len = strlen (mem_string P ctx text); hdr = reply_header status ctype len
          in if 192 \<le> length hdr \<or> 65535 < len
             then (- EOVERFLOW, webflash_abort_client P ctx)
             else
               let (err, w) = tcp_write P (world ctx) pcb (bytes_of hdr); ctx = ctx\<lparr>world := w\<rparr>
               in if err \<noteq> ERR_OK then (- EIO, webflash_abort_client P ctx)
                  else
                    let ctx = ctx\<lparr>rx_state := WEBFLASH_RX_REPLIED,
                                  reply_pending := of_nat (length hdr + len),
                                  output_pending := False,
                                  close_pending := False,
                                  stream_memory := text,
                                  stream_remaining := of_nat len,
                                  stream_from_flash := False,
                                  stream_active := (len \<noteq> 0)\<rparr>;
                        (ret, ctx) = webflash_stream_fill P ctx
                    in if ret \<noteq> 0 then (- EIO, webflash_abort_client P ctx)
                       else let (err, w) = tcp_output P (world ctx) pcb; ctx = ctx\<lparr>world := w\<rparr>
                            in if err = ERR_MEM then (0, ctx\<lparr>output_pending := True\<rparr>)
                               else if err \<noteq> ERR_OK then (- EIO, webflash_abort_client P ctx)
                               else (0, ctx))"

text \<open>\<open>snprintf(ctx->reply, sizeof(ctx->reply), ...)\<close>.\<close>

definition set_reply :: "('c, 'w) webflash_ctx \<Rightarrow> string \<Rightarrow> ('c, 'w) webflash_ctx" where
  "set_reply ctx s = ctx\<lparr>reply := snprintf_store WEBFLASH_REPLY_SIZE s\<rparr>"

definition webflash_error ::
    "('c, 'w) platform \<Rightarrow> ('c, 'w) webflash_ctx \<Rightarrow> string \<Rightarrow> string \<Rightarrow> ('c, 'w) webflash_ctx" where
  "webflash_error P ctx status message =
     snd (webflash_reply P (set_reply ctx (''{\"ok\":false,\"error\":\"'' @ message @ ''\"}''))
            status ''application/json'' (Reply_buf 0))"

definition webflash_ok ::
    "('c, 'w) platform \<Rightarrow> ('c, 'w) webflash_ctx \<Rightarrow> string \<Rightarrow> int \<times> ('c, 'w) webflash_ctx" where
  "webflash_ok P ctx message =
     webflash_reply P (set_reply ctx (''{\"ok\":true,\"message\":\"'' @ message @ ''\"}''))
       ''200 OK'' ''application/json'' (Reply_buf 0)"

section \<open>Request line and headers\<close>

definition webflash_path_is :: "string \<Rightarrow> nat \<Rightarrow> string \<Rightarrow> string \<Rightarrow> bool" where
  "webflash_path_is hdr hdr_len method path \<longleftrightarrow>
     (let method_len = strlen method; path_len = strlen path; request_len = method_len + path_len + 2
      in request_len < hdr_len \<and>
         strncmp hdr method method_len = 0 \<and>
         c0 (drop method_len hdr) = CHR '' '' \<and>
         strncmp (drop (method_len + 1) hdr) path path_len = 0 \<and>
         c0 (drop (method_len + path_len + 1) hdr) = CHR '' '')"

lemma strstr_CRLF_length: "strstr line CRLF = Some fin \<Longrightarrow> 2 \<le> length fin \<and> length fin \<le> length line"
  by (erule strstr_Some) (auto dest: prefix_length_le)

text \<open>
  The loop over the header lines: \<open>Inr\<close> the value, \<open>Inl\<close> the error.  The value starts after
  the colon and the blanks that follow it.
\<close>

function header_search :: "string \<Rightarrow> string \<Rightarrow> nat \<Rightarrow> int + string" where
  "header_search line name value_size =
     (if c0 line = NUL \<or> strncmp line CRLF 2 = 0 then Inl (- ENOENT)
      else case strstr line CRLF of
        None \<Rightarrow> Inl (- ENOENT)
      | Some fin \<Rightarrow>
          let n = length line - length fin; colon = memchr line (CHR '':'') n
          in if (case colon of
                   None \<Rightarrow> False
                 | Some colon \<Rightarrow> length line - length colon = strlen name \<and>
                                 strncasecmp line name (strlen name) = 0)
             then let v = dropWhile (\<lambda>c. c = CHR '' '' \<or> c = TAB)
                            (take (n - strlen name - 1) (drop (strlen name + 1) line))
                  in if value_size \<le> length v then Inl (- E2BIG) else Inr v
             else header_search (drop 2 fin) name value_size)"
  by pat_completeness auto
termination
  by (relation "measure (\<lambda>(line, name, value_size). length line)")
    (auto dest!: strstr_CRLF_length)

declare header_search.simps [simp del]

definition webflash_header_value :: "('c, 'w) webflash_ctx \<Rightarrow> string \<Rightarrow> nat \<Rightarrow> int + string" where
  "webflash_header_value ctx name value_size =
     (case strstr (header ctx) CRLF of
        None \<Rightarrow> Inl (- EINVAL)
      | Some line \<Rightarrow> header_search (drop 2 line) name value_size)"

definition webflash_get_content_length :: "('c, 'w) webflash_ctx \<Rightarrow> int + ulong" where
  "webflash_get_content_length ctx =
     (case webflash_header_value ctx ''Content-Length'' 32 of
        Inl _ \<Rightarrow> Inl (- ENOENT)
      | Inr v \<Rightarrow> let (sz, fin) = simple_strtoul v 10
                 in if fin = v \<or> c0 fin \<noteq> NUL then Inl (- EINVAL) else Inr sz)"

section \<open>Form bodies\<close>

text \<open>The decoded value, in place of the buffer the source rewrites; \<open>Inl\<close> a bad escape.\<close>

function webflash_percent_decode :: "string \<Rightarrow> int + string" where
  "webflash_percent_decode [] = Inr []"
| "webflash_percent_decode (c # cs) =
     (if c = NUL then Inr []
      else if c = CHR ''+'' then map_sum id (Cons (CHR '' '')) (webflash_percent_decode cs)
      else if c = CHR ''%'' \<and> c0 cs \<noteq> NUL \<and> c0 (tl cs) \<noteq> NUL then
        (let high = hex_to_bin (c0 cs); low = hex_to_bin (c0 (tl cs))
         in if high < 0 \<or> low < 0 then Inl (- EINVAL)
            else map_sum id (Cons (char_of (nat (high * 16 + low)))) (webflash_percent_decode (drop 2 cs)))
      else map_sum id (Cons c) (webflash_percent_decode cs))"
  by pat_completeness auto
termination
  by (relation "measure length") auto

lemma strchr_length: "Some t = strchr s c \<Longrightarrow> c \<noteq> NUL \<Longrightarrow> length t - Suc 0 < length s"
  by (induction s) (auto split: if_splits)

function form_search :: "string \<Rightarrow> string \<Rightarrow> nat \<Rightarrow> int + string" where
  "form_search field key value_size =
     (if c0 field = NUL then Inl (- ENOENT)
      else let nxt = strchr field (CHR ''&'');
               n = (case nxt of Some nx \<Rightarrow> length field - length nx | None \<Rightarrow> strlen field);
               equal = memchr field (CHR ''='') n
           in if (case equal of
                    None \<Rightarrow> False
                  | Some eq \<Rightarrow> length field - length eq = strlen key \<and> memcmp field key (strlen key) = 0)
              then if value_size \<le> n - strlen key - 1 then Inl (- E2BIG)
                   else webflash_percent_decode (take (n - strlen key - 1) (drop (strlen key + 1) field))
              else case nxt of None \<Rightarrow> Inl (- ENOENT) | Some nx \<Rightarrow> form_search (tl nx) key value_size)"
  by pat_completeness auto
termination
  by (relation "measure (\<lambda>(field, key, value_size). length field)")
    (auto dest!: strchr_length)

declare form_search.simps [simp del]

definition webflash_form_value :: "string \<Rightarrow> string \<Rightarrow> nat \<Rightarrow> int + string" where
  "webflash_form_value text key value_size = form_search text key value_size"

end
