(* ===== verification/ImageLegacy.thy ===== *)
theory ImageLegacy
  imports Crc32
begin

text \<open>
  The legacy uImage header: \<open>struct legacy_img_hdr\<close> of include/image.h, its big-endian
  accessors and checks, and the two CRC checks of boot/image.c.  A header pointer is the
  memory it points into (\<open>bytes_ptr\<close>), so a check reads exactly the bytes the C code reads,
  also where the size field of the header leads past the end of the caller's buffer.
\<close>

section \<open>The header (include/image.h)\<close>

record legacy_img_hdr =
  ih_magic :: u32
  ih_hcrc :: u32
  ih_time :: u32
  ih_size :: u32
  ih_load :: u32
  ih_ep :: u32
  ih_dcrc :: u32
  ih_os :: byte
  ih_arch :: byte
  ih_type :: byte
  ih_comp :: byte
  ih_name :: "byte list"

definition IH_MAGIC :: u32 where "IH_MAGIC = 0x27051956"
definition IH_NMLEN :: nat where "IH_NMLEN = 32"
definition IH_OS_LINUX :: byte where "IH_OS_LINUX = 5"
definition IH_ARCH_ARM :: byte where "IH_ARCH_ARM = 2"
definition IH_ARCH_MIPS :: byte where "IH_ARCH_MIPS = 5"
definition IH_ARCH_ARM64 :: byte where "IH_ARCH_ARM64 = 22"
definition IH_TYPE_KERNEL :: byte where "IH_TYPE_KERNEL = 2"

definition image_get_header_size :: nat where
  "image_get_header_size = 64"

text \<open>The packed structure at a pointer, its words converted with \<open>uimage_to_cpu\<close>.\<close>

definition image_header :: "bytes_ptr \<Rightarrow> legacy_img_hdr" where
  "image_header p = \<lparr>
     ih_magic = get_be32 p 0, ih_hcrc = get_be32 p 4, ih_time = get_be32 p 8,
     ih_size = get_be32 p 12, ih_load = get_be32 p 16, ih_ep = get_be32 p 20,
     ih_dcrc = get_be32 p 24, ih_os = p 28, ih_arch = p 29, ih_type = p 30,
     ih_comp = p 31, ih_name = mem_bytes p 32 IH_NMLEN\<rparr>"

definition image_get_magic :: "bytes_ptr \<Rightarrow> u32" where "image_get_magic hdr = ih_magic (image_header hdr)"
definition image_get_hcrc :: "bytes_ptr \<Rightarrow> u32" where "image_get_hcrc hdr = ih_hcrc (image_header hdr)"
definition image_get_size :: "bytes_ptr \<Rightarrow> u32" where "image_get_size hdr = ih_size (image_header hdr)"
definition image_get_dcrc :: "bytes_ptr \<Rightarrow> u32" where "image_get_dcrc hdr = ih_dcrc (image_header hdr)"
definition image_get_os :: "bytes_ptr \<Rightarrow> byte" where "image_get_os hdr = ih_os (image_header hdr)"
definition image_get_arch :: "bytes_ptr \<Rightarrow> byte" where "image_get_arch hdr = ih_arch (image_header hdr)"
definition image_get_type :: "bytes_ptr \<Rightarrow> byte" where "image_get_type hdr = ih_type (image_header hdr)"

definition image_get_data_size :: "bytes_ptr \<Rightarrow> u32" where
  "image_get_data_size hdr = image_get_size hdr"

text \<open>The sum is a \<open>uint32_t\<close> and wraps.\<close>

definition image_get_image_size :: "bytes_ptr \<Rightarrow> u32" where
  "image_get_image_size hdr = image_get_size hdr + of_nat image_get_header_size"

definition image_check_magic :: "bytes_ptr \<Rightarrow> bool" where
  "image_check_magic hdr \<longleftrightarrow> image_get_magic hdr = IH_MAGIC"

definition image_check_type :: "bytes_ptr \<Rightarrow> byte \<Rightarrow> bool" where
  "image_check_type hdr ty \<longleftrightarrow> image_get_type hdr = ty"

definition image_check_arch :: "bytes_ptr \<Rightarrow> byte \<Rightarrow> bool" where
  "image_check_arch hdr arch \<longleftrightarrow>
     image_get_arch hdr = arch \<or> image_get_arch hdr = IH_ARCH_ARM \<and> arch = IH_ARCH_ARM64"

definition image_check_os :: "bytes_ptr \<Rightarrow> byte \<Rightarrow> bool" where
  "image_check_os hdr os \<longleftrightarrow> image_get_os hdr = os"

section \<open>The CRC checks (boot/image.c)\<close>

definition CHUNKSZ_CRC32 :: nat where "CHUNKSZ_CRC32 = 64 * 1024"

text \<open>The header is copied to a (word-aligned) local, its CRC field set to 0.\<close>

definition image_check_hcrc :: "bytes_ptr \<Rightarrow> bool" where
  "image_check_hcrc hdr \<longleftrightarrow>
     (let header = (\<lambda>i. if 4 \<le> i \<and> i < 8 then 0 else hdr i)
      in crc32 0 0 (mem_bytes header 0 image_get_header_size) = image_get_hcrc hdr)"

definition image_check_dcrc :: "ulong \<Rightarrow> bytes_ptr \<Rightarrow> bool" where
  "image_check_dcrc addr hdr \<longleftrightarrow>
     crc32_wd (addr + of_nat image_get_header_size) 0
       (mem_bytes hdr image_get_header_size (unat (image_get_data_size hdr))) CHUNKSZ_CRC32
     = image_get_dcrc hdr"

section \<open>What the checks read\<close>

lemma get_be32_cong:
  "(\<And>i. off \<le> i \<Longrightarrow> i < off + 4 \<Longrightarrow> p i = q i) \<Longrightarrow> get_be32 p off = get_be32 q off"
  by (simp add: get_be32_def)

lemma image_header_cong:
  assumes "\<And>i. i < 64 \<Longrightarrow> p i = q i"
  shows "image_header p = image_header q"
  using assms
  by (auto simp: image_header_def IH_NMLEN_def intro!: get_be32_cong mem_bytes_cong)

lemmas image_get_defs =
  image_get_magic_def image_get_hcrc_def image_get_size_def image_get_dcrc_def
  image_get_os_def image_get_arch_def image_get_type_def image_get_data_size_def
  image_get_image_size_def

lemmas image_check_defs =
  image_check_magic_def image_check_type_def image_check_arch_def image_check_os_def

lemma image_check_hcrc_cong:
  assumes "\<And>i. i < 64 \<Longrightarrow> p i = q i"
  shows "image_check_hcrc p = image_check_hcrc q"
proof -
  have "mem_bytes (\<lambda>i. if 4 \<le> i \<and> i < 8 then 0 else p i) 0 64 =
        mem_bytes (\<lambda>i. if 4 \<le> i \<and> i < 8 then 0 else q i) 0 64"
    using assms by (intro mem_bytes_cong) auto
  with image_header_cong [of p q] assms show ?thesis
    by (simp add: image_check_hcrc_def image_get_hcrc_def image_get_header_size_def)
qed

lemma image_check_dcrc_iff:
  "image_check_dcrc addr p \<longleftrightarrow>
     crc32 0 0 (mem_bytes p 64 (unat (image_get_size p))) = image_get_dcrc p"
  by (simp add: image_check_dcrc_def crc32_wd_eq CHUNKSZ_CRC32_def image_get_header_size_def
      image_get_data_size_def)

lemma image_check_dcrc_cong:
  assumes "\<And>i. i < 64 + unat (image_get_size p) \<Longrightarrow> p i = q i"
  shows "image_check_dcrc addr p = image_check_dcrc addr q"
proof -
  have hdr: "image_header p = image_header q" using assms by (intro image_header_cong) simp
  then have sz: "image_get_size q = image_get_size p" by (simp add: image_get_size_def)
  have "mem_bytes p 64 (unat (image_get_size p)) = mem_bytes q 64 (unat (image_get_size p))"
    using assms by (intro mem_bytes_cong) simp
  with hdr sz show ?thesis by (simp add: image_check_dcrc_iff image_get_dcrc_def)
qed

lemma unat_image_size:
  "64 \<le> image_get_image_size p \<Longrightarrow> unat (image_get_image_size p) = unat (image_get_size p) + 64"
proof -
  assume le: "64 \<le> image_get_image_size p"
  have eq: "image_get_image_size p = 64 + image_get_size p"
    by (simp add: image_get_image_size_def image_get_header_size_def)
  with le have "unat (64 :: u32) + unat (image_get_size p) < 2 ^ 32"
    using u32_add_le_self [of 64 "image_get_size p"] by simp
  then show ?thesis using unat_add_no_wrap [of 64 "image_get_size p"] eq by simp
qed

end
