(* ===== verification/WebflashUpload.thy ===== *)
theory WebflashUpload
  imports WebflashHttp ImageLegacy
begin

text \<open>
  Receiving and judging an upload, cmd/lwip/webflash.c lines 502 to 893 and 1054 to 1067: the
  range check, the search in the fwtool metadata, the validation of each kind of image, the
  start of an upload and the storing of its pieces.  A \<open>const u8 *\<close> is a function from
  offsets to bytes, so that a read is visible as an application.
\<close>

section \<open>Searching the metadata\<close>

definition webflash_range_valid ::
    "('c, 'w) platform \<Rightarrow> ('c, 'w) webflash_ctx \<Rightarrow> ulong \<Rightarrow> bool \<times> ('c, 'w) webflash_ctx" where
  "webflash_range_valid P ctx sz =
     (let ram_end = ram_base P + ram_size P
      in if load_addr ctx + sz < load_addr ctx then (False, ctx)
         else if ram_end < ram_base P \<or> load_addr ctx < ram_base P \<or> ram_end < load_addr ctx + sz
           then (False, ctx)
         else let (ret, m) = lmb_read_check (lmb_map ctx) (load_addr ctx) sz
              in (ret = 0, ctx\<lparr>lmb_map := m\<rparr>))"

definition webflash_memmem :: "bytes_ptr \<Rightarrow> nat \<Rightarrow> string \<Rightarrow> nat option" where
  "webflash_memmem data data_len needle =
     (let needle_len = strlen needle
      in if needle_len = 0 \<or> data_len < needle_len then None
         else find (\<lambda>i. mem_bytes data i needle_len = bytes_of (take needle_len needle))
                [0..<data_len - needle_len + 1])"

text \<open>The pointer loops of \<open>webflash_json_array_has\<close>: skip to one of the given bytes.\<close>

function skip_until :: "bytes_ptr \<Rightarrow> nat \<Rightarrow> byte list \<Rightarrow> nat \<Rightarrow> nat" where
  "skip_until json fin stop p =
     (if p < fin \<and> json p \<notin> set stop then skip_until json fin stop (Suc p) else p)"
  by pat_completeness auto
termination by (relation "measure (\<lambda>(json, fin, stop, p). fin - p)") auto

declare skip_until.simps [simp del]

text \<open>Skip to the closing quote; a backslash takes the next byte with it.\<close>

function skip_string :: "bytes_ptr \<Rightarrow> nat \<Rightarrow> nat \<Rightarrow> nat" where
  "skip_string json fin p =
     (if p < fin \<and> json p \<noteq> 0x22
      then skip_string json fin (if json p = 0x5c \<and> p + 1 < fin then p + 2 else p + 1)
      else p)"
  by pat_completeness auto
termination by (relation "measure (\<lambda>(json, fin, p). fin - p)") auto

declare skip_string.simps [simp del]

lemma skip_until_ge: "p \<le> skip_until json fin stop p"
proof (induction json fin stop p rule: skip_until.induct)
  case (1 json fin stop p)
  show ?case
  proof (cases "p < fin \<and> json p \<notin> set stop")
    case True
    with 1 have "Suc p \<le> skip_until json fin stop (Suc p)" by simp
    with True show ?thesis by (simp add: skip_until.simps [of json fin stop p])
  next
    case False
    then show ?thesis by (auto simp: skip_until.simps [of json fin stop p])
  qed
qed

lemma skip_string_ge: "p \<le> skip_string json fin p"
proof (induction json fin p rule: skip_string.induct)
  case (1 json fin p)
  show ?case
  proof (cases "p < fin \<and> json p \<noteq> 0x22")
    case True
    let ?q = "if json p = 0x5c \<and> p + 1 < fin then p + 2 else p + 1"
    have "?q \<le> skip_string json fin ?q" using 1 True by simp
    then have "p \<le> skip_string json fin ?q" by (auto split: if_splits)
    with True show ?thesis by (subst skip_string.simps) simp
  next
    case False
    then show ?thesis by (subst skip_string.simps) auto
  qed
qed

text \<open>The loop over the strings of the array, from inside it up to the closing bracket.\<close>

function json_items :: "bytes_ptr \<Rightarrow> nat \<Rightarrow> string \<Rightarrow> nat \<Rightarrow> bool" where
  "json_items json fin v p =
     (if \<not> (p < fin \<and> json p \<noteq> 0x5d) then False
      else let q = skip_until json fin [0x22, 0x5d] p
           in if fin \<le> q \<or> json q = 0x5d then False
              else let start = q + 1; r = skip_string json fin start
                   in if fin \<le> r then False
                      else if r - start = strlen v \<and>
                              mem_bytes json start (strlen v) = bytes_of (take (strlen v) v) then True
                      else json_items json fin v (r + 1))"
  by pat_completeness auto
termination
proof (relation "measure (\<lambda>(json, fin, v, p). fin - p)", goal_cases)
  case 1
  show ?case by simp
next
  case (2 json fin v p q start r)
  have "p \<le> q" "start \<le> r"
    using 2 skip_until_ge [of p json fin "[0x22, 0x5d]"] skip_string_ge [of start json fin] by auto
  with 2 show ?case by auto
qed

declare json_items.simps [simp del]

definition webflash_json_array_has :: "bytes_ptr \<Rightarrow> nat \<Rightarrow> string \<Rightarrow> string \<Rightarrow> bool" where
  "webflash_json_array_has json json_len key v =
     (case webflash_memmem json json_len key of
        None \<Rightarrow> False
      | Some p \<Rightarrow>
          let p = skip_until json json_len [0x5b] (p + strlen key)
          in if json_len \<le> p then False else json_items json json_len v (p + 1))"

section \<open>The fwtool trailer\<close>

record webflash_fwimage_trailer =
  t_magic :: u32
  t_crc32 :: u32
  t_type :: byte
  t_size :: u32

definition fwimage_trailer :: "bytes_ptr \<Rightarrow> nat \<Rightarrow> webflash_fwimage_trailer" where
  "fwimage_trailer img off =
     \<lparr>t_magic = get_be32 img off, t_crc32 = get_be32 img (off + 4), t_type = img (off + 8),
      t_size = get_be32 img (off + 12)\<rparr>"

text \<open>The records from the end of the image backwards, at most \<open>depth\<close> of them.\<close>

fun fwtool_records :: "nat \<Rightarrow> ulong \<Rightarrow> bytes_ptr \<Rightarrow> u32 \<Rightarrow> int \<times> string" where
  "fwtool_records 0 addr img cursor = (- ENOENT, ''metadata not found'')"
| "fwtool_records (Suc depth) addr img cursor =
     (if cursor < 16 then (- ENOENT, ''metadata not found'')
      else let trailer_offset = cursor - 16; trailer = fwimage_trailer img (unat trailer_offset)
           in if t_magic trailer \<noteq> WEBFLASH_FWTOOL_MAGIC then (- ENOENT, ''metadata not found'')
              else let record_size = t_size trailer
                   in if record_size < 16 \<or> cursor < record_size then (- EINVAL, ''bad metadata size'')
                      else if crc32_no_comp addr 0xffffffff (mem_bytes img 0 (unat trailer_offset))
                                \<noteq> t_crc32 trailer
                        then (- EBADMSG, ''metadata CRC mismatch'')
                      else let data_start = cursor - record_size; data_len = record_size - 16
                           in if t_type trailer = WEBFLASH_FWTOOL_INFO then
                                (if data_len \<le> 8 then (- EINVAL, ''OpenWrt metadata is empty'')
                                 else if get_be32 img (unat data_start) \<noteq> 0
                                   then (- EPROTONOSUPPORT, ''bad metadata version'')
                                 else let json = (\<lambda>i. img (unat data_start + 8 + i));
                                          json_len = unat (data_len - 8)
                                      in if \<not> webflash_json_array_has json json_len
                                                ''\"supported_devices\"'' CONFIG_WEBFLASH_DEVICE_ID \<and>
                                            \<not> webflash_json_array_has json json_len
                                                ''\"new_supported_devices\"'' CONFIG_WEBFLASH_DEVICE_ID
                                         then (- ENODEV, ''image does not support '' @ CONFIG_WEBFLASH_DEVICE_ID)
                                         else (0, []))
                              else fwtool_records depth addr img data_start)"

definition webflash_validate_fwtool :: "ulong \<Rightarrow> bytes_ptr \<Rightarrow> u32 \<Rightarrow> nat \<Rightarrow> int \<times> string" where
  "webflash_validate_fwtool addr img image_size detail_size =
     (let (ret, detail) = fwtool_records 3 addr img image_size
      in (ret, snprintf_store detail_size detail))"

section \<open>Judging an upload\<close>

definition set_detail :: "('c, 'w) webflash_ctx \<Rightarrow> string \<Rightarrow> ('c, 'w) webflash_ctx" where
  "set_detail ctx s = ctx\<lparr>upload_detail := snprintf_store 128 s\<rparr>"

definition webflash_validate_firmware :: "('c, 'w) webflash_ctx \<Rightarrow> bytes_ptr \<Rightarrow> ('c, 'w) webflash_ctx" where
  "webflash_validate_firmware ctx data =
     (let ctx = ctx\<lparr>image_kind := WEBFLASH_IMAGE_FOREIGN\<rparr>
      in if completed_size ctx < of_nat image_get_header_size \<or> \<not> image_check_magic data \<or>
            \<not> image_check_hcrc data
         then set_detail ctx ''not a uImage: no valid legacy image header''
         else if completed_size ctx < image_get_image_size data
           then set_detail ctx ''not a complete uImage''
         else if \<not> image_check_os data IH_OS_LINUX \<or> \<not> image_check_arch data IH_ARCH_MIPS \<or>
                 \<not> image_check_type data IH_TYPE_KERNEL
           then set_detail ctx ''not a MIPS Linux kernel uImage''
         else if \<not> image_check_dcrc (completed_addr ctx) data
           then set_detail ctx ''uImage data CRC mismatch''
         else let (ret, reason) = webflash_validate_fwtool (completed_addr ctx) data (completed_size ctx) 96
              in if ret = 0
                 then set_detail (ctx\<lparr>image_kind := WEBFLASH_IMAGE_OPENWRT\<rparr>)
                        (''OpenWrt image verified for '' @ CONFIG_WEBFLASH_DEVICE_ID)
                 else if ret = - ENOENT then set_detail ctx ''not an OpenWrt image: no fwtool metadata''
                 else let ctx = ctx\<lparr>image_kind := WEBFLASH_IMAGE_OPENWRT_OTHER\<rparr>
                      in if ret = - ENODEV
                         then set_detail ctx (''OpenWrt image for another device, not '' @
                                CONFIG_WEBFLASH_DEVICE_ID)
                         else set_detail ctx (''OpenWrt metadata rejected: '' @ reason))"

definition webflash_buffer_uniform :: "bytes_ptr \<Rightarrow> nat \<Rightarrow> bool" where
  "webflash_buffer_uniform data sz \<longleftrightarrow> list_all (\<lambda>i. data i = data 0) [1..<sz]"

text \<open>The branches on the kind of partition, in the order of the source: status and context.\<close>

definition validate_eeprom :: "('c, 'w) webflash_ctx \<Rightarrow> bytes_ptr \<Rightarrow> int \<times> ('c, 'w) webflash_ctx" where
  "validate_eeprom ctx data =
     (let chip_id = get_unaligned_le16 data 0; pci_id = get_unaligned_le16 data 0x0a
      in if completed_size ctx \<noteq> WEBFLASH_EEPROM_SIZE \<or>
            (chip_id \<noteq> 0x7612 \<and> chip_id \<noteq> 0x7662 \<and> pci_id \<noteq> 0x7612 \<and> pci_id \<noteq> 0x7662)
         then (- EINVAL, set_detail ctx (''bad EEPROM: chip='' @ fmt_x 4 (unat chip_id) @
                 '' pci='' @ fmt_x 4 (unat pci_id)))
         else if webflash_buffer_uniform data (unat (completed_size ctx))
           then (- EINVAL, set_detail ctx ''EEPROM is uniform'')
         else (0, set_detail ctx ''MT7612 EEPROM verified''))"

definition validate_ram :: "('c, 'w) webflash_ctx \<Rightarrow> bytes_ptr \<Rightarrow> int \<times> ('c, 'w) webflash_ctx" where
  "validate_ram ctx data =
     (if completed_size ctx < of_nat image_get_header_size \<or> \<not> image_check_magic data \<or>
         \<not> image_check_hcrc data \<or> \<not> image_check_os data IH_OS_LINUX \<or>
         \<not> image_check_arch data IH_ARCH_MIPS \<or> \<not> image_check_type data IH_TYPE_KERNEL
      then (- ENOEXEC, set_detail ctx ''not a MIPS Linux uImage'')
      else if \<not> image_check_dcrc (completed_addr ctx) data
        then (- EBADMSG, set_detail ctx ''uImage data CRC mismatch'')
      else (0, set_detail ctx ''RAM boot image verified''))"

definition protected_error ::
    "('c, 'w) webflash_ctx \<Rightarrow> webflash_partition \<Rightarrow> ('c, 'w) webflash_ctx" where
  "protected_error ctx p = set_detail ctx (''raw '' @ p_name p @ '' invalid'')"

definition validate_env ::
    "('c, 'w) webflash_ctx \<Rightarrow> webflash_partition \<Rightarrow> bytes_ptr \<Rightarrow> int \<times> ('c, 'w) webflash_ctx" where
  "validate_env ctx p data =
     (if completed_size ctx < CONFIG_ENV_SIZE then (- EINVAL, protected_error ctx p)
      else if get_unaligned_le32 data 0 \<noteq>
                crc32 (completed_addr ctx + 4) 0 (mem_bytes data 4 (unat CONFIG_ENV_SIZE - 4))
        then (- EBADMSG, set_detail ctx ''environment CRC mismatch'')
      else (0, set_detail ctx ''env partition verified''))"

definition validate_raw ::
    "('c, 'w) webflash_ctx \<Rightarrow> webflash_partition \<Rightarrow> bytes_ptr \<Rightarrow> int \<times> ('c, 'w) webflash_ctx" where
  "validate_raw ctx p data =
     (if webflash_buffer_uniform data (unat (completed_size ctx)) then (- EINVAL, protected_error ctx p)
      else if has_flag p WEBFLASH_PART_UBOOT \<and>
              (completed_size ctx < 0x44 \<or> mem_bytes data 0x40 4 \<noteq> bytes_of ''7621'')
        then (- ENOEXEC, set_detail ctx ''not MT7621 U-Boot'')
      else (0, set_detail ctx (''raw '' @ p_name p @ '' accepted'')))"

definition webflash_validate_upload :: "('c, 'w) webflash_ctx \<Rightarrow> int \<times> ('c, 'w) webflash_ctx" where
  "webflash_validate_upload ctx =
     (case upload_part ctx of
        None \<Rightarrow> (0, ctx\<lparr>faulted := True\<rparr>)
      | Some p \<Rightarrow>
          let data = map_sysmem ctx (completed_addr ctx);
              ctx = ctx\<lparr>upload_crc := crc32_wd (completed_addr ctx) 0
                          (mem_bytes data 0 (unat (completed_size ctx))) (64 * 1024)\<rparr>;
              (ret, ctx) =
                (if has_flag p WEBFLASH_PART_EEPROM then validate_eeprom ctx data
                 else if has_flag p WEBFLASH_PART_RAM then validate_ram ctx data
                 else if has_flag p WEBFLASH_PART_FIRMWARE then (0, webflash_validate_firmware ctx data)
                 else if has_flag p WEBFLASH_PART_ENV then validate_env ctx p data
                 else validate_raw ctx p data)
          in (ret, ctx\<lparr>upload_valid := (ret = 0)\<rparr>))"

section \<open>Receiving an upload\<close>

definition webflash_prepare_upload ::
    "('c, 'w) platform \<Rightarrow> ('c, 'w) webflash_ctx \<Rightarrow> webflash_partition \<Rightarrow> int \<times> ('c, 'w) webflash_ctx" where
  "webflash_prepare_upload P ctx p =
     (if webflash_operation_blocked ctx
      then (- EBUSY, webflash_error P ctx ''409 Conflict'' ''device busy'')
      else
        let r = webflash_get_content_length ctx
        in if r = Inl (- ENOENT)
           then (- ENOENT, webflash_error P ctx ''411 Length Required'' ''Content-Length required'')
           else case r of
             Inl _ \<Rightarrow> (- EFBIG, webflash_error P ctx ''413 Content Too Large'' ''upload size mismatch'')
           | Inr sz \<Rightarrow>
               if sz = 0 \<or> p_size p < sz \<or> (has_flag p WEBFLASH_PART_PROTECTED \<and> sz \<noteq> p_size p)
               then (- EFBIG, webflash_error P ctx ''413 Content Too Large'' ''upload size mismatch'')
               else
                 let (valid, ctx) = webflash_range_valid P ctx sz
                 in if \<not> valid then (- ERANGE, webflash_error P ctx ''409 Conflict'' ''upload too large'')
                    else (0, ctx\<lparr>job := job_zero,
                                 upload_part := Some p,
                                 image_kind := WEBFLASH_IMAGE_FOREIGN,
                                 content_length := sz,
                                 upload_size := 0,
                                 completed_size := 0,
                                 upload_valid := False,
                                 upload_detail := [],
                                 rx_state := WEBFLASH_RX_UPLOAD\<rparr>))"

text \<open>\<open>memcpy\<close> to the mapped RAM.\<close>

definition ram_store :: "(u32 \<Rightarrow> byte) \<Rightarrow> u32 \<Rightarrow> byte list \<Rightarrow> u32 \<Rightarrow> byte" where
  "ram_store m addr data = (\<lambda>a. if unat (a - addr) < length data then data ! unat (a - addr) else m a)"

definition json_bool :: "bool \<Rightarrow> string" where
  "json_bool b = (if b then ''true'' else ''false'')"

definition upload_reply :: "('c, 'w) webflash_ctx \<Rightarrow> webflash_partition \<Rightarrow> int \<Rightarrow> string" where
  "upload_reply ctx p ret =
     ''{\"ok\":'' @ json_bool (ret = 0) @ '',\"target\":\"'' @ p_name p @
     ''\",\"size\":'' @ fmt_u (unat (completed_size ctx)) @
     '',\"crc32\":\"'' @ fmt_x 8 (unat (upload_crc ctx)) @
     ''\",\"image\":\"'' @ webflash_image_name ctx @
     ''\",\"warning\":'' @ json_bool (webflash_image_warned ctx) @
     '',\"confirm\":\"'' @ webflash_expected_confirmation ctx @
     ''\",\"detail\":\"'' @ upload_detail ctx @ ''\"}''"

text \<open>The end of an upload: the environment variables, then the validation and the reply.\<close>

definition upload_finish ::
    "('c, 'w) platform \<Rightarrow> ('c, 'w) webflash_ctx \<Rightarrow> int \<times> ('c, 'w) webflash_ctx" where
  "upload_finish P ctx =
     (let (ret, ctx) = webflash_validate_upload ctx;
          ctx = (case upload_part ctx of
                   None \<Rightarrow> ctx\<lparr>faulted := True\<rparr>
                 | Some p \<Rightarrow> set_reply ctx (upload_reply ctx p ret))
      in (ret, snd (webflash_reply P ctx
                      (if ret \<noteq> 0 then ''422 Unprocessable Content'' else ''200 OK'')
                      ''application/json'' (Reply_buf 0))))"

definition upload_done ::
    "('c, 'w) platform \<Rightarrow> ('c, 'w) webflash_ctx \<Rightarrow> int \<times> ('c, 'w) webflash_ctx" where
  "upload_done P ctx =
     (let ctx = ctx\<lparr>completed_addr := load_addr ctx, completed_size := upload_size ctx\<rparr>;
          (r1, w) = env_set_hex P (world ctx) ''fileaddr'' (completed_addr ctx);
          (r2, w) = (if r1 \<noteq> 0 then (r1, w) else env_set_hex P w ''filesize'' (completed_size ctx));
          ctx = ctx\<lparr>world := w\<rparr>
      in if r2 \<noteq> 0
         then (- EIO, webflash_error P ctx ''500 Internal Server Error'' ''update upload env failed'')
         else upload_finish P ctx)"

definition webflash_store_upload ::
    "('c, 'w) platform \<Rightarrow> ('c, 'w) webflash_ctx \<Rightarrow> byte list \<Rightarrow> int \<times> ('c, 'w) webflash_ctx" where
  "webflash_store_upload P ctx data =
     (let remaining = content_length ctx - upload_size ctx
      in if unat remaining < length data
         then (- EFBIG, webflash_error P ctx ''400 Bad Request'' ''body exceeds Content-Length'')
         else let ctx = ctx\<lparr>ram := ram_store (ram ctx) (load_addr ctx + upload_size ctx) data,
                            upload_size := upload_size ctx + of_nat (length data)\<rparr>
              in if upload_size ctx \<noteq> content_length ctx then (0, ctx) else upload_done P ctx)"

section \<open>Confirmation phrases\<close>

definition webflash_check_confirmation ::
    "('c, 'w) platform \<Rightarrow> ('c, 'w) webflash_ctx \<Rightarrow> string \<Rightarrow> int \<times> ('c, 'w) webflash_ctx" where
  "webflash_check_confirmation P ctx expected =
     (let rejected = (case webflash_header_value ctx ''X-Safeboot-Confirm'' 40 of
                        Inl _ \<Rightarrow> True
                      | Inr confirmation \<Rightarrow> strcmp confirmation expected \<noteq> 0)
      in if rejected then (- EACCES, webflash_error P ctx ''403 Forbidden'' ''phrase rejected'')
         else (0, ctx))"

end
