(* ===== verification/WebflashJob.thy ===== *)
theory WebflashJob
  imports WebflashUpload
begin

text \<open>
  Flash jobs, cmd/lwip/webflash.c lines 1069 to 1349: starting a job for a confirmed upload,
  patching the calibration data, one step of erasing, writing or verifying, the progress
  figure, the search for the overlay behind the root file system and the factory reset.
\<close>

section \<open>Starting a flash job\<close>

text \<open>The macros of include/linux/kernel.h on 32-bit values.\<close>

definition roundup :: "u32 \<Rightarrow> u32 \<Rightarrow> u32" where
  "roundup x y = ((x + (y - 1)) div y) * y"

definition rounddown :: "u32 \<Rightarrow> u32 \<Rightarrow> u32" where
  "rounddown x y = x - x mod y"

text \<open>
  The branch for calibration data: the factory partition is read, the uploaded EEPROM is
  copied into it, and the job becomes one for the whole factory partition.
\<close>

definition patch_eeprom ::
    "('c, 'w) platform \<Rightarrow> ('c, 'w) webflash_ctx \<Rightarrow> int \<times> ('c, 'w) webflash_ctx" where
  "patch_eeprom P ctx =
     (case webflash_partition_find ''factory'' of
        None \<Rightarrow> (0, ctx\<lparr>faulted := True\<rparr>)
      | Some factory \<Rightarrow>
          let (ret, ctx) = flash_read_io P ctx (p_offset factory) CONFIG_WEBFLASH_FACTORY_SIZE
          in if ret \<noteq> 0 then (ret, ctx\<lparr>job := job_zero\<rparr>)
             else let fb = buf_put (factory_buf ctx) (take (unat CONFIG_WEBFLASH_FACTORY_SIZE) (io_buf ctx));
                      source = mem_bytes (map_sysmem ctx (completed_addr ctx)) 0 (unat WEBFLASH_EEPROM_SIZE);
                      fb = take WEBFLASH_EEPROM_OFFSET fb @
                           buf_put (drop WEBFLASH_EEPROM_OFFSET fb) source
                  in (0, ctx\<lparr>factory_buf := fb,
                             job := (job ctx)\<lparr>part := Some factory,
                                              source_buffer := Factory_buf 0,
                                              erase_offset := p_offset factory,
                                              erase_size := p_size factory,
                                              write_size := p_size factory,
                                              source_crc := crc32 0 0 (take (unat (p_size factory)) fb)\<rparr>\<rparr>))"

definition webflash_start_flash_job ::
    "('c, 'w) platform \<Rightarrow> ('c, 'w) webflash_ctx \<Rightarrow> int \<times> ('c, 'w) webflash_ctx" where
  "webflash_start_flash_job P ctx =
     (case upload_part ctx of
        None \<Rightarrow> (0, ctx\<lparr>faulted := True\<rparr>)
      | Some p \<Rightarrow>
          let sector = sf_sector_size P (flash ctx);
              need = roundup (completed_size ctx) sector;
              ctx = ctx\<lparr>job := job_zero\<lparr>
                          mode := WEBFLASH_JOB_FLASH,
                          phase := WEBFLASH_PHASE_ERASING,
                          part := Some p,
                          source_addr := completed_addr ctx,
                          erase_offset := p_offset p,
                          erase_size := (if has_flag p WEBFLASH_PART_FIRMWARE
                                         then if keep_config ctx then need
                                              else min (p_size p) (need + 2 * sector)
                                         else p_size p),
                          write_size := completed_size ctx,
                          source_crc := upload_crc ctx\<rparr>\<rparr>
          in if has_flag p WEBFLASH_PART_EEPROM then patch_eeprom P ctx else (0, ctx))"

section \<open>Running a job\<close>

definition webflash_job_fail :: "('c, 'w) webflash_ctx \<Rightarrow> string \<Rightarrow> int \<Rightarrow> ('c, 'w) webflash_ctx" where
  "webflash_job_fail ctx operation ret =
     ctx\<lparr>job := (job ctx)\<lparr>phase := WEBFLASH_PHASE_ERROR,
                          job_error := snprintf_store 96 (operation @ '' failed ('' @ fmt_d ret @ '')'')\<rparr>\<rparr>"

definition webflash_schedule_reboot :: "('c, 'w) webflash_ctx \<Rightarrow> ('c, 'w) webflash_ctx" where
  "webflash_schedule_reboot ctx = ctx\<lparr>reboot_start := get_timer ctx 0, reboot_pending := True\<rparr>"

definition webflash_job_chunk :: "u32 \<Rightarrow> u32 \<Rightarrow> bool \<Rightarrow> u32" where
  "webflash_job_chunk sector remaining erase =
     (let chunk = min remaining WEBFLASH_IO_SIZE
      in if \<not> erase then chunk
         else if WEBFLASH_IO_SIZE < sector then min remaining sector
         else let chunk = rounddown chunk sector
              in if chunk \<noteq> 0 then chunk else min remaining sector)"

definition job_erase_step ::
    "('c, 'w) platform \<Rightarrow> ('c, 'w) webflash_ctx \<Rightarrow> ('c, 'w) webflash_ctx" where
  "job_erase_step P ctx =
     (let j = job ctx;
          chunk = webflash_job_chunk (sf_sector_size P (flash ctx)) (erase_size j - processed j) True;
          (ret, c) = sf_erase (sf_ops P) (flash ctx) (erase_offset j + processed j) chunk;
          ctx = ctx\<lparr>flash := c\<rparr>
      in if ret \<noteq> 0 then webflash_job_fail ctx ''erase'' ret
         else let j = j\<lparr>processed := processed j + chunk\<rparr>
              in if processed j = erase_size j
                 then if mode j = WEBFLASH_JOB_ERASE_SETTINGS
                      then webflash_schedule_reboot
                             (ctx\<lparr>job := j\<lparr>processed := 0, phase := WEBFLASH_PHASE_DONE\<rparr>\<rparr>)
                      else ctx\<lparr>job := j\<lparr>processed := 0, phase := WEBFLASH_PHASE_WRITING\<rparr>\<rparr>
                 else ctx\<lparr>job := j\<rparr>)"

text \<open>The bytes the next write takes from the source buffer or from RAM.\<close>

definition job_source :: "('c, 'w) platform \<Rightarrow> ('c, 'w) webflash_ctx \<Rightarrow> nat \<Rightarrow> byte list" where
  "job_source P ctx len =
     (let j = job ctx
      in if source_buffer j \<noteq> Null
         then mem_read P ctx (mem_add (source_buffer j) (unat (processed j))) len
         else mem_bytes (map_sysmem ctx (source_addr j + processed j)) 0 len)"

definition job_write_step ::
    "('c, 'w) platform \<Rightarrow> ('c, 'w) webflash_ctx \<Rightarrow> ('c, 'w) webflash_ctx" where
  "job_write_step P ctx =
     (let j = job ctx;
          chunk = webflash_job_chunk (sf_sector_size P (flash ctx)) (write_size j - processed j) False
      in case part j of
           None \<Rightarrow> ctx\<lparr>faulted := True\<rparr>
         | Some p \<Rightarrow>
             let (ret, c) = sf_write (sf_ops P) (flash ctx) (p_offset p + processed j)
                              (job_source P ctx (unat chunk));
                 ctx = ctx\<lparr>flash := c\<rparr>
             in if ret \<noteq> 0 then webflash_job_fail ctx ''write'' ret
                else let j = j\<lparr>processed := processed j + chunk\<rparr>
                     in ctx\<lparr>job := (if processed j = write_size j
                                    then j\<lparr>processed := 0, verify_crc := 0,
                                           phase := WEBFLASH_PHASE_VERIFYING\<rparr>
                                    else j)\<rparr>)"

definition job_verify_step ::
    "('c, 'w) platform \<Rightarrow> ('c, 'w) webflash_ctx \<Rightarrow> ('c, 'w) webflash_ctx" where
  "job_verify_step P ctx =
     (let j = job ctx;
          chunk = webflash_job_chunk (sf_sector_size P (flash ctx)) (write_size j - processed j) False
      in case part j of
           None \<Rightarrow> ctx\<lparr>faulted := True\<rparr>
         | Some p \<Rightarrow>
             let (ret, ctx) = flash_read_io P ctx (p_offset p + processed j) chunk
             in if ret \<noteq> 0 then webflash_job_fail ctx ''verify read'' ret
                else let j = j\<lparr>verify_crc := crc32 0 (verify_crc j) (take (unat chunk) (io_buf ctx)),
                               processed := processed j + chunk\<rparr>;
                         ctx = ctx\<lparr>job := j\<rparr>
                     in if processed j = write_size j
                        then if verify_crc j \<noteq> source_crc j
                             then webflash_job_fail ctx ''verify CRC'' (- EBADMSG)
                             else webflash_schedule_reboot (ctx\<lparr>job := j\<lparr>phase := WEBFLASH_PHASE_DONE\<rparr>\<rparr>)
                        else ctx)"

definition webflash_job_step ::
    "('c, 'w) platform \<Rightarrow> ('c, 'w) webflash_ctx \<Rightarrow> ('c, 'w) webflash_ctx" where
  "webflash_job_step P ctx =
     (case phase (job ctx) of
        WEBFLASH_PHASE_ERASING \<Rightarrow> job_erase_step P ctx
      | WEBFLASH_PHASE_WRITING \<Rightarrow> job_write_step P ctx
      | WEBFLASH_PHASE_VERIFYING \<Rightarrow> job_verify_step P ctx
      | _ \<Rightarrow> ctx)"

text \<open>The products are 64 bits wide, the result 32.\<close>

definition scaled :: "u32 \<Rightarrow> u64 \<Rightarrow> u32 \<Rightarrow> u64" where
  "scaled x k tot = (if tot \<noteq> 0 then (ucast x * k) div ucast tot else 0)"

definition webflash_job_progress :: "webflash_job \<Rightarrow> u32" where
  "webflash_job_progress j =
     (if phase j = WEBFLASH_PHASE_DONE then 100
      else if phase j = WEBFLASH_PHASE_ERROR \<or> phase j = WEBFLASH_PHASE_IDLE then 0
      else if mode j = WEBFLASH_JOB_ERASE_SETTINGS then ucast (scaled (processed j) 100 (erase_size j))
      else if phase j = WEBFLASH_PHASE_ERASING then ucast (scaled (processed j) 35 (erase_size j))
      else if phase j = WEBFLASH_PHASE_WRITING then ucast (35 + scaled (processed j) 40 (write_size j))
      else ucast (75 + scaled (processed j) 25 (write_size j)))"

section \<open>The flash request\<close>

definition webflash_start_uploaded_flash ::
    "('c, 'w) platform \<Rightarrow> ('c, 'w) webflash_ctx \<Rightarrow> int \<times> ('c, 'w) webflash_ctx" where
  "webflash_start_uploaded_flash P ctx =
     (if webflash_operation_blocked ctx
      then (- EBUSY, webflash_error P ctx ''409 Conflict'' ''device busy'')
      else case upload_part ctx of
        None \<Rightarrow> (- EINVAL, webflash_error P ctx ''409 Conflict'' ''no upload ready'')
      | Some p \<Rightarrow>
          if \<not> upload_valid ctx \<or> completed_size ctx = 0
          then (- EINVAL, webflash_error P ctx ''409 Conflict'' ''no upload ready'')
          else
            let (ret, ctx) = webflash_check_confirmation P ctx (webflash_expected_confirmation ctx)
            in if ret \<noteq> 0 then (- EACCES, ctx)
               else
                 let (ret, ctx) = webflash_start_flash_job P ctx
                 in if ret \<noteq> 0
                    then (- EIO, webflash_error P ctx ''500 Internal Server Error'' ''prepare EEPROM failed'')
                    else webflash_reply P
                           (set_reply ctx (''{\"ok\":true,\"target\":\"'' @ p_name p @
                              ''\",\"phase\":\"erasing\"}''))
                           ''202 Accepted'' ''application/json'' (Reply_buf 0))"

section \<open>Factory reset\<close>

text \<open>
  The superblock test at offset \<open>i\<close> of the block read from \<open>pos\<close>, and the overlay that
  would follow it.  \<open>rootfs_end\<close> is a 64-bit sum and wraps.
\<close>

definition overlay_candidate :: "u32 \<Rightarrow> bytes_ptr \<Rightarrow> u32 \<Rightarrow> u32 \<Rightarrow> nat \<Rightarrow> u32 option" where
  "overlay_candidate sector buf fin pos i =
     (let sb = (\<lambda>k. buf (i + k))
      in if get_unaligned_le32 sb 0 \<noteq> WEBFLASH_SQUASHFS_MAGIC then None
         else if get_unaligned_le16 sb 28 \<noteq> 4 \<or> get_unaligned_le16 sb 30 \<noteq> 0 then None
         else let bytes_used = get_unaligned_le64 sb 40
              in if bytes_used < of_nat WEBFLASH_SQUASHFS_SB_SIZE then None
                 else let rootfs_end = (ucast pos :: u64) + of_nat i + bytes_used
                      in if ucast fin \<le> rootfs_end then None
                         else let candidate = roundup (ucast rootfs_end) sector
                              in if candidate < fin then Some candidate else None)"

text \<open>The scan of one block: the first offset with a candidate.\<close>

fun overlay_block :: "u32 \<Rightarrow> bytes_ptr \<Rightarrow> u32 \<Rightarrow> u32 \<Rightarrow> nat list \<Rightarrow> u32 option" where
  "overlay_block sector buf fin pos [] = None"
| "overlay_block sector buf fin pos (i # is) =
     (case overlay_candidate sector buf fin pos i of
        Some c \<Rightarrow> Some c
      | None \<Rightarrow> overlay_block sector buf fin pos is)"

text \<open>
  The loop over the firmware partition.  The position stays below its end (32 MiB), so it
  is a natural number here and the 32-bit sums of the source do not wrap.
\<close>

function overlay_scan ::
    "('c, 'w) platform \<Rightarrow> ('c, 'w) webflash_ctx \<Rightarrow> nat \<Rightarrow> nat \<Rightarrow> (int + u32) \<times> ('c, 'w) webflash_ctx" where
  "overlay_scan P ctx fin pos =
     (if fin < pos + WEBFLASH_SQUASHFS_SB_SIZE then (Inl (- ENOENT), ctx)
      else let read_len = min (unat WEBFLASH_IO_SIZE) (fin - pos);
               r = flash_read_io P ctx (of_nat pos) (of_nat read_len)
           in if fst r \<noteq> 0 then (Inl (fst r), snd r)
              else case overlay_block (sf_sector_size P (flash (snd r))) (ptr_of (io_buf (snd r)))
                          (of_nat fin) (of_nat pos) [0..<read_len - (WEBFLASH_SQUASHFS_SB_SIZE - 1)] of
                     Some c \<Rightarrow> (Inr c, snd r)
                   | None \<Rightarrow> overlay_scan P (snd r) fin
                               (pos + (unat WEBFLASH_IO_SIZE - (WEBFLASH_SQUASHFS_SB_SIZE - 1))))"
  by pat_completeness auto
termination
  by (relation "measure (\<lambda>(P, ctx, fin, pos). fin - pos)") auto

declare overlay_scan.simps [simp del]

definition webflash_find_overlay ::
    "('c, 'w) platform \<Rightarrow> ('c, 'w) webflash_ctx \<Rightarrow> (int + u32) \<times> ('c, 'w) webflash_ctx" where
  "webflash_find_overlay P ctx =
     overlay_scan P ctx (unat (CONFIG_WEBFLASH_FIRMWARE_OFFSET + CONFIG_WEBFLASH_FIRMWARE_SIZE))
       (unat CONFIG_WEBFLASH_FIRMWARE_OFFSET)"

definition webflash_factory_reset ::
    "('c, 'w) platform \<Rightarrow> ('c, 'w) webflash_ctx \<Rightarrow> int \<times> ('c, 'w) webflash_ctx" where
  "webflash_factory_reset P ctx =
     (if webflash_operation_blocked ctx
      then (- EBUSY, webflash_error P ctx ''409 Conflict'' ''device busy'')
      else
        let (ret, ctx) = webflash_check_confirmation P ctx ''ERASE-SETTINGS''
        in if ret \<noteq> 0 then (- EACCES, ctx)
           else
             let (found, ctx) = webflash_find_overlay P ctx
             in case found of
                  Inl ret \<Rightarrow> (ret, webflash_error P ctx ''422 Unprocessable Content'' ''rootfs_data not found'')
                | Inr overlay \<Rightarrow>
                    let ctx = ctx\<lparr>job := job_zero\<lparr>
                                mode := WEBFLASH_JOB_ERASE_SETTINGS,
                                phase := WEBFLASH_PHASE_ERASING,
                                part := webflash_partition_find ''firmware'',
                                erase_offset := overlay,
                                erase_size := CONFIG_WEBFLASH_FIRMWARE_OFFSET +
                                              CONFIG_WEBFLASH_FIRMWARE_SIZE - overlay\<rparr>\<rparr>
                    in webflash_reply P
                         (set_reply ctx (''{\"ok\":true,\"phase\":\"erasing\",\"offset\":\"0x'' @
                            fmt_x 8 (unat overlay) @ ''\"}''))
                         ''202 Accepted'' ''application/json'' (Reply_buf 0))"

end
