(* ===== verification/Ip4Addr.thy ===== *)
theory Ip4Addr
  imports CString
begin

text \<open>
  The two routines of lib/lwip/lwip/src/core/ipv4/ip4_addr.c that validate the addresses
  entered in the web form: \<open>ip4addr_aton\<close> (dotted text to an address in network order) and
  \<open>ip4_addr_netmask_valid\<close>.  The character classes are those of the C locale.
\<close>

definition lwip_isdigit :: "char \<Rightarrow> bool" where
  "lwip_isdigit c = (let n = of_char c :: nat in 48 \<le> n \<and> n \<le> 57)"

definition lwip_islower :: "char \<Rightarrow> bool" where
  "lwip_islower c = (let n = of_char c :: nat in 97 \<le> n \<and> n \<le> 122)"

definition lwip_isspace :: "char \<Rightarrow> bool" where
  "lwip_isspace c = (let n = of_char c :: nat in n = 32 \<or> 9 \<le> n \<and> n \<le> 13)"

definition lwip_htonl :: "u32 \<Rightarrow> u32" where
  "lwip_htonl x =
     push_bit 24 (x AND 0xff) OR push_bit 8 (x AND 0xff00) OR
     drop_bit 8 (x AND 0xff0000) OR drop_bit 24 (x AND 0xff000000)"

text \<open>The inner loop: the digits of one number.\<close>

fun aton_num :: "nat \<Rightarrow> u32 \<Rightarrow> string \<Rightarrow> u32 \<times> string" where
  "aton_num base val [] = (val, [])"
| "aton_num base val (c # cp) =
     (if lwip_isdigit c then
        (if base = 8 \<and> 56 \<le> (of_char c :: nat) then (val, c # cp)
         else aton_num base (val * of_nat base + of_nat (of_char c - 48)) cp)
      else if base = 16 \<and> isxdigit c then
        aton_num base (push_bit 4 val OR
          of_nat (of_char c + 10 - (if lwip_islower c then 97 else 65))) cp
      else (val, c # cp))"

lemma aton_num_length: "length (snd (aton_num base val cp)) \<le> length cp"
  by (induction base val cp rule: aton_num.induct) auto

definition aton_base :: "string \<Rightarrow> nat \<times> string" where
  "aton_base cp =
     (if c0 cp = CHR ''0'' then
        (let cp = tl cp
         in if c0 cp = CHR ''x'' \<or> c0 cp = CHR ''X'' then (16, tl cp) else (8, cp))
      else (10, cp))"

lemma aton_base_length: "length (snd (aton_base cp)) \<le> length cp"
  by (auto simp: aton_base_def Let_def)

text \<open>
  The outer loop: the numbers before the last dot (\<open>parts\<close>), the last number, and the
  text that follows it; \<open>None\<close> where the source returns 0.
\<close>

function aton_parts :: "u32 list \<Rightarrow> string \<Rightarrow> (u32 list \<times> u32 \<times> string) option" where
  "aton_parts parts cp =
     (if \<not> lwip_isdigit (c0 cp) then None
      else let base = fst (aton_base cp); cp1 = snd (aton_base cp);
               val = fst (aton_num base 0 cp1); cp2 = snd (aton_num base 0 cp1)
           in if c0 cp2 = CHR ''.'' then
                (if 3 \<le> length parts then None else aton_parts (parts @ [val]) (tl cp2))
              else Some (parts, val, cp2))"
  by pat_completeness auto
termination
proof (relation "measure (\<lambda>(parts, cp). length cp)")
  fix parts :: "u32 list" and cp x xa xb xc
  assume eqs: "xa = snd (aton_base cp)" "xc = snd (aton_num x 0 xa)" "c0 xc = CHR ''.''"
  have "length xc \<le> length cp"
    using aton_num_length [of x 0 xa] aton_base_length [of cp] eqs by simp
  moreover have "xc \<noteq> []" using eqs(3) by auto
  ultimately show "((parts @ [xb], tl xc), (parts, cp)) \<in> measure (\<lambda>(parts, cp). length cp)"
    by (cases xc) auto
qed simp

declare aton_parts.simps [simp del]

definition aton_value :: "u32 list \<Rightarrow> u32 \<Rightarrow> u32 option" where
  "aton_value parts val =
     (case parts of
        [] \<Rightarrow> Some val
      | [a] \<Rightarrow>
          if val > 0xffffff \<or> a > 0xff then None else Some (val OR push_bit 24 a)
      | [a, b] \<Rightarrow>
          if val > 0xffff \<or> a > 0xff \<or> b > 0xff then None
          else Some (val OR push_bit 24 a OR push_bit 16 b)
      | [a, b, c] \<Rightarrow>
          if val > 0xff \<or> a > 0xff \<or> b > 0xff \<or> c > 0xff then None
          else Some (val OR push_bit 24 a OR push_bit 16 b OR push_bit 8 c)
      | _ \<Rightarrow> Some val)"

definition ip4addr_aton :: "string \<Rightarrow> u32 option" where
  "ip4addr_aton cp =
     (case aton_parts [] cp of
        None \<Rightarrow> None
      | Some (parts, val, rest) \<Rightarrow>
          if c0 rest \<noteq> NUL \<and> \<not> lwip_isspace (c0 rest) then None
          else map_option lwip_htonl (aton_value parts val))"

text \<open>
  The two loops over the mask bit: \<open>n\<close> stands for the mask \<open>1 << (n - 1)\<close>, 0 for the
  mask shifted out.
\<close>

fun netmask_ones :: "u32 \<Rightarrow> nat \<Rightarrow> nat" where
  "netmask_ones nm 0 = 0"
| "netmask_ones nm (Suc n) = (if nm AND push_bit n 1 = 0 then Suc n else netmask_ones nm n)"

fun netmask_zeros :: "u32 \<Rightarrow> nat \<Rightarrow> bool" where
  "netmask_zeros nm 0 = True"
| "netmask_zeros nm (Suc n) = (if nm AND push_bit n 1 \<noteq> 0 then False else netmask_zeros nm n)"

definition ip4_addr_netmask_valid :: "u32 \<Rightarrow> bool" where
  "ip4_addr_netmask_valid netmask =
     (let nm = lwip_htonl netmask in netmask_zeros nm (netmask_ones nm 32))"

section \<open>Correctness\<close>

lemma and_push_bit_1: "(nm :: u32) AND 2 ^ n = 0 \<longleftrightarrow> \<not> bit nm n"
  by (rule and_exp_eq_0_iff_not_bit)

lemma netmask_zeros_iff: "netmask_zeros nm n \<longleftrightarrow> (\<forall>k < n. \<not> bit nm k)"
  by (induction n) (auto simp: and_push_bit_1 less_Suc_eq)

lemma netmask_ones_spec:
  "(\<forall>k. netmask_ones nm n \<le> k \<and> k < n \<longrightarrow> bit nm k) \<and> netmask_ones nm n \<le> n \<and>
   (netmask_ones nm n = 0 \<or> \<not> bit nm (netmask_ones nm n - 1))"
  by (induction n) (auto simp: and_push_bit_1 less_Suc_eq)

text \<open>
  A mask is accepted exactly when, in host order, its one bits are the topmost ones.
\<close>

lemma netmask_valid_iff:
  "netmask_zeros nm (netmask_ones nm 32) \<longleftrightarrow> (\<exists>n \<le> 32. \<forall>k < 32. bit nm k \<longleftrightarrow> n \<le> k)"
proof
  assume "netmask_zeros nm (netmask_ones nm 32)"
  then show "\<exists>n \<le> 32. \<forall>k < 32. bit nm k \<longleftrightarrow> n \<le> k"
    using netmask_ones_spec [of nm 32]
    by (intro exI [of _ "netmask_ones nm 32"]) (auto simp: netmask_zeros_iff not_le)
next
  assume "\<exists>n \<le> 32. \<forall>k < 32. bit nm k \<longleftrightarrow> n \<le> k"
  then obtain n where n: "n \<le> 32" "\<forall>k < 32. bit nm k \<longleftrightarrow> n \<le> k" by blast
  let ?m = "netmask_ones nm 32"
  have "?m \<le> 32" "?m = 0 \<or> \<not> bit nm (?m - 1)" using netmask_ones_spec [of nm 32] by auto
  with n have "?m \<le> n" by (cases ?m) (auto simp: Suc_le_eq not_le)
  with n show "netmask_zeros nm ?m" by (auto simp: netmask_zeros_iff)
qed

lemma lwip_htonl_invol [simp]: "lwip_htonl (lwip_htonl x) = x"
proof -
  have m: "0xff = (mask 8 :: u32)" "0xff00 = (push_bit 8 (mask 8) :: u32)"
    "0xff0000 = (push_bit 16 (mask 8) :: u32)" "0xff000000 = (push_bit 24 (mask 8) :: u32)"
    by (simp_all add: mask_eq_exp_minus_1)
  have b: "bit (lwip_htonl y) n \<longleftrightarrow> n < 32 \<and> bit y (if n < 8 then 24 + n else if n < 16 then 8 + n
      else if n < 24 then n - 8 else n - 24)" for y n
    unfolding lwip_htonl_def m by (auto simp: bit_simps dest: bit_imp_le_length)
  show ?thesis by (rule bit_word_eqI) (auto simp: b)
qed

text \<open>
  The settings page accepts a netmask exactly when its one bits, in host order, are the
  topmost ones.
\<close>

theorem netmask_valid_contiguous:
  "ip4_addr_netmask_valid netmask \<longleftrightarrow> (\<exists>n. lwip_htonl netmask = push_bit n (mask (32 - n)))"
proof -
  have bits: "bit (push_bit n (mask (32 - n)) :: u32) k \<longleftrightarrow> k < 32 \<and> n \<le> k" for n k
    by (auto simp: bit_simps)
  have "lwip_htonl netmask = push_bit n (mask (32 - n)) \<longleftrightarrow> (\<forall>k < 32. bit (lwip_htonl netmask) k = (n \<le> k))" for n
    unfolding bit_eq_iff bits using bit_imp_le_length [where 'a = 32] by auto
  moreover have "(\<forall>k < 32. bit (lwip_htonl netmask) k = (n \<le> k)) \<longleftrightarrow>
      (\<forall>k < 32. bit (lwip_htonl netmask) k = (min n 32 \<le> k))" for n
    by (auto simp: min_def)
  ultimately have eq: "lwip_htonl netmask = push_bit n (mask (32 - n)) \<longleftrightarrow>
      (\<forall>k < 32. bit (lwip_htonl netmask) k = (min n 32 \<le> k))" for n
    by blast
  show ?thesis
    unfolding ip4_addr_netmask_valid_def Let_def netmask_valid_iff eq
  proof
    assume "\<exists>n \<le> 32. \<forall>k < 32. bit (lwip_htonl netmask) k = (n \<le> k)"
    then obtain n where "n \<le> 32" "\<forall>k < 32. bit (lwip_htonl netmask) k = (n \<le> k)" by blast
    then show "\<exists>n. \<forall>k < 32. bit (lwip_htonl netmask) k = (min n 32 \<le> k)"
      by (intro exI [of _ n]) (simp add: min_absorb1)
  next
    assume "\<exists>n. \<forall>k < 32. bit (lwip_htonl netmask) k = (min n 32 \<le> k)"
    then obtain n where "\<forall>k < 32. bit (lwip_htonl netmask) k = (min n 32 \<le> k)" by blast
    then show "\<exists>n \<le> 32. \<forall>k < 32. bit (lwip_htonl netmask) k = (n \<le> k)"
      by (intro exI [of _ "min n 32"]) simp
  qed
qed

end
