(* ===== verification/WebflashServer.thy ===== *)
theory WebflashServer
  imports WebflashJob Ip4Addr
begin

text \<open>
  The server around uploads and jobs, cmd/lwip/webflash.c lines 949 to 1052 and 1387 to 2004:
  the settings form, backups, the information pages, the dispatch of a request, lwIP's
  callbacks, the start of the listener and of the flash, and the command with its main loop.
\<close>

section \<open>Settings\<close>

definition webflash_ipv4_valid :: "string \<Rightarrow> bool" where
  "webflash_ipv4_valid v \<longleftrightarrow> c0 v \<noteq> NUL \<and> ip4addr_aton v \<noteq> None"

definition netmask_accepted :: "string \<Rightarrow> bool" where
  "netmask_accepted v = (case ip4addr_aton v of None \<Rightarrow> False | Some m \<Rightarrow> ip4_addr_netmask_valid m)"

text \<open>\<open>simple_strtoul\<close> on the boot delay, at most 30.\<close>

definition bootdelay_accepted :: "string \<Rightarrow> bool" where
  "bootdelay_accepted v \<longleftrightarrow>
     (let (delay, fin) = simple_strtoul v 10 in \<not> (fin = v \<or> c0 fin \<noteq> NUL \<or> 30 < delay))"

text \<open>The chain of \<open>env_set\<close> calls, left at the first failure, and \<open>env_save\<close>.\<close>

fun env_set_all :: "('c, 'w) platform \<Rightarrow> 'w \<Rightarrow> (string \<times> string option) list \<Rightarrow> int \<times> 'w" where
  "env_set_all P w [] = (0, w)"
| "env_set_all P w ((k, v) # kvs) =
     (let r = env_set P w k v in if fst r \<noteq> 0 then r else env_set_all P (snd r) kvs)"

definition env_commit ::
    "('c, 'w) platform \<Rightarrow> ('c, 'w) webflash_ctx \<Rightarrow> (string \<times> string option) list \<Rightarrow>
       int \<times> ('c, 'w) webflash_ctx" where
  "env_commit P ctx kvs =
     (let (ret, w) = env_set_all P (world ctx) kvs; ctx = ctx\<lparr>world := w\<rparr>
      in if ret \<noteq> 0 then (ret, ctx)
         else let (ret, w, c) = env_save P (world ctx) (flash ctx)
              in (ret, ctx\<lparr>world := w, flash := c\<rparr>))"

definition webflash_env_save ::
    "('c, 'w) platform \<Rightarrow> ('c, 'w) webflash_ctx \<Rightarrow> int \<times> ('c, 'w) webflash_ctx" where
  "webflash_env_save P ctx =
     (case (webflash_form_value (body ctx) ''ipaddr'' 24, webflash_form_value (body ctx) ''netmask'' 24,
            webflash_form_value (body ctx) ''serverip'' 24, webflash_form_value (body ctx) ''bootdelay'' 12) of
        (Inr ipaddr, Inr netmask, Inr serverip, Inr bootdelay) \<Rightarrow>
          if \<not> webflash_ipv4_valid ipaddr \<or> \<not> netmask_accepted netmask \<or>
             (c0 serverip \<noteq> NUL \<and> \<not> webflash_ipv4_valid serverip)
          then (- EINVAL, webflash_error P ctx ''400 Bad Request'' ''invalid IPv4 setting'')
          else if \<not> bootdelay_accepted bootdelay
          then (- EINVAL, webflash_error P ctx ''400 Bad Request'' ''bootdelay must be 0 to 30'')
          else
            let (ret, ctx) = env_commit P ctx
                  [(''ipaddr'', Some (cstr ipaddr)), (''netmask'', Some (cstr netmask)),
                   (''serverip'', if c0 serverip \<noteq> NUL then Some (cstr serverip) else None),
                   (''bootdelay'', Some (cstr bootdelay))]
            in if ret \<noteq> 0
               then (- EIO, webflash_error P ctx ''500 Internal Server Error'' ''failed to save environment'')
               else webflash_ok P ctx ''saved; reboot to apply''
      | _ \<Rightarrow> (- EINVAL, webflash_error P ctx ''400 Bad Request'' ''missing environment field''))"

definition webflash_handle_body ::
    "('c, 'w) platform \<Rightarrow> ('c, 'w) webflash_ctx \<Rightarrow> int \<times> ('c, 'w) webflash_ctx" where
  "webflash_handle_body P ctx =
     (case action ctx of
        WEBFLASH_ACTION_ENV_SAVE \<Rightarrow> webflash_env_save P ctx
      | _ \<Rightarrow> (- EINVAL, webflash_error P ctx ''400 Bad Request'' ''invalid action body''))"

definition webflash_store_body ::
    "('c, 'w) platform \<Rightarrow> ('c, 'w) webflash_ctx \<Rightarrow> byte list \<Rightarrow> int \<times> ('c, 'w) webflash_ctx" where
  "webflash_store_body P ctx data =
     (let remaining = content_length ctx - of_nat (body_len ctx)
      in if unat remaining < length data \<or> WEBFLASH_BODY_SIZE \<le> body_len ctx + length data
         then (- EFBIG, webflash_error P ctx ''413 Content Too Large'' ''action body too large'')
         else let ctx = ctx\<lparr>body := body ctx @ map char_of_byte data\<rparr>
              in if of_nat (body_len ctx) = content_length ctx then webflash_handle_body P ctx
                 else (0, ctx))"

definition webflash_prepare_body ::
    "('c, 'w) platform \<Rightarrow> ('c, 'w) webflash_ctx \<Rightarrow> webflash_action \<Rightarrow> int \<times> ('c, 'w) webflash_ctx" where
  "webflash_prepare_body P ctx act =
     (let r = webflash_get_content_length ctx
      in if webflash_operation_blocked ctx
         then (- EBUSY, webflash_error P ctx ''409 Conflict'' ''device busy'')
         else if r = Inl (- ENOENT)
         then (- ENOENT, webflash_error P ctx ''411 Length Required'' ''Content-Length required'')
         else case r of
           Inl _ \<Rightarrow> (- EFBIG, webflash_error P ctx ''413 Content Too Large'' ''invalid action body size'')
         | Inr sz \<Rightarrow>
             if sz = 0 \<or> of_nat WEBFLASH_BODY_SIZE \<le> sz
             then (- EFBIG, webflash_error P ctx ''413 Content Too Large'' ''invalid action body size'')
             else (0, ctx\<lparr>content_length := sz, body := [], action := act,
                          rx_state := WEBFLASH_RX_BODY\<rparr>))"

section \<open>Backups\<close>

definition download_header :: "string \<Rightarrow> nat \<Rightarrow> string" where
  "download_header filename n =
     ''HTTP/1.0 200 OK'' @ CRLF @
     ''Content-Type: application/octet-stream'' @ CRLF @
     ''Content-Disposition: attachment; filename=\"'' @ filename @ ''\"'' @ CRLF @
     ''Content-Length: '' @ fmt_u n @ CRLF @
     ''Cache-Control: no-store'' @ CRLF @
     ''Connection: close'' @ CRLF @ CRLF"

text \<open>The part after the choice of the range: the header, then the stream from the flash.\<close>

definition download_range ::
    "('c, 'w) platform \<Rightarrow> ('c, 'w) webflash_ctx \<Rightarrow> u32 \<Rightarrow> u32 \<Rightarrow> string \<Rightarrow> int \<times> ('c, 'w) webflash_ctx" where
  "download_range P ctx off sz filename =
     (let hdr = download_header filename (unat sz)
      in if 256 \<le> length hdr then (- EOVERFLOW, ctx)
         else case client ctx of
           None \<Rightarrow> (0, ctx\<lparr>faulted := True\<rparr>)
         | Some pcb \<Rightarrow>
             let (err, w) = tcp_write P (world ctx) pcb (bytes_of hdr); ctx = ctx\<lparr>world := w\<rparr>
             in if err \<noteq> ERR_OK then (- EIO, webflash_abort_client P ctx)
                else
                  let ctx = ctx\<lparr>rx_state := WEBFLASH_RX_REPLIED,
                                reply_pending := of_nat (length hdr) + sz,
                                stream_offset := off,
                                stream_remaining := sz,
                                stream_memory := Null,
                                stream_from_flash := True,
                                stream_active := True,
                                output_pending := False,
                                close_pending := False\<rparr>;
                      (ret, ctx) = webflash_stream_fill P ctx
                  in if ret \<noteq> 0 then (- EIO, webflash_abort_client P ctx)
                     else let (err, w) = tcp_output P (world ctx) pcb; ctx = ctx\<lparr>world := w\<rparr>
                          in if err = ERR_MEM then (0, ctx\<lparr>output_pending := True\<rparr>)
                             else if err \<noteq> ERR_OK then (- EIO, webflash_abort_client P ctx)
                             else (0, ctx))"

definition webflash_start_download ::
    "('c, 'w) platform \<Rightarrow> ('c, 'w) webflash_ctx \<Rightarrow> string \<Rightarrow> int \<times> ('c, 'w) webflash_ctx" where
  "webflash_start_download P ctx name =
     (if webflash_operation_blocked ctx
      then (- EBUSY, webflash_error P ctx ''409 Conflict'' ''busy flashing'')
      else if strcmp name ''fullflash'' = 0
      then download_range P ctx 0 (sf_size P (flash ctx)) ''hlk-7621a-fullflash.bin''
      else case webflash_partition_find name of
             None \<Rightarrow> (- ENOENT, webflash_error P ctx ''404 Not Found'' ''unknown backup partition'')
           | Some p \<Rightarrow> download_range P ctx (p_offset p) (p_size p) (p_filename p))"

section \<open>Information pages\<close>

text \<open>
  The hex dump: \<open>remaining\<close> is the room left in the reply, and the loop stops when it is 3
  or less.  The text so far and the number of bytes printed.
\<close>

fun eeprom_hex :: "byte list \<Rightarrow> string \<Rightarrow> nat \<Rightarrow> string \<times> nat" where
  "eeprom_hex [] acc i = (acc, i)"
| "eeprom_hex (b # bs) acc i =
     (if 3 < WEBFLASH_REPLY_SIZE - length acc then eeprom_hex bs (acc @ fmt_x 2 (unat b)) (Suc i)
      else (acc, i))"

definition webflash_eeprom_info ::
    "('c, 'w) platform \<Rightarrow> ('c, 'w) webflash_ctx \<Rightarrow> int \<times> ('c, 'w) webflash_ctx" where
  "webflash_eeprom_info P ctx =
     (if webflash_operation_blocked ctx
      then (- EBUSY, webflash_error P ctx ''409 Conflict'' ''busy flashing'')
      else
        let (ret, ctx) = flash_read_io P ctx
              (CONFIG_WEBFLASH_FACTORY_OFFSET + of_nat WEBFLASH_EEPROM_OFFSET) WEBFLASH_EEPROM_SIZE
        in if ret \<noteq> 0
           then (- EIO, webflash_error P ctx ''500 Internal Server Error'' ''EEPROM read failed'')
           else
             let n = unat WEBFLASH_EEPROM_SIZE;
                 (s, i) = eeprom_hex (take n (io_buf ctx))
                            (''{\"ok\":true,\"size\":'' @ fmt_u n @ '',\"hex\":\"'') 0
             in if i \<noteq> n \<or> WEBFLASH_REPLY_SIZE - length s < 3
                then (- EOVERFLOW, webflash_error P (set_reply ctx s) ''500 Internal Server Error''
                        ''EEPROM too large'')
                else webflash_reply P (set_reply ctx (s @ ''\"}'')) ''200 OK'' ''application/json''
                       (Reply_buf 0))"

definition info_partition :: "string \<Rightarrow> u32 \<Rightarrow> u32 \<Rightarrow> bool \<Rightarrow> string" where
  "info_partition name off sz protected =
     ''{\"name\":\"'' @ name @ ''\",\"offset\":'' @ fmt_u (unat off) @ '',\"size\":'' @ fmt_u (unat sz) @
     '',\"protected\":'' @ json_bool protected @ ''}''"

definition webflash_info ::
    "('c, 'w) platform \<Rightarrow> ('c, 'w) webflash_ctx \<Rightarrow> int \<times> ('c, 'w) webflash_ctx" where
  "webflash_info P ctx =
     (let ip = (case env_get P (world ctx) ''ipaddr'' of None \<Rightarrow> ''0.0.0.0'' | Some s \<Rightarrow> s)
      in webflash_reply P
           (set_reply ctx
              (''{\"product\":\"'' @ CONFIG_WEBFLASH_PRODUCT_NAME @
               ''\",\"version\":\"'' @ version_string P @
               ''\",\"device\":\"'' @ CONFIG_WEBFLASH_DEVICE_ID @ ''\",\"ip\":\"'' @ ip @
               ''\",\"load_address\":\"0x'' @ fmt_x 8 (unat (load_addr ctx)) @
               ''\",\"max_upload\":'' @ fmt_u (unat CONFIG_WEBFLASH_FIRMWARE_SIZE) @
               '',\"flash_size\":'' @ fmt_u (unat (sf_size P (flash ctx))) @
               '',\"erase_size\":'' @ fmt_u (unat (sf_sector_size P (flash ctx))) @
               '',\"partitions\":['' @
               info_partition ''uboot'' CONFIG_WEBFLASH_UBOOT_OFFSET CONFIG_WEBFLASH_UBOOT_SIZE True @ '','' @
               info_partition ''environment'' CONFIG_WEBFLASH_ENV_OFFSET CONFIG_WEBFLASH_ENV_SIZE True @ '','' @
               info_partition ''factory'' CONFIG_WEBFLASH_FACTORY_OFFSET CONFIG_WEBFLASH_FACTORY_SIZE True @
               '','' @
               info_partition ''firmware'' CONFIG_WEBFLASH_FIRMWARE_OFFSET CONFIG_WEBFLASH_FIRMWARE_SIZE False @
               '']}''))
           ''200 OK'' ''application/json'' (Reply_buf 0))"

definition webflash_job_status ::
    "('c, 'w) platform \<Rightarrow> ('c, 'w) webflash_ctx \<Rightarrow> int \<times> ('c, 'w) webflash_ctx" where
  "webflash_job_status P ctx =
     (let j = job ctx;
          tot = (if phase j = WEBFLASH_PHASE_ERASING then erase_size j else write_size j)
      in webflash_reply P
           (set_reply ctx
              (''{\"ok\":true,\"active\":'' @ json_bool (webflash_job_active ctx) @
               '',\"phase\":\"'' @ webflash_phase_name (phase j) @
               ''\",\"progress\":'' @ fmt_u (unat (webflash_job_progress j)) @
               '',\"processed\":'' @ fmt_u (unat (processed j)) @
               '',\"total\":'' @ fmt_u (unat tot) @
               '',\"target\":\"'' @ (case part j of None \<Rightarrow> '''' | Some p \<Rightarrow> p_name p) @
               ''\",\"error\":\"'' @ job_error j @
               ''\",\"reboot_pending\":'' @ json_bool (reboot_pending ctx) @ ''}''))
           ''200 OK'' ''application/json'' (Reply_buf 0))"

definition env_text :: "('c, 'w) platform \<Rightarrow> ('c, 'w) webflash_ctx \<Rightarrow> string \<Rightarrow> string" where
  "env_text P ctx name = (case env_get P (world ctx) name of None \<Rightarrow> '''' | Some s \<Rightarrow> s)"

definition webflash_env_info ::
    "('c, 'w) platform \<Rightarrow> ('c, 'w) webflash_ctx \<Rightarrow> int \<times> ('c, 'w) webflash_ctx" where
  "webflash_env_info P ctx =
     webflash_reply P
       (set_reply ctx
          (''{\"ipaddr\":\"'' @ env_text P ctx ''ipaddr'' @ ''\",\"netmask\":\"'' @ env_text P ctx ''netmask'' @
           ''\",\"serverip\":\"'' @ env_text P ctx ''serverip'' @
           ''\",\"bootdelay\":\"'' @ env_text P ctx ''bootdelay'' @ ''\"}''))
       ''200 OK'' ''application/json'' (Reply_buf 0)"

definition webflash_env_reset ::
    "('c, 'w) platform \<Rightarrow> ('c, 'w) webflash_ctx \<Rightarrow> int \<times> ('c, 'w) webflash_ctx" where
  "webflash_env_reset P ctx =
     (if webflash_operation_blocked ctx
      then (- EBUSY, webflash_error P ctx ''409 Conflict'' ''device busy'')
      else
        let (ret, ctx) = webflash_check_confirmation P ctx ''RESET-ENVIRONMENT''
        in if ret \<noteq> 0 then (- EACCES, ctx)
           else
             let w = env_set_default P (world ctx);
                 (ret, w, c) = env_save P w (flash ctx);
                 ctx = ctx\<lparr>world := w, flash := c\<rparr>
             in if ret \<noteq> 0
                then (- EIO, webflash_error P ctx ''500 Internal Server Error'' ''save default env failed'')
                else webflash_ok P ctx ''default env restored'')"

section \<open>Dispatch\<close>

abbreviation request_is :: "('c, 'w) webflash_ctx \<Rightarrow> string \<Rightarrow> string \<Rightarrow> bool" where
  "request_is ctx method path \<equiv> webflash_path_is (header ctx) (header_len ctx) method path"

text \<open>The two chains that pick the backup and the upload target of a request.\<close>

definition backup_target :: "('c, 'w) webflash_ctx \<Rightarrow> string option" where
  "backup_target ctx =
     (if request_is ctx ''GET'' ''/api/backup/uboot'' then Some ''uboot''
      else if request_is ctx ''GET'' ''/api/backup/environment'' then Some ''environment''
      else if request_is ctx ''GET'' ''/api/backup/factory'' then Some ''factory''
      else if request_is ctx ''GET'' ''/api/backup/firmware'' then Some ''firmware''
      else if request_is ctx ''GET'' ''/api/backup/fullflash'' then Some ''fullflash''
      else None)"

definition upload_target :: "('c, 'w) webflash_ctx \<Rightarrow> webflash_partition option" where
  "upload_target ctx =
     (if request_is ctx ''POST'' ''/api/upload/firmware'' then webflash_partition_find ''firmware''
      else if request_is ctx ''POST'' ''/api/upload/uboot'' then webflash_partition_find ''uboot''
      else if request_is ctx ''POST'' ''/api/upload/environment'' then webflash_partition_find ''environment''
      else if request_is ctx ''POST'' ''/api/upload/factory'' then webflash_partition_find ''factory''
      else if request_is ctx ''POST'' ''/api/upload/eeprom'' then webflash_partition_find ''eeprom''
      else if request_is ctx ''POST'' ''/api/upload/ram'' then webflash_partition_find ''ram''
      else None)"

definition boot_ram ::
    "('c, 'w) platform \<Rightarrow> ('c, 'w) webflash_ctx \<Rightarrow> int \<times> ('c, 'w) webflash_ctx" where
  "boot_ram P ctx =
     (if webflash_operation_blocked ctx
      then (- EBUSY, webflash_error P ctx ''409 Conflict'' ''device busy'')
      else if (case upload_part ctx of
                 None \<Rightarrow> True
               | Some p \<Rightarrow> \<not> upload_valid ctx \<or> \<not> has_flag p WEBFLASH_PART_RAM)
      then (- EINVAL, webflash_error P ctx ''409 Conflict'' ''no RAM image ready'')
      else webflash_ok P (ctx\<lparr>boot_addr := completed_addr ctx, boot_start := get_timer ctx 0,
                              boot_pending := True\<rparr>) ''booting RAM image'')"

definition flash_request ::
    "('c, 'w) platform \<Rightarrow> ('c, 'w) webflash_ctx \<Rightarrow> int \<times> ('c, 'w) webflash_ctx" where
  "flash_request P ctx =
     webflash_start_uploaded_flash P
       (case webflash_header_value ctx ''X-Keep-Config'' 4 of
          Inl _ \<Rightarrow> ctx
        | Inr keep \<Rightarrow> ctx\<lparr>keep_config := (c0 keep = CHR ''1'')\<rparr>)"

definition reboot_request ::
    "('c, 'w) platform \<Rightarrow> ('c, 'w) webflash_ctx \<Rightarrow> int \<times> ('c, 'w) webflash_ctx" where
  "reboot_request P ctx =
     (if webflash_job_active ctx \<or> phase (job ctx) = WEBFLASH_PHASE_ERROR
      then (- EBUSY, webflash_error P ctx ''409 Conflict'' ''reboot blocked after failed flash'')
      else if reboot_pending ctx then webflash_ok P ctx ''reboot pending''
      else webflash_ok P (webflash_schedule_reboot ctx) ''device will reboot shortly'')"

definition webflash_handle_headers ::
    "('c, 'w) platform \<Rightarrow> ('c, 'w) webflash_ctx \<Rightarrow> int \<times> ('c, 'w) webflash_ctx" where
  "webflash_handle_headers P ctx =
     (if request_is ctx ''GET'' ''/'' \<or> request_is ctx ''GET'' ''/index.html''
      then webflash_reply P ctx ''200 OK'' ''text/html; charset=utf-8'' (Index_html 0)
      else if request_is ctx ''GET'' ''/api/info'' then webflash_info P ctx
      else if request_is ctx ''GET'' ''/api/eeprom'' then webflash_eeprom_info P ctx
      else if request_is ctx ''GET'' ''/api/job'' then webflash_job_status P ctx
      else if request_is ctx ''GET'' ''/api/env'' then webflash_env_info P ctx
      else case backup_target ctx of
        Some name \<Rightarrow> webflash_start_download P ctx name
      | None \<Rightarrow>
          (case upload_target ctx of
             Some p \<Rightarrow> webflash_prepare_upload P ctx p
           | None \<Rightarrow>
               if request_is ctx ''POST'' ''/api/boot-ram'' then boot_ram P ctx
               else if request_is ctx ''POST'' ''/api/flash'' then flash_request P ctx
               else if request_is ctx ''POST'' ''/api/factory-reset'' then webflash_factory_reset P ctx
               else if request_is ctx ''POST'' ''/api/env''
               then webflash_prepare_body P ctx WEBFLASH_ACTION_ENV_SAVE
               else if request_is ctx ''POST'' ''/api/env/reset'' then webflash_env_reset P ctx
               else if request_is ctx ''POST'' ''/api/reboot'' then reboot_request P ctx
               else (- ENOENT, webflash_error P ctx ''404 Not Found'' ''not found'')))"

section \<open>Callbacks\<close>

definition header_complete :: "string \<Rightarrow> bool" where
  "header_complete hdr \<longleftrightarrow> 4 \<le> length hdr \<and> memcmp (drop (length hdr - 4) hdr) (CRLF @ CRLF) 4 = 0"

fun webflash_consume ::
    "('c, 'w) platform \<Rightarrow> ('c, 'w) webflash_ctx \<Rightarrow> byte list \<Rightarrow> int \<times> ('c, 'w) webflash_ctx" where
  "webflash_consume P ctx [] = (0, ctx)"
| "webflash_consume P ctx (b # bs) =
     (if rx_state ctx = WEBFLASH_RX_REPLIED then (0, ctx)
      else if rx_state ctx = WEBFLASH_RX_UPLOAD then webflash_store_upload P ctx (b # bs)
      else if rx_state ctx = WEBFLASH_RX_BODY then webflash_store_body P ctx (b # bs)
      else if WEBFLASH_HEADER_SIZE \<le> header_len ctx + 1
      then (- E2BIG, webflash_error P ctx ''431 Request Header Fields Too Large'' ''HTTP header too large'')
      else let ctx = ctx\<lparr>header := header ctx @ [char_of_byte b]\<rparr>
           in if header_complete (header ctx)
              then let r = webflash_handle_headers P ctx
                   in if fst r \<noteq> 0 then (- EINVAL, snd r) else webflash_consume P (snd r) bs
              else webflash_consume P ctx bs)"

text \<open>The payloads of the \<open>pbuf\<close> chain, while there is a client.\<close>

fun recv_chain ::
    "('c, 'w) platform \<Rightarrow> ('c, 'w) webflash_ctx \<Rightarrow> byte list list \<Rightarrow> ('c, 'w) webflash_ctx" where
  "recv_chain P ctx [] = ctx"
| "recv_chain P ctx (q # qs) =
     (if client ctx = None then ctx
      else let r = webflash_consume P ctx q
           in if fst r \<noteq> 0 then snd r else recv_chain P (snd r) qs)"

definition webflash_recv ::
    "('c, 'w) platform \<Rightarrow> ('c, 'w) webflash_ctx \<Rightarrow> nat \<Rightarrow> byte list list option \<Rightarrow> err_t \<Rightarrow>
       err_t \<times> ('c, 'w) webflash_ctx" where
  "webflash_recv P ctx pcb p err =
     (case p of
        None \<Rightarrow> let (close_err, ctx) = webflash_try_close_client P ctx
                in (if close_err = ERR_ABRT then ERR_ABRT else ERR_OK, ctx)
      | Some qs \<Rightarrow>
          if err \<noteq> ERR_OK then (ERR_ABRT, webflash_abort_client P ctx)
          else let ctx = ctx\<lparr>last_activity := get_timer ctx 0\<rparr>;
                   ctx = ctx\<lparr>world := tcp_recved P (world ctx) pcb (length (concat qs))\<rparr>;
                   ctx = recv_chain P ctx qs
               in (if client_aborted ctx then ERR_ABRT else ERR_OK, ctx))"

text \<open>The tail of \<open>webflash_sent\<close>, once the stream has been refilled.\<close>

definition sent_close ::
    "('c, 'w) platform \<Rightarrow> ('c, 'w) webflash_ctx \<Rightarrow> err_t \<times> ('c, 'w) webflash_ctx" where
  "sent_close P ctx =
     (if rx_state ctx \<noteq> WEBFLASH_RX_REPLIED \<or> reply_pending ctx \<noteq> 0 \<or> stream_active ctx
      then (ERR_OK, ctx)
      else let (err, ctx) = webflash_try_close_client P (ctx\<lparr>output_pending := False, close_pending := True\<rparr>)
           in (if err = ERR_ABRT then ERR_ABRT else ERR_OK, ctx))"

definition webflash_sent ::
    "('c, 'w) platform \<Rightarrow> ('c, 'w) webflash_ctx \<Rightarrow> nat \<Rightarrow> u16 \<Rightarrow> err_t \<times> ('c, 'w) webflash_ctx" where
  "webflash_sent P ctx pcb len =
     (if Some pcb \<noteq> client ctx then (ERR_VAL, ctx)
      else
        let ctx = ctx\<lparr>last_activity := get_timer ctx 0,
                      reply_pending := (if reply_pending ctx \<le> ucast len then 0
                                        else reply_pending ctx - ucast len)\<rparr>
        in if stream_active ctx
           then let (ret, ctx) = webflash_stream_fill P ctx
                in if ret \<noteq> 0 then (ERR_ABRT, webflash_abort_client P ctx)
                   else let (err, w) = tcp_output P (world ctx) pcb; ctx = ctx\<lparr>world := w\<rparr>
                        in if err = ERR_MEM then sent_close P (ctx\<lparr>output_pending := True\<rparr>)
                           else if err \<noteq> ERR_OK then (ERR_ABRT, webflash_abort_client P ctx)
                           else sent_close P ctx
           else sent_close P ctx)"

definition webflash_tcp_error :: "('c, 'w) webflash_ctx \<Rightarrow> ('c, 'w) webflash_ctx" where
  "webflash_tcp_error ctx =
     (if rx_state ctx = WEBFLASH_RX_UPLOAD then ctx\<lparr>upload_valid := False\<rparr> else ctx)
       \<lparr>client := None, reply_pending := 0, stream_active := False, output_pending := False,
        close_pending := False\<rparr>"

text \<open>The last two tests of \<open>webflash_poll\<close>: a pending close, then the idle time.\<close>

definition poll_idle ::
    "('c, 'w) platform \<Rightarrow> ('c, 'w) webflash_ctx \<Rightarrow> err_t \<times> ('c, 'w) webflash_ctx" where
  "poll_idle P ctx =
     (if WEBFLASH_IDLE_TIMEOUT_MS < get_timer ctx (last_activity ctx)
      then (ERR_ABRT, webflash_abort_client P ctx) else (ERR_OK, ctx))"

definition poll_close ::
    "('c, 'w) platform \<Rightarrow> ('c, 'w) webflash_ctx \<Rightarrow> err_t \<times> ('c, 'w) webflash_ctx" where
  "poll_close P ctx =
     (if close_pending ctx \<and> reply_pending ctx = 0
      then let (err, ctx) = webflash_try_close_client P ctx
           in if err = ERR_OK then (ERR_OK, ctx)
              else if err = ERR_ABRT then (ERR_ABRT, ctx)
              else poll_idle P ctx
      else poll_idle P ctx)"

definition webflash_poll ::
    "('c, 'w) platform \<Rightarrow> ('c, 'w) webflash_ctx \<Rightarrow> nat \<Rightarrow> err_t \<times> ('c, 'w) webflash_ctx" where
  "webflash_poll P ctx pcb =
     (let (ret, ctx) = (if stream_active ctx then webflash_stream_fill P ctx else (0, ctx))
      in if ret \<noteq> 0 then (ERR_ABRT, webflash_abort_client P ctx)
         else if output_pending ctx \<or> stream_active ctx
         then let (err, w) = tcp_output P (world ctx) pcb; ctx = ctx\<lparr>world := w\<rparr>
              in if err = ERR_OK then poll_close P (ctx\<lparr>output_pending := False\<rparr>)
                 else if err \<noteq> ERR_MEM then (ERR_ABRT, webflash_abort_client P ctx)
                 else poll_close P ctx
         else poll_close P ctx)"

definition webflash_accept ::
    "('c, 'w) platform \<Rightarrow> ('c, 'w) webflash_ctx \<Rightarrow> nat option \<Rightarrow> err_t \<Rightarrow> err_t \<times> ('c, 'w) webflash_ctx" where
  "webflash_accept P ctx new err =
     (case new of
        None \<Rightarrow> (ERR_VAL, ctx)
      | Some pcb \<Rightarrow>
          if err \<noteq> ERR_OK then (ERR_VAL, ctx)
          else if client ctx \<noteq> None then (ERR_ABRT, ctx\<lparr>world := tcp_abort P (world ctx) pcb\<rparr>)
          else
            let w = tcp_setprio_min P (world ctx) pcb;
                w = tcp_nagle_disable P w pcb;
                w = tcp_arg P w pcb True;
                w = tcp_recv P w pcb True;
                w = tcp_sent P w pcb True;
                w = tcp_err P w pcb True;
                w = tcp_poll P w pcb True 4
            in (ERR_OK,
                ctx\<lparr>client := Some pcb, header := [], body := [], upload_size := 0, content_length := 0,
                    last_activity := get_timer ctx 0, rx_state := WEBFLASH_RX_HEADERS,
                    action := WEBFLASH_ACTION_NONE, keep_config := False, client_aborted := False,
                    reply_pending := 0, stream_remaining := 0, stream_memory := Null,
                    stream_active := False, stream_from_flash := False, output_pending := False,
                    close_pending := False, world := w\<rparr>))"

section \<open>Start\<close>

definition webflash_start_listener ::
    "('c, 'w) platform \<Rightarrow> ('c, 'w) webflash_ctx \<Rightarrow> int \<times> ('c, 'w) webflash_ctx" where
  "webflash_start_listener P ctx =
     (case tcp_new P (world ctx) of
        (None, w) \<Rightarrow> (- ENOMEM, ctx\<lparr>world := w\<rparr>)
      | (Some pcb, w) \<Rightarrow>
          let (err, w) = tcp_bind P w pcb 80
          in if err \<noteq> ERR_OK then (- EADDRINUSE, ctx\<lparr>world := tcp_abort P w pcb\<rparr>)
             else case tcp_listen_with_backlog P w pcb 1 of
               (None, w) \<Rightarrow> (- ENOMEM, ctx\<lparr>listener := None, world := tcp_abort P w pcb\<rparr>)
             | (Some l, w) \<Rightarrow>
                 let w = tcp_arg P w l True; w = tcp_accept P w l True
                 in (0, ctx\<lparr>listener := Some l, world := w\<rparr>))"

definition apply_default :: "('c, 'w) platform \<Rightarrow> 'w \<Rightarrow> string \<Rightarrow> string \<Rightarrow> bool \<times> 'w" where
  "apply_default P w name v =
     (if (case env_get P w name of None \<Rightarrow> True | Some s \<Rightarrow> c0 s = NUL)
      then if c0 v = NUL then (False, w)
           else let (ret, w) = env_set P w name (Some v) in (ret = 0, w)
      else (True, w))"

definition webflash_apply_default_network :: "('c, 'w) platform \<Rightarrow> 'w \<Rightarrow> int \<times> 'w" where
  "webflash_apply_default_network P w =
     (let (good, w) = apply_default P w ''ipaddr'' CONFIG_WEBFLASH_DEFAULT_IPADDR
      in if \<not> good then (- EINVAL, w)
         else let (good, w) = apply_default P w ''netmask'' CONFIG_WEBFLASH_DEFAULT_NETMASK
              in if \<not> good then (- EINVAL, w) else (0, w))"

text \<open>
  What the start-up calls return: the probe of the SPI flash, the two allocations (with the
  bytes they happen to hold), the Ethernet start and the network interface.
\<close>

record 'c startup =
  probe_ret :: int
  probe_dev :: "'c option"
  io_mem :: "byte list option"
  factory_mem :: "byte list option"
  eth_start_ret :: int
  netif_ok :: bool

definition layout_ok :: "u32 \<Rightarrow> bool" where
  "layout_ok sector \<longleftrightarrow>
     \<not> (CONFIG_WEBFLASH_ENV_OFFSET < CONFIG_WEBFLASH_UBOOT_OFFSET + CONFIG_WEBFLASH_UBOOT_SIZE \<or>
        CONFIG_WEBFLASH_FACTORY_OFFSET < CONFIG_WEBFLASH_ENV_OFFSET + CONFIG_WEBFLASH_ENV_SIZE \<or>
        CONFIG_WEBFLASH_FIRMWARE_OFFSET < CONFIG_WEBFLASH_FACTORY_OFFSET + CONFIG_WEBFLASH_FACTORY_SIZE \<or>
        CONFIG_WEBFLASH_ENV_SIZE < CONFIG_ENV_SIZE \<or>
        CONFIG_WEBFLASH_UBOOT_OFFSET mod sector \<noteq> 0 \<or> CONFIG_WEBFLASH_UBOOT_SIZE mod sector \<noteq> 0 \<or>
        CONFIG_WEBFLASH_ENV_OFFSET mod sector \<noteq> 0 \<or> CONFIG_WEBFLASH_ENV_SIZE mod sector \<noteq> 0 \<or>
        CONFIG_WEBFLASH_FACTORY_OFFSET mod sector \<noteq> 0 \<or> CONFIG_WEBFLASH_FACTORY_SIZE mod sector \<noteq> 0 \<or>
        CONFIG_WEBFLASH_FIRMWARE_OFFSET mod sector \<noteq> 0 \<or> CONFIG_WEBFLASH_FIRMWARE_SIZE mod sector \<noteq> 0)"

definition webflash_init_flash ::
    "('c, 'w) platform \<Rightarrow> 'c startup \<Rightarrow> ('c, 'w) webflash_ctx \<Rightarrow> int \<times> ('c, 'w) webflash_ctx" where
  "webflash_init_flash P S ctx =
     (if probe_ret S \<noteq> 0 then (probe_ret S, ctx)
      else case probe_dev S of
        None \<Rightarrow> (- ENOSPC, ctx)
      | Some c \<Rightarrow>
          let ctx = ctx\<lparr>flash := c\<rparr>;
              required = (ucast CONFIG_WEBFLASH_FIRMWARE_OFFSET :: u64) + ucast CONFIG_WEBFLASH_FIRMWARE_SIZE
          in if sf_sector_size P c = 0 \<or> ucast (sf_size P c) < required then (- ENOSPC, ctx)
             else if \<not> layout_ok (sf_sector_size P c) then (- EINVAL, ctx)
             else case io_mem S of
               None \<Rightarrow> (- ENOMEM, ctx)
             | Some io \<Rightarrow>
                 (case factory_mem S of
                    None \<Rightarrow> (- ENOMEM, ctx\<lparr>io_buf := []\<rparr>)
                  | Some fb \<Rightarrow> (0, ctx\<lparr>io_buf := io, factory_buf := fb\<rparr>)))"

section \<open>The command\<close>

text \<open>
  The main loop.  One turn takes the events \<open>net_lwip_rx\<close> delivers, the time they arrive
  at, and whether a \<open>bootm\<close> in this turn returns.  A turn ends with the console running,
  the board reset, or the kernel started.
\<close>

datatype event =
    Ev_accept "nat option" err_t
  | Ev_recv nat "byte list list option" err_t
  | Ev_sent nat u16
  | Ev_err
  | Ev_poll nat

fun handle_event :: "('c, 'w) platform \<Rightarrow> ('c, 'w) webflash_ctx \<Rightarrow> event \<Rightarrow> ('c, 'w) webflash_ctx" where
  "handle_event P ctx (Ev_accept new err) = snd (webflash_accept P ctx new err)"
| "handle_event P ctx (Ev_recv pcb p err) = snd (webflash_recv P ctx pcb p err)"
| "handle_event P ctx (Ev_sent pcb len) = snd (webflash_sent P ctx pcb len)"
| "handle_event P ctx Ev_err = webflash_tcp_error ctx"
| "handle_event P ctx (Ev_poll pcb) = snd (webflash_poll P ctx pcb)"

record turn =
  t_now :: ulong
  t_events :: "event list"
  t_bootm_returns :: bool

datatype ('c, 'w) outcome =
    Running "('c, 'w) webflash_ctx"
  | Reset "('c, 'w) webflash_ctx"
  | Booted ulong "('c, 'w) webflash_ctx"

definition turn_job :: "('c, 'w) platform \<Rightarrow> ('c, 'w) webflash_ctx \<Rightarrow> turn \<Rightarrow> ('c, 'w) webflash_ctx" where
  "turn_job P ctx t =
     (let ctx = fold (\<lambda>e ctx. handle_event P ctx e) (t_events t) (ctx\<lparr>now := t_now t\<rparr>)
      in if webflash_job_active ctx then webflash_job_step P ctx else ctx)"

definition turn_reboot :: "('c, 'w) webflash_ctx \<Rightarrow> ('c, 'w) outcome" where
  "turn_reboot ctx =
     (if reboot_pending ctx \<and> WEBFLASH_REBOOT_DELAY_MS \<le> get_timer ctx (reboot_start ctx)
      then Reset ctx else Running ctx)"

definition main_turn :: "('c, 'w) platform \<Rightarrow> ('c, 'w) webflash_ctx \<Rightarrow> turn \<Rightarrow> ('c, 'w) outcome" where
  "main_turn P ctx t =
     (let ctx = turn_job P ctx t
      in if boot_pending ctx \<and> WEBFLASH_BOOT_DELAY_MS \<le> get_timer ctx (boot_start ctx)
         then let ctx = webflash_abort_client P ctx
              in if t_bootm_returns t then turn_reboot (ctx\<lparr>boot_pending := False\<rparr>)
                 else Booted (boot_addr ctx) ctx
         else turn_reboot ctx)"

fun main_loop :: "('c, 'w) platform \<Rightarrow> ('c, 'w) webflash_ctx \<Rightarrow> turn list \<Rightarrow> ('c, 'w) outcome" where
  "main_loop P ctx [] = Running ctx"
| "main_loop P ctx (t # ts) =
     (case main_turn P ctx t of Running ctx \<Rightarrow> main_loop P ctx ts | out \<Rightarrow> out)"

text \<open>\<open>struct webflash_ctx ctx = {}\<close>, on a machine with the given flash, RAM and world.\<close>

definition ctx_zero :: "'c \<Rightarrow> 'w \<Rightarrow> lmb \<Rightarrow> (u32 \<Rightarrow> byte) \<Rightarrow> ('c, 'w) webflash_ctx" where
  "ctx_zero c w m r =
     \<lparr>listener = None, client = None, flash = c, upload_part = None, job = job_zero, load_addr = 0,
      upload_size = 0, content_length = 0, last_activity = 0, completed_addr = 0, completed_size = 0,
      reply_pending = 0, reboot_start = 0, upload_crc = 0, image_kind = WEBFLASH_IMAGE_OPENWRT,
      stream_offset = 0, stream_remaining = 0, stream_memory = Null, rx_state = WEBFLASH_RX_HEADERS,
      action = WEBFLASH_ACTION_NONE, upload_valid = False, client_aborted = False,
      output_pending = False, close_pending = False, stream_active = False, stream_from_flash = False,
      reboot_pending = False, keep_config = False, boot_pending = False, boot_addr = 0, boot_start = 0,
      io_buf = [], header = [], reply = [], body = [], factory_buf = [], upload_detail = [],
      ram = r, now = 0, lmb_map = m, world = w, faulted = False\<rparr>"

text \<open>The way to the main loop: the context, or the status the command returns at once.\<close>

definition webflash_setup ::
    "('c, 'w) platform \<Rightarrow> 'c startup \<Rightarrow> ('c, 'w) webflash_ctx \<Rightarrow> string option \<Rightarrow>
       int \<times> ('c, 'w) webflash_ctx" where
  "webflash_setup P S ctx arg =
     (let ctx = ctx\<lparr>load_addr := env_get_hex P (world ctx) ''loadaddr'' CONFIG_SYS_LOAD_ADDR\<rparr>;
          (usage, ctx) = (case arg of
                            None \<Rightarrow> (False, ctx)
                          | Some s \<Rightarrow> let (a, fin) = hextoul s in (c0 fin \<noteq> NUL, ctx\<lparr>load_addr := a\<rparr>))
      in if usage then (-1, ctx)
         else let (ret, w) = webflash_apply_default_network P (world ctx); ctx = ctx\<lparr>world := w\<rparr>
              in if ret \<noteq> 0 then (1, ctx)
                 else let (ret, ctx) = webflash_init_flash P S ctx
                      in if ret \<noteq> 0 \<or> eth_start_ret S \<noteq> 0 \<or> \<not> netif_ok S then (1, ctx)
                         else let (ret, ctx) = webflash_start_listener P ctx
                              in (if ret \<noteq> 0 then 1 else 0, ctx))"

text \<open>The way out after Ctrl-C: the client is aborted and the listener closed.\<close>

definition webflash_shutdown ::
    "('c, 'w) platform \<Rightarrow> ('c, 'w) webflash_ctx \<Rightarrow> ('c, 'w) webflash_ctx" where
  "webflash_shutdown P ctx =
     (let ctx = webflash_abort_client P ctx
      in case listener ctx of
           None \<Rightarrow> ctx
         | Some l \<Rightarrow>
             let w = tcp_arg P (world ctx) l False;
                 w = tcp_accept P w l False;
                 (err, w) = tcp_close P w l
             in ctx\<lparr>world := (if err \<noteq> ERR_OK then tcp_abort P w l else w)\<rparr>)"

text \<open>
  \<open>do_webflash\<close> with the turns up to Ctrl-C; \<open>CMD_RET_SUCCESS\<close> is 0, \<open>CMD_RET_FAILURE\<close>
  1 and \<open>CMD_RET_USAGE\<close> -1.
\<close>

definition do_webflash ::
    "('c, 'w) platform \<Rightarrow> 'c startup \<Rightarrow> ('c, 'w) webflash_ctx \<Rightarrow> string list \<Rightarrow> turn list \<Rightarrow>
       int \<times> ('c, 'w) outcome" where
  "do_webflash P S ctx argv ts =
     (if 2 < length argv then (-1, Running ctx)
      else let (ret, ctx) = webflash_setup P S ctx (if length argv = 2 then Some (argv ! 1) else None)
           in if ret \<noteq> 0 then (ret, Running ctx)
              else case main_loop P ctx ts of
                     Running ctx \<Rightarrow> (0, Running (webflash_shutdown P ctx))
                   | out \<Rightarrow> (0, out))"

end
