(* ===== verification/WebflashFrame.thy ===== *)
theory WebflashFrame
  imports WebflashServer
begin

text \<open>
  What a reply leaves alone.  Every handler ends in a reply or an error reply, so the
  component proofs need to know once what those may change: the connection and the stream,
  nothing of the job, the upload, the RAM or the flash.  \<open>keeps\<close> is that relation between the
  context before and after; \<open>keeps_io\<close> allows for a stream that reads the flash.
\<close>

section \<open>The frame of a reply\<close>

definition keeps_io :: "('c, 'w) webflash_ctx \<Rightarrow> ('c, 'w) webflash_ctx \<Rightarrow> bool" where
  "keeps_io a b \<longleftrightarrow>
     listener b = listener a \<and> upload_part b = upload_part a \<and> job b = job a \<and>
     load_addr b = load_addr a \<and> upload_size b = upload_size a \<and>
     content_length b = content_length a \<and> last_activity b = last_activity a \<and>
     completed_addr b = completed_addr a \<and> completed_size b = completed_size a \<and>
     reboot_start b = reboot_start a \<and> upload_crc b = upload_crc a \<and> image_kind b = image_kind a \<and>
     action b = action a \<and> reboot_pending b = reboot_pending a \<and> keep_config b = keep_config a \<and>
     boot_pending b = boot_pending a \<and> boot_addr b = boot_addr a \<and> boot_start b = boot_start a \<and>
     header b = header a \<and> body b = body a \<and> factory_buf b = factory_buf a \<and>
     upload_detail b = upload_detail a \<and> ram b = ram a \<and> now b = now a \<and> lmb_map b = lmb_map a \<and>
     (upload_valid b \<longrightarrow> upload_valid a)"

definition keeps :: "('c, 'w) webflash_ctx \<Rightarrow> ('c, 'w) webflash_ctx \<Rightarrow> bool" where
  "keeps a b \<longleftrightarrow> keeps_io a b \<and> flash b = flash a \<and> io_buf b = io_buf a"

lemma keeps_io_refl [simp]: "keeps_io a a"
  by (simp add: keeps_io_def)

lemma keeps_io_trans [trans]: "keeps_io a b \<Longrightarrow> keeps_io b c \<Longrightarrow> keeps_io a c"
  by (simp add: keeps_io_def)

lemma keeps_refl [simp]: "keeps a a"
  by (simp add: keeps_def)

lemma keeps_trans [trans]: "keeps a b \<Longrightarrow> keeps b c \<Longrightarrow> keeps a c"
  by (auto simp: keeps_def intro: keeps_io_trans)

lemma keeps_imp_io: "keeps a b \<Longrightarrow> keeps_io a b"
  by (simp add: keeps_def)

section \<open>Connection and stream\<close>

lemma abort_keeps: "keeps ctx (webflash_abort_client P ctx)"
  by (auto simp: webflash_abort_client_def webflash_detach_client_def keeps_def keeps_io_def Let_def
      split: option.splits)

lemma abort_fields [simp]:
  "rx_state (webflash_abort_client P ctx) = rx_state ctx"
  "reply (webflash_abort_client P ctx) = reply ctx"
  "client (webflash_abort_client P ctx) = None"
  "stream_active (webflash_abort_client P ctx) = stream_active ctx"
  "faulted (webflash_abort_client P ctx) = faulted ctx"
  by (auto simp: webflash_abort_client_def webflash_detach_client_def Let_def split: option.splits)

lemma close_keeps: "keeps ctx (snd (webflash_try_close_client P ctx))"
proof -
  have *: "keeps ctx (webflash_abort_client P (ctx\<lparr>world := w\<rparr>))" for w
    using abort_keeps [of "ctx\<lparr>world := w\<rparr>" P] by (simp add: keeps_def keeps_io_def)
  show ?thesis
    by (auto simp: webflash_try_close_client_def Let_def * split: option.splits prod.splits)
      (auto simp: keeps_def keeps_io_def)
qed

lemma close_fields [simp]:
  "rx_state (snd (webflash_try_close_client P ctx)) = rx_state ctx"
  "reply (snd (webflash_try_close_client P ctx)) = reply ctx"
  by (auto simp: webflash_try_close_client_def Let_def split: option.splits prod.splits)

lemma stream_turn_frame:
  assumes "stream_turn P ctx = Inl (ret, ctx') \<or> stream_turn P ctx = Inr ctx'"
  shows "keeps_io ctx ctx'" and "\<not> stream_from_flash ctx \<Longrightarrow> keeps ctx ctx'"
    and "rx_state ctx' = rx_state ctx" and "reply ctx' = reply ctx" and "client ctx' = client ctx"
    and "stream_from_flash ctx' = stream_from_flash ctx" and "stream_active ctx' = stream_active ctx"
  using assms
  by (auto simp: stream_turn_def flash_read_io_def keeps_def keeps_io_def Let_def
      split: if_splits option.splits prod.splits)

lemma stream_loop_frame:
  "keeps_io ctx (snd (stream_loop P ctx)) \<and> (\<not> stream_from_flash ctx \<longrightarrow> keeps ctx (snd (stream_loop P ctx))) \<and>
   rx_state (snd (stream_loop P ctx)) = rx_state ctx \<and> reply (snd (stream_loop P ctx)) = reply ctx \<and>
   client (snd (stream_loop P ctx)) = client ctx"
proof (induction P ctx rule: stream_loop.induct)
  case (1 P ctx)
  show ?case
  proof (cases "stream_turn P ctx")
    case (Inl r)
    obtain ret ctx' where "r = (ret, ctx')" by fastforce
    with Inl stream_turn_frame [of P ctx ret ctx'] show ?thesis by (simp add: stream_loop.simps [of P ctx])
  next
    case (Inr ctx')
    note f = stream_turn_frame [of P ctx _ ctx', OF disjI2 [OF Inr]]
    have eq: "stream_loop P ctx = stream_loop P ctx'" using Inr by (simp add: stream_loop.simps [of P ctx])
    show ?thesis unfolding eq using "1" [OF Inr] f
      by (auto intro: keeps_io_trans keeps_trans)
  qed
qed

lemma fill_frame:
  "keeps_io ctx (snd (webflash_stream_fill P ctx))"
  "\<not> stream_from_flash ctx \<Longrightarrow> keeps ctx (snd (webflash_stream_fill P ctx))"
  "rx_state (snd (webflash_stream_fill P ctx)) = rx_state ctx"
  "reply (snd (webflash_stream_fill P ctx)) = reply ctx"
  "client (snd (webflash_stream_fill P ctx)) = client ctx"
proof -
  obtain ret ctx' where l: "stream_loop P ctx = (ret, ctx')" by fastforce
  have k: "keeps_io ctx' (if stream_remaining ctx' = 0 then ctx'\<lparr>stream_active := False\<rparr> else ctx')"
    "keeps ctx' (if stream_remaining ctx' = 0 then ctx'\<lparr>stream_active := False\<rparr> else ctx')"
    by (simp_all add: keeps_def keeps_io_def)
  note f = stream_loop_frame [of ctx P, unfolded l snd_conv]
  show "keeps_io ctx (snd (webflash_stream_fill P ctx))"
    using f k(1) keeps_io_trans by (auto simp: webflash_stream_fill_def l split: if_splits)
  show "\<not> stream_from_flash ctx \<Longrightarrow> keeps ctx (snd (webflash_stream_fill P ctx))"
    using f k(2) keeps_trans by (auto simp: webflash_stream_fill_def l split: if_splits)
  show "rx_state (snd (webflash_stream_fill P ctx)) = rx_state ctx"
    "reply (snd (webflash_stream_fill P ctx)) = reply ctx"
    "client (snd (webflash_stream_fill P ctx)) = client ctx"
    using f by (simp_all add: webflash_stream_fill_def l)
qed

section \<open>Replies\<close>

lemma reply_keeps: "keeps ctx (snd (webflash_reply P ctx status ctype ptr))"
proof (cases "client ctx")
  case None
  then show ?thesis by (simp add: webflash_reply_def)
next
  case (Some pcb)
  have ab: "keeps ctx (webflash_abort_client P c)" if "keeps ctx c" for c
    using that abort_keeps keeps_trans by blast
  have fl: "keeps ctx (snd (webflash_stream_fill P c))" if "keeps ctx c" "\<not> stream_from_flash c" for c
    using that fill_frame(2) keeps_trans by blast
  have upd: "keeps ctx (c\<lparr>world := w\<rparr>)" "keeps ctx (c\<lparr>world := w, output_pending := b\<rparr>)"
    if "keeps ctx c" for c w b
    using that by (simp_all add: keeps_def keeps_io_def)
  have upd2: "keeps ctx (ctx\<lparr>world := w, rx_state := x, reply_pending := n, output_pending := False,
      close_pending := False, stream_memory := m, stream_remaining := r, stream_from_flash := False,
      stream_active := a\<rparr>)" for w x n m r a
    by (simp add: keeps_def keeps_io_def)
  have fl2: "keeps ctx c'" if "webflash_stream_fill P (ctx\<lparr>world := w, rx_state := x, reply_pending := n,
      output_pending := False, close_pending := False, stream_memory := m, stream_remaining := r,
      stream_from_flash := False, stream_active := a\<rparr>) = (ret, c')" for w x n m r a ret c'
  proof -
    let ?c = "ctx\<lparr>world := w, rx_state := x, reply_pending := n,
      output_pending := False, close_pending := False, stream_memory := m, stream_remaining := r,
      stream_from_flash := False, stream_active := a\<rparr>"
    have "keeps ctx (snd (webflash_stream_fill P ?c))" by (rule fl [OF upd2]) simp
    with that show ?thesis by simp
  qed
  show ?thesis using Some
    by (auto simp: webflash_reply_def Let_def upd ab fl2 split: prod.splits)
qed

lemma set_reply_keeps: "keeps ctx (set_reply ctx s)"
  by (simp add: keeps_def keeps_io_def set_reply_def)

lemma set_reply_fields [simp]:
  "rx_state (set_reply ctx s) = rx_state ctx" "client (set_reply ctx s) = client ctx"
  "reply (set_reply ctx s) = take 1535 s" "header (set_reply ctx s) = header ctx"
  "upload_valid (set_reply ctx s) = upload_valid ctx" "faulted (set_reply ctx s) = faulted ctx"
  by (simp_all add: set_reply_def snprintf_store_def)

lemma error_keeps: "keeps ctx (webflash_error P ctx status message)"
  unfolding webflash_error_def by (rule keeps_trans [OF set_reply_keeps reply_keeps])

lemma ok_keeps: "keeps ctx (snd (webflash_ok P ctx message))"
  unfolding webflash_ok_def by (rule keeps_trans [OF set_reply_keeps reply_keeps])

text \<open>A reply is over: either the client is gone, or nothing more is read from it.\<close>

lemma reply_rx:
  assumes "webflash_reply P ctx status ctype ptr = (ret, ctx')"
  shows "rx_state ctx' = rx_state ctx \<or> rx_state ctx' = WEBFLASH_RX_REPLIED"
    and "client ctx' = None \<or> rx_state ctx' = WEBFLASH_RX_REPLIED"
    and "ret = 0 \<Longrightarrow> rx_state ctx' = WEBFLASH_RX_REPLIED" and "reply ctx' = reply ctx"
proof -
  have fl: "rx_state c' = rx_state c \<and> reply c' = reply c"
    if "webflash_stream_fill P c = (r, c')" for c r c'
    using that fill_frame(3,4) [of P c] by simp_all
  show "rx_state ctx' = rx_state ctx \<or> rx_state ctx' = WEBFLASH_RX_REPLIED"
    "client ctx' = None \<or> rx_state ctx' = WEBFLASH_RX_REPLIED"
    "ret = 0 \<Longrightarrow> rx_state ctx' = WEBFLASH_RX_REPLIED" "reply ctx' = reply ctx"
    using assms by (auto simp: webflash_reply_def Let_def dest!: fl split: option.splits prod.splits if_splits)
qed

lemma reply_snd:
  "rx_state (snd (webflash_reply P ctx status ctype ptr)) = rx_state ctx \<or>
   rx_state (snd (webflash_reply P ctx status ctype ptr)) = WEBFLASH_RX_REPLIED"
  "client (snd (webflash_reply P ctx status ctype ptr)) = None \<or>
   rx_state (snd (webflash_reply P ctx status ctype ptr)) = WEBFLASH_RX_REPLIED"
  "reply (snd (webflash_reply P ctx status ctype ptr)) = reply ctx"
  using reply_rx [of P ctx status ctype ptr] by (metis prod.collapse)+

lemma error_rx:
  "rx_state (webflash_error P ctx status message) = rx_state ctx \<or>
   rx_state (webflash_error P ctx status message) = WEBFLASH_RX_REPLIED"
  "client (webflash_error P ctx status message) = None \<or>
   rx_state (webflash_error P ctx status message) = WEBFLASH_RX_REPLIED"
  "length (reply (webflash_error P ctx status message)) < 1536"
  using reply_snd [of P "set_reply ctx _"] by (auto simp: webflash_error_def)

lemma ok_rx:
  "rx_state (snd (webflash_ok P ctx message)) = rx_state ctx \<or>
   rx_state (snd (webflash_ok P ctx message)) = WEBFLASH_RX_REPLIED"
  "client (snd (webflash_ok P ctx message)) = None \<or>
   rx_state (snd (webflash_ok P ctx message)) = WEBFLASH_RX_REPLIED"
  "length (reply (snd (webflash_ok P ctx message))) < 1536"
  using reply_snd [of P "set_reply ctx _"] by (auto simp: webflash_ok_def)

text \<open>
  \<open>talks a b\<close>: from \<open>a\<close> to \<open>b\<close> the console only talked.  Every handler is a change of the
  context followed by such a step.
\<close>

definition talks :: "('c, 'w) webflash_ctx \<Rightarrow> ('c, 'w) webflash_ctx \<Rightarrow> bool" where
  "talks a b \<longleftrightarrow> keeps a b \<and> (rx_state b = rx_state a \<or> rx_state b = WEBFLASH_RX_REPLIED) \<and>
     (length (reply a) < 1536 \<longrightarrow> length (reply b) < 1536)"

text \<open>The same for a step that may also read the flash into the I/O buffer.\<close>

definition talks_io :: "('c, 'w) webflash_ctx \<Rightarrow> ('c, 'w) webflash_ctx \<Rightarrow> bool" where
  "talks_io a b \<longleftrightarrow> keeps_io a b \<and> (rx_state b = rx_state a \<or> rx_state b = WEBFLASH_RX_REPLIED) \<and>
     (length (reply a) < 1536 \<longrightarrow> length (reply b) < 1536) \<and>
     (length (io_buf a) = 65536 \<longrightarrow> length (io_buf b) = 65536)"

lemma talks_io_refl [simp]: "talks_io a a"
  by (simp add: talks_io_def)

lemma talks_io_trans [trans]: "talks_io a b \<Longrightarrow> talks_io b c \<Longrightarrow> talks_io a c"
  by (auto simp: talks_io_def intro: keeps_io_trans)

lemma talks_imp_io: "talks a b \<Longrightarrow> talks_io a b"
  by (auto simp: talks_def talks_io_def keeps_def)

text \<open>
  A driver that stores no more than it was asked for, whatever its status: what the I/O
  buffer relies on.
\<close>

definition read_bounded :: "('c, 'w) platform \<Rightarrow> bool" where
  "read_bounded P \<longleftrightarrow> (\<forall>c off len. length (fst (snd (sf_read (sf_ops P) c off len))) \<le> unat len)"

lemma flash_read_talks:
  assumes "read_bounded P" and "unat len \<le> 65536"
  shows "talks_io ctx (snd (flash_read_io P ctx off len))"
proof -
  have "length (fst (snd (sf_read (sf_ops P) (flash ctx) off len))) \<le> 65536"
    using assms by (meson le_trans read_bounded_def)
  then show ?thesis
    by (auto simp: flash_read_io_def talks_io_def keeps_io_def split: prod.splits)
qed

lemma talks_refl [simp]: "talks a a"
  by (simp add: talks_def)

lemma talks_trans [trans]: "talks a b \<Longrightarrow> talks b c \<Longrightarrow> talks a c"
  by (auto simp: talks_def intro: keeps_trans)

lemma talks_simps [simp, intro]:
  "talks ctx (webflash_error P ctx status message)"
  "talks ctx (snd (webflash_ok P ctx message))"
  "talks ctx (snd (webflash_reply P ctx status ctype ptr))"
  "talks ctx (snd (webflash_reply P (set_reply ctx s) status ctype ptr))"
  "talks ctx (webflash_abort_client P ctx)"
  "talks ctx (snd (webflash_try_close_client P ctx))"
  "talks ctx (ctx\<lparr>world := w\<rparr>)"
  subgoal using error_keeps [of ctx P status message] error_rx [of P ctx status message] by (simp add: talks_def)
  subgoal using ok_keeps [of ctx P message] ok_rx [of P ctx message] by (simp add: talks_def)
  subgoal using reply_keeps [of ctx P status ctype ptr] reply_snd [of P ctx status ctype ptr] by (simp add: talks_def)
  subgoal using keeps_trans [OF set_reply_keeps [of ctx s] reply_keeps [of _ P status ctype ptr]]
      reply_snd [of P "set_reply ctx s" status ctype ptr]
    by (auto simp: talks_def)
  subgoal using abort_keeps [of ctx P] by (simp add: talks_def)
  subgoal using close_keeps [of ctx P] by (simp add: talks_def)
  subgoal by (simp add: talks_def keeps_def keeps_io_def)
  done

lemma confirmation_talks: "talks ctx (snd (webflash_check_confirmation P ctx expected))"
  by (auto simp: webflash_check_confirmation_def Let_def)

lemma confirmation_0:
  assumes "fst (webflash_check_confirmation P ctx expected) = 0"
  shows "snd (webflash_check_confirmation P ctx expected) = ctx"
    and "\<exists>v. webflash_header_value ctx ''X-Safeboot-Confirm'' 40 = Inr v \<and> cstr v = cstr expected"
  using assms
  by (auto simp: webflash_check_confirmation_def Let_def strcmp_0_iff split: if_splits sum.splits)

end
