(* ===== verification/WebflashInv.thy ===== *)
theory WebflashInv
  imports WebflashFrame
begin

text \<open>
  The invariant of the console: the buffers stay in their bounds, an upload stays in its
  range of RAM, nothing is received for the upload or the settings while a job runs, and an
  upload marked valid is the one in RAM.  It is kept by every handler (here) and holds of
  every reachable context (theory Console).
\<close>

section \<open>The invariant\<close>

definition buffers_ok :: "('c, 'w) webflash_ctx \<Rightarrow> bool" where
  "buffers_ok ctx \<longleftrightarrow>
     length (header ctx) < WEBFLASH_HEADER_SIZE \<and> length (body ctx) < WEBFLASH_BODY_SIZE \<and>
     length (reply ctx) < WEBFLASH_REPLY_SIZE \<and> length (upload_detail ctx) < 128 \<and>
     length (job_error (job ctx)) < 96 \<and> length (io_buf ctx) = 65536 \<and> length (factory_buf ctx) = 65536"

definition all_partitions :: "webflash_partition list" where
  "all_partitions = webflash_eeprom_partition # webflash_ram_partition # webflash_partitions"

definition size_fits :: "webflash_partition \<Rightarrow> ulong \<Rightarrow> bool" where
  "size_fits p sz \<longleftrightarrow>
     p \<in> set all_partitions \<and> sz \<noteq> 0 \<and> sz \<le> p_size p \<and> (has_flag p WEBFLASH_PART_PROTECTED \<longrightarrow> sz = p_size p)"

text \<open>\<open>sz\<close> bytes from the load address are RAM, and the address does not wrap.\<close>

definition in_ram :: "('c, 'w) platform \<Rightarrow> ulong \<Rightarrow> ulong \<Rightarrow> bool" where
  "in_ram P addr sz \<longleftrightarrow>
     ram_base P \<le> addr \<and> unat addr + unat sz < 2 ^ 32 \<and> addr + sz \<le> ram_base P + ram_size P"

definition upload_ok :: "('c, 'w) platform \<Rightarrow> ('c, 'w) webflash_ctx \<Rightarrow> bool" where
  "upload_ok P ctx \<longleftrightarrow>
     (rx_state ctx = WEBFLASH_RX_UPLOAD \<longrightarrow>
        (\<exists>p. upload_part ctx = Some p \<and> size_fits p (content_length ctx)) \<and>
        in_ram P (load_addr ctx) (content_length ctx) \<and>
        upload_size ctx \<le> content_length ctx \<and>
        (upload_size ctx \<noteq> content_length ctx \<longrightarrow> \<not> upload_valid ctx))"

definition session_ok :: "('c, 'w) webflash_ctx \<Rightarrow> bool" where
  "session_ok ctx \<longleftrightarrow>
     (rx_state ctx = WEBFLASH_RX_UPLOAD \<or> rx_state ctx = WEBFLASH_RX_BODY \<longrightarrow>
        phase (job ctx) = WEBFLASH_PHASE_IDLE \<or> phase (job ctx) = WEBFLASH_PHASE_ERROR) \<and>
     (phase (job ctx) = WEBFLASH_PHASE_DONE \<longrightarrow> reboot_pending ctx)"

definition upload_bytes :: "('c, 'w) webflash_ctx \<Rightarrow> byte list" where
  "upload_bytes ctx = mem_bytes (map_sysmem ctx (completed_addr ctx)) 0 (unat (completed_size ctx))"

definition valid_ok :: "('c, 'w) webflash_ctx \<Rightarrow> bool" where
  "valid_ok ctx \<longleftrightarrow>
     (upload_valid ctx \<longrightarrow>
        (\<exists>p. upload_part ctx = Some p \<and> size_fits p (completed_size ctx)) \<and>
        upload_crc ctx = crc32 0 0 (upload_bytes ctx) \<and>
        fst (webflash_validate_upload ctx) = 0)"

definition console_inv :: "('c, 'w) platform \<Rightarrow> ('c, 'w) webflash_ctx \<Rightarrow> bool" where
  "console_inv P ctx \<longleftrightarrow> buffers_ok ctx \<and> upload_ok P ctx \<and> session_ok ctx \<and> valid_ok ctx"

lemmas console_inv_defs =
  console_inv_def buffers_ok_def upload_ok_def session_ok_def valid_ok_def

section \<open>Steps that only talk\<close>

text \<open>The verdict on an upload depends on its partition, its place and size, and the RAM.\<close>

lemma set_detail_fields [simp]:
  "upload_valid (set_detail ctx s) = upload_valid ctx" "upload_crc (set_detail ctx s) = upload_crc ctx"
  "upload_part (set_detail ctx s) = upload_part ctx" "completed_size (set_detail ctx s) = completed_size ctx"
  "completed_addr (set_detail ctx s) = completed_addr ctx" "ram (set_detail ctx s) = ram ctx"
  by (simp_all add: set_detail_def)

lemma validate_parts_cong:
  assumes "completed_addr b = completed_addr a" "completed_size b = completed_size a"
  shows "fst (validate_eeprom b d) = fst (validate_eeprom a d)"
    and "fst (validate_ram b d) = fst (validate_ram a d)"
    and "fst (validate_env b p d) = fst (validate_env a p d)"
    and "fst (validate_raw b p d) = fst (validate_raw a p d)"
  by (simp_all only: validate_eeprom_def validate_ram_def validate_env_def validate_raw_def Let_def
      assms fst_conv if_distrib [of fst])

lemma validate_cong:
  assumes "upload_part b = upload_part a" "completed_addr b = completed_addr a"
    "completed_size b = completed_size a" "ram b = ram a"
  shows "fst (webflash_validate_upload b) = fst (webflash_validate_upload a)"
proof (cases "upload_part a")
  case None
  with assms show ?thesis by (simp add: webflash_validate_upload_def)
next
  case (Some p)
  have m: "map_sysmem b addr = map_sysmem a addr" for addr by (simp add: map_sysmem_def assms)
  let ?upd = "\<lambda>c. c\<lparr>upload_crc := crc32_wd (completed_addr a) 0
    (mem_bytes (map_sysmem a (completed_addr a)) 0 (unat (completed_size a))) (64 * 1024)\<rparr>"
  have "completed_addr (?upd b) = completed_addr (?upd a)" "completed_size (?upd b) = completed_size (?upd a)"
    using assms by simp_all
  from validate_parts_cong [OF this] Some show ?thesis
    by (simp only: webflash_validate_upload_def Let_def assms m split_def option.case fst_conv
        if_distrib [of fst])
qed

lemma upload_bytes_cong:
  "completed_addr b = completed_addr a \<Longrightarrow> completed_size b = completed_size a \<Longrightarrow> ram b = ram a \<Longrightarrow>
     upload_bytes b = upload_bytes a"
  by (simp add: upload_bytes_def map_sysmem_def)

lemma talks_io_inv:
  assumes "talks_io a b" and "console_inv P a"
  shows "console_inv P b"
proof -
  have k: "keeps_io a b" and rx: "rx_state b = rx_state a \<or> rx_state b = WEBFLASH_RX_REPLIED"
    using assms(1) by (auto simp: talks_io_def)
  have eq: "upload_part b = upload_part a" "completed_addr b = completed_addr a"
    "completed_size b = completed_size a" "ram b = ram a" "upload_crc b = upload_crc a"
    using k by (simp_all add: keeps_io_def)
  have "buffers_ok b" using assms by (auto simp: talks_io_def keeps_io_def console_inv_def buffers_ok_def)
  moreover have "upload_ok P b" using assms(2) k rx by (auto simp: keeps_io_def console_inv_def upload_ok_def)
  moreover have "session_ok b" using assms(2) k rx by (auto simp: keeps_io_def console_inv_def session_ok_def)
  moreover have "valid_ok b"
    using assms(2) k validate_cong [OF eq(1-4)] upload_bytes_cong [OF eq(2-4)] eq
    by (auto simp: keeps_io_def console_inv_def valid_ok_def)
  ultimately show ?thesis by (simp add: console_inv_def)
qed

lemma talks_inv: "talks a b \<Longrightarrow> console_inv P a \<Longrightarrow> console_inv P b"
  by (rule talks_io_inv [OF talks_imp_io])

text \<open>Fields the invariant does not mention.\<close>

lemma console_inv_upd [simp]:
  "console_inv P (ctx\<lparr>world := w\<rparr>) = console_inv P ctx"
  "console_inv P (ctx\<lparr>keep_config := b\<rparr>) = console_inv P ctx"
  "console_inv P (ctx\<lparr>last_activity := n\<rparr>) = console_inv P ctx"
  "console_inv P (ctx\<lparr>reply_pending := n\<rparr>) = console_inv P ctx"
  "console_inv P (ctx\<lparr>now := n\<rparr>) = console_inv P ctx"
  "console_inv P (ctx\<lparr>boot_addr := n\<rparr>) = console_inv P ctx"
  "console_inv P (ctx\<lparr>boot_start := n\<rparr>) = console_inv P ctx"
  "console_inv P (ctx\<lparr>boot_pending := b\<rparr>) = console_inv P ctx"
  "console_inv P (ctx\<lparr>reboot_start := n\<rparr>) = console_inv P ctx"
  "console_inv P (ctx\<lparr>output_pending := b\<rparr>) = console_inv P ctx"
  "console_inv P (ctx\<lparr>close_pending := b\<rparr>) = console_inv P ctx"
  "console_inv P (ctx\<lparr>lmb_map := m\<rparr>) = console_inv P ctx"
  "console_inv P (ctx\<lparr>faulted := b\<rparr>) = console_inv P ctx"
  "console_inv P (ctx\<lparr>flash := c\<rparr>) = console_inv P ctx"
  "console_inv P (ctx\<lparr>action := act\<rparr>) = console_inv P ctx"
  "console_inv P (ctx\<lparr>listener := l\<rparr>) = console_inv P ctx"
  by (simp_all add: console_inv_defs upload_bytes_def map_sysmem_def
      validate_cong [of "ctx\<lparr>world := w\<rparr>" ctx] validate_cong [of "ctx\<lparr>keep_config := b\<rparr>" ctx]
      validate_cong [of "ctx\<lparr>last_activity := n\<rparr>" ctx] validate_cong [of "ctx\<lparr>reply_pending := n\<rparr>" ctx]
      validate_cong [of "ctx\<lparr>now := n\<rparr>" ctx] validate_cong [of "ctx\<lparr>boot_addr := n\<rparr>" ctx]
      validate_cong [of "ctx\<lparr>boot_start := n\<rparr>" ctx] validate_cong [of "ctx\<lparr>boot_pending := b\<rparr>" ctx]
      validate_cong [of "ctx\<lparr>reboot_start := n\<rparr>" ctx] validate_cong [of "ctx\<lparr>output_pending := b\<rparr>" ctx]
      validate_cong [of "ctx\<lparr>close_pending := b\<rparr>" ctx] validate_cong [of "ctx\<lparr>lmb_map := m\<rparr>" ctx]
      validate_cong [of "ctx\<lparr>faulted := b\<rparr>" ctx] validate_cong [of "ctx\<lparr>flash := c\<rparr>" ctx]
      validate_cong [of "ctx\<lparr>action := act\<rparr>" ctx] validate_cong [of "ctx\<lparr>listener := l\<rparr>" ctx])

lemma console_inv_reboot: "console_inv P ctx \<Longrightarrow> console_inv P (webflash_schedule_reboot ctx)"
proof -
  assume "console_inv P ctx"
  moreover have "fst (webflash_validate_upload (webflash_schedule_reboot ctx)) = fst (webflash_validate_upload ctx)"
    by (rule validate_cong) (simp_all add: webflash_schedule_reboot_def)
  ultimately show ?thesis
    by (auto simp: console_inv_defs webflash_schedule_reboot_def upload_bytes_def map_sysmem_def)
qed

lemma console_inv_job:
  assumes "console_inv P ctx" and "rx_state ctx \<noteq> WEBFLASH_RX_UPLOAD" "rx_state ctx \<noteq> WEBFLASH_RX_BODY"
    and "phase j = WEBFLASH_PHASE_DONE \<longrightarrow> reboot_pending ctx" and "length (job_error j) < 96"
  shows "console_inv P (ctx\<lparr>job := j\<rparr>)"
  using assms validate_cong [of "ctx\<lparr>job := j\<rparr>" ctx]
  by (simp add: console_inv_defs upload_bytes_def map_sysmem_def)

section \<open>Uploads\<close>

lemma partition_find_member: "webflash_partition_find name = Some p \<Longrightarrow> p \<in> set all_partitions"
  by (auto simp: webflash_partition_find_def all_partitions_def find_Some_iff split: if_splits)

lemma job_zero_simps [simp]:
  "phase job_zero = WEBFLASH_PHASE_IDLE" "mode job_zero = WEBFLASH_JOB_NONE" "job_error job_zero = []"
  "processed job_zero = 0" "source_buffer job_zero = Null" "write_size job_zero = 0" "part job_zero = None"
  by (simp_all add: job_zero_def)

lemma range_valid_talks: "talks (ctx\<lparr>lmb_map := m\<rparr>) ctx' \<Longrightarrow> console_inv P ctx \<Longrightarrow> console_inv P ctx'"
  using talks_inv [of "ctx\<lparr>lmb_map := m\<rparr>" ctx' P] by simp

lemma range_valid_in_ram:
  assumes "webflash_range_valid P ctx sz = (True, ctx')"
  shows "in_ram P (load_addr ctx) sz" and "\<exists>m. ctx' = ctx\<lparr>lmb_map := m\<rparr>"
    and "fst (lmb_read_check (lmb_map ctx) (load_addr ctx) sz) = 0"
  using assms u32_add_le_self [of "load_addr ctx" sz]
  by (auto simp: webflash_range_valid_def in_ram_def Let_def not_less split: if_splits prod.splits)

lemma range_valid_False:
  assumes "webflash_range_valid P ctx sz = (False, ctx')"
  shows "\<exists>m. ctx' = ctx\<lparr>lmb_map := m\<rparr>"
proof -
  let ?b = "load_addr ctx + sz < load_addr ctx \<or> (let e = ram_base P + ram_size P
    in e < ram_base P \<or> load_addr ctx < ram_base P \<or> e < load_addr ctx + sz)"
  have "snd (webflash_range_valid P ctx sz) =
      ctx\<lparr>lmb_map := if ?b then lmb_map ctx else snd (lmb_read_check (lmb_map ctx) (load_addr ctx) sz)\<rparr>"
    by (simp add: webflash_range_valid_def Let_def split_def)
  then have "ctx' = ctx\<lparr>lmb_map := if ?b then lmb_map ctx else snd (lmb_read_check (lmb_map ctx) (load_addr ctx) sz)\<rparr>"
    using assms by simp
  then show ?thesis by (rule exI)
qed

lemma prepare_upload_cases:
  obtains m where "talks (ctx\<lparr>lmb_map := m\<rparr>) (snd (webflash_prepare_upload P ctx p))"
      "fst (webflash_prepare_upload P ctx p) \<noteq> 0"
  | sz m where "webflash_prepare_upload P ctx p =
        (0, ctx\<lparr>lmb_map := m, job := job_zero, upload_part := Some p, image_kind := WEBFLASH_IMAGE_FOREIGN,
             content_length := sz, upload_size := 0, completed_size := 0, upload_valid := False,
             upload_detail := [], rx_state := WEBFLASH_RX_UPLOAD\<rparr>)"
      "sz \<noteq> 0" "sz \<le> p_size p" "has_flag p WEBFLASH_PART_PROTECTED \<longrightarrow> sz = p_size p"
      "in_ram P (load_addr ctx) sz" "\<not> webflash_operation_blocked ctx"
      "fst (lmb_read_check (lmb_map ctx) (load_addr ctx) sz) = 0"
proof -
  note err = that(1) [of "lmb_map ctx"]
  show thesis
  proof (cases "webflash_operation_blocked ctx")
    case True
    then show ?thesis by (intro err) (simp_all add: webflash_prepare_upload_def)
  next
    case nb: False
    show ?thesis
    proof (cases "webflash_get_content_length ctx")
      case (Inl e)
      then show ?thesis using nb
        by (cases "e = - ENOENT"; intro err) (simp_all add: webflash_prepare_upload_def)
    next
      case (Inr sz)
      show ?thesis
      proof (cases "sz = 0 \<or> p_size p < sz \<or> (has_flag p WEBFLASH_PART_PROTECTED \<and> sz \<noteq> p_size p)")
        case True
        then show ?thesis using nb Inr by (intro err) (simp_all add: webflash_prepare_upload_def)
      next
        case fits: False
        obtain valid ctx1 where v: "webflash_range_valid P ctx sz = (valid, ctx1)" by fastforce
        show ?thesis
        proof (cases valid)
          case False
          with v have "webflash_range_valid P ctx sz = (False, ctx1)" by simp
          then obtain m where m: "ctx1 = ctx\<lparr>lmb_map := m\<rparr>" using range_valid_False by blast
          from False v nb Inr fits have "fst (webflash_prepare_upload P ctx p) \<noteq> 0"
            "snd (webflash_prepare_upload P ctx p) = webflash_error P ctx1 ''409 Conflict'' ''upload too large''"
            by (auto simp: webflash_prepare_upload_def)
          then show ?thesis using that(1) [of m] talks_simps(1) unfolding m by metis
        next
          case True
          with v have "webflash_range_valid P ctx sz = (True, ctx1)" by simp
          then obtain m where m: "ctx1 = ctx\<lparr>lmb_map := m\<rparr>" "in_ram P (load_addr ctx) sz"
              "fst (lmb_read_check (lmb_map ctx) (load_addr ctx) sz) = 0"
            using range_valid_in_ram by blast
          show ?thesis
            by (rule that(2) [where sz = sz and m = m]) (use True v nb Inr fits m in \<open>auto simp: webflash_prepare_upload_def\<close>)
        qed
      qed
    qed
  qed
qed

lemma prepare_upload_inv:
  assumes "console_inv P ctx" and "p \<in> set all_partitions"
  shows "console_inv P (snd (webflash_prepare_upload P ctx p))"
proof (cases rule: prepare_upload_cases [where P = P and ctx = ctx and p = p])
  case (1 m)
  then show ?thesis using range_valid_talks assms(1) by blast
next
  case (2 sz m)
  with assms show ?thesis
    by (auto simp: console_inv_defs size_fits_def)
qed

text \<open>Judging an upload sets its class and the message.\<close>

definition judged :: "('c, 'w) webflash_ctx \<Rightarrow> ('c, 'w) webflash_ctx \<Rightarrow> bool" where
  "judged a b \<longleftrightarrow> (\<exists>k d. length d < 128 \<and> b = a\<lparr>image_kind := k, upload_detail := d\<rparr>)"

lemma judged_set_detail [simp]:
  "judged a (set_detail a s)" "judged a (set_detail (a\<lparr>image_kind := k\<rparr>) s)"
  "judged a (set_detail (a\<lparr>image_kind := k', image_kind := k\<rparr>) s)"
proof -
  have *: "judged a (set_detail (a\<lparr>image_kind := k\<rparr>) s)" for k
    unfolding judged_def set_detail_def snprintf_store_def
    by (rule exI [of _ k], rule exI [of _ "take (128 - 1) s"]) simp
  from * [of "image_kind a"] show "judged a (set_detail a s)" by simp
  from * show "judged a (set_detail (a\<lparr>image_kind := k\<rparr>) s)"
    "judged a (set_detail (a\<lparr>image_kind := k', image_kind := k\<rparr>) s)" by simp_all
qed

lemma validate_parts_judged:
  "judged ctx (snd (validate_eeprom ctx d))" "judged ctx (snd (validate_ram ctx d))"
  "judged ctx (snd (validate_env ctx p d))" "judged ctx (snd (validate_raw ctx p d))"
  by (simp_all add: validate_eeprom_def validate_ram_def validate_env_def validate_raw_def
      protected_error_def Let_def)

lemma validate_firmware_judged: "judged ctx (webflash_validate_firmware ctx d)"
  by (simp add: webflash_validate_firmware_def Let_def split_def)

lemma validate_upload_form:
  assumes "upload_part ctx = Some p" and "webflash_validate_upload ctx = (ret, ctx')"
  shows "\<exists>k d. length d < 128 \<and> ctx' = ctx\<lparr>upload_crc := crc32 0 0 (upload_bytes ctx), image_kind := k,
    upload_detail := d, upload_valid := (ret = 0)\<rparr>"
proof -
  let ?c = "ctx\<lparr>upload_crc := crc32 0 0 (upload_bytes ctx)\<rparr>" and ?d = "map_sysmem ctx (completed_addr ctx)"
  let ?r = "if has_flag p WEBFLASH_PART_EEPROM then validate_eeprom ?c ?d
    else if has_flag p WEBFLASH_PART_RAM then validate_ram ?c ?d
    else if has_flag p WEBFLASH_PART_FIRMWARE then (0, webflash_validate_firmware ?c ?d)
    else if has_flag p WEBFLASH_PART_ENV then validate_env ?c p ?d else validate_raw ?c p ?d"
  have crc: "crc32_wd (completed_addr ctx) 0 (mem_bytes ?d 0 (unat (completed_size ctx))) (64 * 1024) =
      crc32 0 0 (upload_bytes ctx)"
    by (simp add: crc32_wd_eq upload_bytes_def)
  define r where "r = ?r"
  have "judged ?c (snd r)" unfolding r_def by (simp add: validate_parts_judged validate_firmware_judged)
  then obtain k d where kd: "length d < 128" "snd r = ?c\<lparr>image_kind := k, upload_detail := d\<rparr>"
    by (auto simp: judged_def)
  have "webflash_validate_upload ctx = (fst r, (snd r)\<lparr>upload_valid := (fst r = 0)\<rparr>)"
    unfolding webflash_validate_upload_def Let_def assms(1) option.case crc split_def r_def [symmetric] ..
  then have "ret = fst r" "ctx' = (snd r)\<lparr>upload_valid := (fst r = 0)\<rparr>" using assms(2) by simp_all
  with kd show ?thesis by (intro exI [of _ k] exI [of _ d]) simp
qed

lemma upload_done_inv:
  assumes "buffers_ok ctx" "session_ok ctx" "\<not> upload_valid ctx" "upload_part ctx = Some p"
    "size_fits p (upload_size ctx)" "rx_state ctx = WEBFLASH_RX_UPLOAD" "upload_size ctx = content_length ctx"
    "in_ram P (load_addr ctx) (content_length ctx)"
  shows "console_inv P (snd (upload_done P ctx))"
proof -
  let ?e1 = "env_set_hex P (world ctx) ''fileaddr'' (load_addr ctx)"
  let ?e2 = "if fst ?e1 \<noteq> 0 then ?e1 else env_set_hex P (snd ?e1) ''filesize'' (upload_size ctx)"
  let ?c = "ctx\<lparr>completed_addr := load_addr ctx, completed_size := upload_size ctx, world := snd ?e2\<rparr>"
  have u: "upload_done P ctx = (if fst ?e2 \<noteq> 0
      then (- EIO, webflash_error P ?c ''500 Internal Server Error'' ''update upload env failed'')
      else upload_finish P ?c)"
    by (simp add: upload_done_def Let_def split_def)
  have inv: "console_inv P ?c" using assms by (auto simp: console_inv_defs)
  obtain ret c1 where v: "webflash_validate_upload ?c = (ret, c1)" by fastforce
  obtain k d where c1: "length d < 128" "c1 = ?c\<lparr>upload_crc := crc32 0 0 (upload_bytes ?c), image_kind := k,
      upload_detail := d, upload_valid := (ret = 0)\<rparr>"
    using validate_upload_form [OF _ v] assms(4) by auto
  have "fst (webflash_validate_upload c1) = ret"
    using validate_cong [of c1 ?c] v c1 by simp
  then have inv1: "console_inv P c1"
    using inv c1 assms by (auto simp: console_inv_defs upload_bytes_def map_sysmem_def)
  have "upload_part c1 = Some p" using c1 assms(4) by simp
  then have "snd (upload_finish P ?c) = snd (webflash_reply P (set_reply c1 (upload_reply c1 p ret))
      (if ret \<noteq> 0 then ''422 Unprocessable Content'' else ''200 OK'') ''application/json'' (Reply_buf 0))"
    unfolding upload_finish_def v by simp
  then have "console_inv P (snd (upload_finish P ?c))" using talks_inv [OF talks_simps(4) inv1] by simp
  then show ?thesis unfolding u using talks_inv [OF talks_simps(1) inv] by simp
qed

lemma store_upload_inv:
  assumes "console_inv P ctx" and "rx_state ctx = WEBFLASH_RX_UPLOAD" and "data \<noteq> []"
  shows "console_inv P (snd (webflash_store_upload P ctx data))"
proof (cases "unat (content_length ctx - upload_size ctx) < length data")
  case True
  then show ?thesis using talks_inv [OF talks_simps(1) assms(1)] by (simp add: webflash_store_upload_def)
next
  case False
  obtain p where p: "upload_part ctx = Some p" "size_fits p (content_length ctx)" and
    r: "in_ram P (load_addr ctx) (content_length ctx)" "upload_size ctx \<le> content_length ctx"
       "upload_size ctx \<noteq> content_length ctx \<longrightarrow> \<not> upload_valid ctx"
    using assms(1,2) by (auto simp: console_inv_def upload_ok_def)
  have len: "unat (upload_size ctx) + length data \<le> unat (content_length ctx)"
    using False unat_sub_no_wrap [OF r(2)] r(2) by (simp add: word_le_nat_alt)
  then have "upload_size ctx \<noteq> content_length ctx" using assms(3) by auto
  with r(3) have nv: "\<not> upload_valid ctx" by blast
  let ?c = "ctx\<lparr>ram := ram_store (ram ctx) (load_addr ctx + upload_size ctx) data,
      upload_size := upload_size ctx + of_nat (length data)\<rparr>"
  have l: "length data < 2 ^ 32" using len u32_unat_lt [of "content_length ctx"] by linarith
  have nw: "unat (upload_size ctx + of_nat (length data)) = unat (upload_size ctx) + length data"
    using len l u32_unat_lt [of "content_length ctx"]
    by (subst unat_add_no_wrap) (simp_all add: take_bit_nat_eq_self unsigned_of_nat)
  then have us: "upload_size ctx + of_nat (length data) \<le> content_length ctx"
    using len by (simp add: word_le_nat_alt)
  have fits: "buffers_ok ?c" "session_ok ?c"
    using assms(1) by (auto simp: console_inv_defs)
  show ?thesis
  proof (cases "upload_size ?c = content_length ?c")
    case True
    then have "console_inv P (snd (upload_done P ?c))"
      using fits nv p r assms(2) by (intro upload_done_inv [of _ p]) auto
    with True False show ?thesis by (simp add: webflash_store_upload_def Let_def)
  next
    case more: False
    have "console_inv P ?c" using fits nv p r us assms(2) by (auto simp: console_inv_def upload_ok_def valid_ok_def)
    with more False show ?thesis by (simp add: webflash_store_upload_def Let_def)
  qed
qed

end
