(* ===== verification/Console.thy ===== *)
theory Console
  imports WebflashInv
begin

text \<open>
  The console as a state machine: every handler keeps the invariant of theory WebflashInv;
  the callbacks, the clock, the job and a failed boot are its steps; the contexts reachable
  from a start satisfy the invariant; and the executable main loop takes only such steps.
\<close>

section \<open>Settings\<close>

lemma env_commit_inv: "console_inv P ctx \<Longrightarrow> console_inv P (snd (env_commit P ctx kvs))"
  by (simp add: env_commit_def split_def Let_def)

lemma env_save_inv: "console_inv P ctx \<Longrightarrow> console_inv P (snd (webflash_env_save P ctx))"
proof -
  assume inv: "console_inv P ctx"
  have 1: "console_inv P (webflash_error P ctx s m)" for s m
    by (rule talks_inv [OF talks_simps(1) inv])
  have 2: "console_inv P (webflash_error P (snd (env_commit P ctx kvs)) s m)"
    "console_inv P (snd (webflash_ok P (snd (env_commit P ctx kvs)) m))" for kvs s m
    using talks_inv [OF talks_simps(1)] talks_inv [OF talks_simps(2)] env_commit_inv [OF inv] by blast+
  show ?thesis
    by (simp add: webflash_env_save_def split_def Let_def 1 2 split: sum.splits)
qed

lemma handle_body_inv: "console_inv P ctx \<Longrightarrow> console_inv P (snd (webflash_handle_body P ctx))"
  using env_save_inv talks_inv [OF talks_simps(1)]
  by (auto simp: webflash_handle_body_def split: webflash_action.splits)

lemma body_append_inv:
  assumes "console_inv P ctx" and "length s < WEBFLASH_BODY_SIZE"
  shows "console_inv P (ctx\<lparr>body := s\<rparr>)"
  using assms validate_cong [of "ctx\<lparr>body := s\<rparr>" ctx]
  by (simp add: console_inv_defs upload_bytes_def map_sysmem_def)

lemma store_body_inv:
  assumes "console_inv P ctx"
  shows "console_inv P (snd (webflash_store_body P ctx data))"
proof -
  have "console_inv P (ctx\<lparr>body := body ctx @ map char_of_byte data\<rparr>)"
    if "length (body ctx) + length data < WEBFLASH_BODY_SIZE"
    using that by (intro body_append_inv [OF assms]) simp
  then show ?thesis
    using handle_body_inv talks_inv [OF talks_simps(1) assms]
    by (auto simp: webflash_store_body_def Let_def not_le)
qed

lemma prepare_body_inv:
  assumes "console_inv P ctx"
  shows "console_inv P (snd (webflash_prepare_body P ctx act))"
proof (cases "webflash_operation_blocked ctx")
  case True
  then show ?thesis using talks_inv [OF talks_simps(1) assms] by (simp add: webflash_prepare_body_def)
next
  case nb: False
  have "console_inv P (ctx\<lparr>content_length := sz, body := [], action := act, rx_state := WEBFLASH_RX_BODY\<rparr>)" for sz
  proof -
    have "phase (job ctx) = WEBFLASH_PHASE_IDLE \<or> phase (job ctx) = WEBFLASH_PHASE_ERROR"
      using nb assms by (cases "phase (job ctx)")
        (auto simp: webflash_operation_blocked_def webflash_job_active_def console_inv_def session_ok_def)
    moreover have "fst (webflash_validate_upload (ctx\<lparr>content_length := sz, body := [], action := act,
        rx_state := WEBFLASH_RX_BODY\<rparr>)) = fst (webflash_validate_upload ctx)"
      by (rule validate_cong) simp_all
    ultimately show ?thesis using assms by (auto simp: console_inv_defs upload_bytes_def map_sysmem_def)
  qed
  then show ?thesis using nb talks_inv [OF talks_simps(1) assms]
    by (simp add: webflash_prepare_body_def Let_def split: sum.splits)
qed

section \<open>Streams, backups and pages\<close>

lemma stream_turn_talks:
  assumes "read_bounded P" and "stream_turn P ctx = Inl (ret, ctx') \<or> stream_turn P ctx = Inr ctx'"
  shows "length (io_buf ctx) = 65536 \<longrightarrow> length (io_buf ctx') = 65536"
proof -
  have *: "length (fst (snd (sf_read (sf_ops P) c off (ucast (stream_len r s))))) \<le> 65536"
    if "r \<noteq> 0" "s \<noteq> 0" for c off r s
  proof -
    have "unat (ucast (stream_len r s) :: u32) \<le> 1024" using stream_len_bounds(3) [OF that] by simp
    moreover have "length (fst (snd (sf_read (sf_ops P) c off (ucast (stream_len r s))))) \<le>
        unat (ucast (stream_len r s) :: u32)" using assms(1) unfolding read_bounded_def by blast
    ultimately show ?thesis by linarith
  qed
  have "length bs \<le> 65536" if "sf_read (sf_ops P) c off (ucast (stream_len r s)) = (ret, bs, c')" "r \<noteq> 0" "s \<noteq> 0"
    for c off r s bs c' and ret :: int
    using * [OF that(2,3), of c off] that(1) by simp
  then show ?thesis
    using assms(2)
    by (auto simp: stream_turn_def flash_read_io_def Let_def split: if_splits option.splits prod.splits)
qed

lemma stream_loop_io:
  assumes "read_bounded P" and "length (io_buf ctx) = 65536"
  shows "length (io_buf (snd (stream_loop P ctx))) = 65536"
  using assms
proof (induction P ctx rule: stream_loop.induct)
  case (1 P ctx)
  show ?case
  proof (cases "stream_turn P ctx")
    case (Inl r)
    obtain ret ctx' where "r = (ret, ctx')" by fastforce
    with Inl 1 stream_turn_talks [of P ctx ret ctx'] show ?thesis
      by (simp add: stream_loop.simps [of P ctx])
  next
    case (Inr ctx')
    with 1 stream_turn_talks [of P ctx _ ctx'] have "length (io_buf ctx') = 65536" by blast
    then have "length (io_buf (snd (stream_loop P ctx'))) = 65536" using "1.IH" [OF Inr] "1.prems" by blast
    then show ?thesis using Inr by (simp add: stream_loop.simps [of P ctx])
  qed
qed

lemma fill_talks: "read_bounded P \<Longrightarrow> talks_io ctx (snd (webflash_stream_fill P ctx))"
proof -
  assume "read_bounded P"
  then have "length (io_buf ctx) = 65536 \<longrightarrow> length (io_buf (snd (webflash_stream_fill P ctx))) = 65536"
    using stream_loop_io [of P ctx] by (auto simp: webflash_stream_fill_def split_def Let_def)
  then show ?thesis using fill_frame [where P = P and ctx = ctx] by (simp add: talks_io_def)
qed

text \<open>A reply to a context that the invariant holds of.\<close>

lemma reply_inv:
  "console_inv P ctx \<Longrightarrow> console_inv P (webflash_error P ctx status message)"
  "console_inv P ctx \<Longrightarrow> console_inv P (snd (webflash_ok P ctx message))"
  "console_inv P ctx \<Longrightarrow> console_inv P (snd (webflash_reply P ctx status ctype ptr))"
  "console_inv P ctx \<Longrightarrow> console_inv P (snd (webflash_reply P (set_reply ctx s) status ctype ptr))"
  "console_inv P ctx \<Longrightarrow> console_inv P (webflash_abort_client P ctx)"
  "console_inv P ctx \<Longrightarrow> console_inv P (snd (webflash_try_close_client P ctx))"
  by (blast intro: talks_inv talks_simps)+

lemma set_reply_inv: "console_inv P ctx \<Longrightarrow> console_inv P (set_reply ctx s)"
  by (rule talks_inv [of ctx]) (auto simp: talks_def set_reply_keeps)

lemma read_inv:
  "read_bounded P \<Longrightarrow> unat len \<le> 65536 \<Longrightarrow> console_inv P ctx \<Longrightarrow>
     console_inv P (snd (flash_read_io P ctx off len))"
  by (blast intro: talks_io_inv flash_read_talks)

lemma download_inv:
  assumes "read_bounded P" and inv: "console_inv P ctx"
  shows "console_inv P (snd (download_range P ctx off sz name))"
proof -
  let ?c = "\<lambda>w. ctx\<lparr>world := w, rx_state := WEBFLASH_RX_REPLIED,
      reply_pending := of_nat (length (download_header name (unat sz))) + sz, stream_offset := off,
      stream_remaining := sz, stream_memory := Null, stream_from_flash := True, stream_active := True,
      output_pending := False, close_pending := False\<rparr>"
  have "talks_io ctx (?c w)" for w by (simp add: talks_io_def keeps_io_def)
  from talks_io_trans [OF this fill_talks [OF assms(1)]]
  have "talks_io ctx (snd (webflash_stream_fill P (?c w)))" for w .
  from talks_io_inv [OF this inv] have f: "console_inv P (snd (webflash_stream_fill P (?c w)))" for w .
  show ?thesis
    using inv by (simp add: download_range_def Let_def split_def f reply_inv split: option.splits)
qed

lemma start_download_inv:
  "read_bounded P \<Longrightarrow> console_inv P ctx \<Longrightarrow> console_inv P (snd (webflash_start_download P ctx name))"
  by (simp add: webflash_start_download_def reply_inv download_inv split: option.splits)

lemma pages_inv:
  assumes "console_inv P ctx"
  shows "console_inv P (snd (webflash_info P ctx))" "console_inv P (snd (webflash_job_status P ctx))"
    "console_inv P (snd (webflash_env_info P ctx))"
  using assms by (simp_all only: webflash_info_def webflash_job_status_def webflash_env_info_def Let_def reply_inv)

lemma eeprom_info_inv:
  assumes "read_bounded P" and "console_inv P ctx"
  shows "console_inv P (snd (webflash_eeprom_info P ctx))"
proof -
  let ?off = "CONFIG_WEBFLASH_FACTORY_OFFSET + of_nat WEBFLASH_EEPROM_OFFSET"
  let ?r = "flash_read_io P ctx ?off WEBFLASH_EEPROM_SIZE"
  have r: "console_inv P (snd ?r)" by (rule read_inv [OF assms(1) _ assms(2)]) simp
  show ?thesis
    using assms(2) r by (simp add: webflash_eeprom_info_def Let_def split_def reply_inv set_reply_inv)
qed

lemma env_reset_inv: "console_inv P ctx \<Longrightarrow> console_inv P (snd (webflash_env_reset P ctx))"
proof -
  assume inv: "console_inv P ctx"
  have "console_inv P (snd (webflash_check_confirmation P ctx e))" for e
    by (rule talks_inv [OF confirmation_talks inv])
  then show ?thesis using inv by (simp add: webflash_env_reset_def Let_def split_def reply_inv)
qed

section \<open>Jobs\<close>

text \<open>Reading the flash changes the device and the I/O buffer only.\<close>

lemma flash_read_fields [simp]:
  "rx_state (snd (flash_read_io P ctx off len)) = rx_state ctx"
  "job (snd (flash_read_io P ctx off len)) = job ctx"
  "factory_buf (snd (flash_read_io P ctx off len)) = factory_buf ctx"
  "header (snd (flash_read_io P ctx off len)) = header ctx"
  "ram (snd (flash_read_io P ctx off len)) = ram ctx"
  "completed_addr (snd (flash_read_io P ctx off len)) = completed_addr ctx"
  "completed_size (snd (flash_read_io P ctx off len)) = completed_size ctx"
  "reboot_pending (snd (flash_read_io P ctx off len)) = reboot_pending ctx"
  "upload_part (snd (flash_read_io P ctx off len)) = upload_part ctx"
  "upload_valid (snd (flash_read_io P ctx off len)) = upload_valid ctx"
  by (simp_all add: flash_read_io_def split_def Let_def)

lemma factory_buf_inv:
  assumes "console_inv P ctx" and "length fb = 65536"
  shows "console_inv P (ctx\<lparr>factory_buf := fb\<rparr>)"
  using assms validate_cong [of "ctx\<lparr>factory_buf := fb\<rparr>" ctx]
  by (simp add: console_inv_defs upload_bytes_def map_sysmem_def)

abbreviation receiving :: "('c, 'w) webflash_ctx \<Rightarrow> bool" where
  "receiving ctx \<equiv> rx_state ctx = WEBFLASH_RX_UPLOAD \<or> rx_state ctx = WEBFLASH_RX_BODY"

lemma patch_eeprom_inv:
  assumes "read_bounded P" "console_inv P ctx" "\<not> receiving ctx" "phase (job ctx) = WEBFLASH_PHASE_ERASING"
  shows "console_inv P (snd (patch_eeprom P ctx))"
proof (cases "webflash_partition_find ''factory''")
  case None
  then show ?thesis using assms(2) by (simp add: patch_eeprom_def)
next
  case (Some f)
  let ?r = "flash_read_io P ctx (p_offset f) CONFIG_WEBFLASH_FACTORY_SIZE"
  have r: "console_inv P (snd ?r)" by (rule read_inv [OF assms(1) _ assms(2)]) simp
  then have len: "length (io_buf (snd ?r)) = 65536" "length (factory_buf (snd ?r)) = 65536"
    "length (job_error (job (snd ?r))) < 96"
    by (simp_all add: console_inv_def buffers_ok_def)
  have 1: "console_inv P ((snd ?r)\<lparr>factory_buf := fb, job := j\<rparr>)"
    if "length fb = 65536" "phase j = WEBFLASH_PHASE_ERASING" "job_error j = job_error (job ctx)" for fb j
  proof -
    have "console_inv P ((snd ?r)\<lparr>factory_buf := fb\<rparr>)" by (rule factory_buf_inv [OF r that(1)])
    then show ?thesis using assms(3) len that by (intro console_inv_job) simp_all
  qed
  have 2: "console_inv P ((snd ?r)\<lparr>job := job_zero\<rparr>)"
    using r assms(3) by (intro console_inv_job) simp_all
  show ?thesis
    using Some assms(4) len by (simp add: patch_eeprom_def Let_def split_def 1 2)
qed

lemma start_flash_job_inv:
  assumes "read_bounded P" "console_inv P ctx" "\<not> receiving ctx"
  shows "console_inv P (snd (webflash_start_flash_job P ctx))"
proof -
  have "console_inv P (ctx\<lparr>job := j\<rparr>)" if "phase j = WEBFLASH_PHASE_ERASING" "job_error j = []" for j
    using assms(2,3) that by (intro console_inv_job) simp_all
  moreover from this have "console_inv P (snd (patch_eeprom P (ctx\<lparr>job := j\<rparr>)))"
    if "phase j = WEBFLASH_PHASE_ERASING" "job_error j = []" for j
    using assms(1,3) that by (intro patch_eeprom_inv) simp_all
  ultimately show ?thesis
    using assms(2) by (simp add: webflash_start_flash_job_def Let_def split: option.splits)
qed

lemma confirmation_inv: "console_inv P ctx \<Longrightarrow> console_inv P (snd (webflash_check_confirmation P ctx e))"
  by (rule talks_inv [OF confirmation_talks])

lemma start_uploaded_inv:
  assumes "read_bounded P" "console_inv P ctx" "\<not> receiving ctx"
  shows "console_inv P (snd (webflash_start_uploaded_flash P ctx))"
proof (cases "fst (webflash_check_confirmation P ctx (webflash_expected_confirmation ctx)) = 0")
  case True
  then have c: "snd (webflash_check_confirmation P ctx (webflash_expected_confirmation ctx)) = ctx"
    by (rule confirmation_0)
  show ?thesis
    using assms(2) True c start_flash_job_inv [OF assms]
    by (simp add: webflash_start_uploaded_flash_def Let_def split_def reply_inv split: option.splits)
next
  case False
  then show ?thesis
    using assms(2) confirmation_inv [OF assms(2)]
    by (simp add: webflash_start_uploaded_flash_def Let_def split_def reply_inv split: option.splits)
qed

lemma overlay_scan_talks:
  assumes "read_bounded P"
  shows "talks_io ctx (snd (overlay_scan P ctx fin pos)) \<and> rx_state (snd (overlay_scan P ctx fin pos)) = rx_state ctx"
  using assms
proof (induction P ctx fin pos rule: overlay_scan.induct)
  case (1 P ctx fin pos)
  let ?n = "min (unat WEBFLASH_IO_SIZE) (fin - pos)"
  let ?r = "flash_read_io P ctx (of_nat pos) (of_nat ?n)"
  have n: "unat (of_nat ?n :: u32) \<le> 65536" by (simp add: unsigned_of_nat min_le_iff_disj take_bit_nat_eq_self)
  have t: "talks_io ctx (snd ?r)" by (rule flash_read_talks [OF "1.prems" n])
  show ?case
  proof (cases "fin < pos + WEBFLASH_SQUASHFS_SB_SIZE \<or> fst ?r \<noteq> 0 \<or>
      overlay_block (sf_sector_size P (flash (snd ?r))) (ptr_of (io_buf (snd ?r)))
        (of_nat fin) (of_nat pos) [0..<?n - (WEBFLASH_SQUASHFS_SB_SIZE - 1)] \<noteq> None")
    case True
    then show ?thesis using t by (subst (1 2) overlay_scan.simps) (auto simp: Let_def split: option.splits)
  next
    case False
    let ?pos = "pos + (unat WEBFLASH_IO_SIZE - (WEBFLASH_SQUASHFS_SB_SIZE - 1))"
    have eq: "overlay_scan P ctx fin pos = overlay_scan P (snd ?r) fin ?pos"
      using False by (subst overlay_scan.simps) (simp add: Let_def)
    have IH: "talks_io (snd ?r) (snd (overlay_scan P (snd ?r) fin ?pos)) \<and>
        rx_state (snd (overlay_scan P (snd ?r) fin ?pos)) = rx_state (snd ?r)"
      by (rule "1.IH" [OF _ refl refl _ _ "1.prems"]) (use False in auto)
    then show ?thesis unfolding eq using talks_io_trans [OF t] by simp
  qed
qed

lemma factory_reset_inv:
  assumes "read_bounded P" "console_inv P ctx" "\<not> receiving ctx"
  shows "console_inv P (snd (webflash_factory_reset P ctx))"
proof (cases "fst (webflash_check_confirmation P ctx ''ERASE-SETTINGS'') = 0")
  case True
  let ?o = "webflash_find_overlay P ctx"
  have "talks_io ctx (snd ?o)" "rx_state (snd ?o) = rx_state ctx"
    using overlay_scan_talks [OF assms(1)] by (simp_all add: webflash_find_overlay_def)
  then have o: "console_inv P (snd ?o)" "\<not> receiving (snd ?o)"
    using talks_io_inv assms(2,3) by auto
  have j: "console_inv P ((snd ?o)\<lparr>job := j\<rparr>)" if "phase j = WEBFLASH_PHASE_ERASING" "job_error j = []" for j
    using o that by (intro console_inv_job) simp_all
  show ?thesis
    using True confirmation_0(1) [OF True] assms(2) o(1)
    by (simp add: webflash_factory_reset_def Let_def split_def reply_inv j split: sum.splits)
next
  case False
  then show ?thesis using assms(2) confirmation_inv [OF assms(2)]
    by (simp add: webflash_factory_reset_def Let_def split_def reply_inv)
qed

section \<open>Dispatch and callbacks\<close>

lemma boot_ram_inv: "console_inv P ctx \<Longrightarrow> console_inv P (snd (boot_ram P ctx))"
  by (simp add: boot_ram_def reply_inv)

lemma flash_request_inv:
  "read_bounded P \<Longrightarrow> console_inv P ctx \<Longrightarrow> \<not> receiving ctx \<Longrightarrow> console_inv P (snd (flash_request P ctx))"
  unfolding flash_request_def by (rule start_uploaded_inv) (simp_all split: sum.splits)

lemma reboot_request_inv: "console_inv P ctx \<Longrightarrow> console_inv P (snd (reboot_request P ctx))"
  by (simp add: reboot_request_def reply_inv console_inv_reboot)

lemma upload_target_member: "upload_target ctx = Some p \<Longrightarrow> p \<in> set all_partitions"
  by (auto simp: upload_target_def dest: partition_find_member split: if_splits)

lemma handle_headers_inv:
  assumes "read_bounded P" "console_inv P ctx" "\<not> receiving ctx"
  shows "console_inv P (snd (webflash_handle_headers P ctx))"
  using assms
  by (auto simp: webflash_handle_headers_def reply_inv pages_inv eeprom_info_inv start_download_inv
      boot_ram_inv flash_request_inv factory_reset_inv prepare_body_inv env_reset_inv reboot_request_inv
      intro: prepare_upload_inv upload_target_member split: option.splits)

lemma header_append_inv:
  assumes "console_inv P ctx" "length s < WEBFLASH_HEADER_SIZE"
  shows "console_inv P (ctx\<lparr>header := s\<rparr>)"
  using assms validate_cong [of "ctx\<lparr>header := s\<rparr>" ctx]
  by (simp add: console_inv_defs upload_bytes_def map_sysmem_def)

lemma consume_inv:
  assumes "read_bounded P" "console_inv P ctx"
  shows "console_inv P (snd (webflash_consume P ctx data))"
  using assms(2)
proof (induction data arbitrary: ctx)
  case Nil
  then show ?case by simp
next
  case (Cons b bs)
  let ?c = "ctx\<lparr>header := header ctx @ [char_of_byte b]\<rparr>"
  show ?case
  proof (cases "rx_state ctx")
    case WEBFLASH_RX_HEADERS
    show ?thesis
    proof (cases "WEBFLASH_HEADER_SIZE \<le> header_len ctx + 1")
      case True
      with WEBFLASH_RX_HEADERS Cons.prems show ?thesis by (simp add: reply_inv)
    next
      case False
      then have c: "console_inv P ?c" using Cons.prems by (intro header_append_inv) simp_all
      have h: "console_inv P (snd (webflash_handle_headers P ?c))"
        using assms(1) c WEBFLASH_RX_HEADERS by (intro handle_headers_inv) simp_all
      show ?thesis using WEBFLASH_RX_HEADERS False Cons.IH [OF c] Cons.IH [OF h] h by (simp add: Let_def)
    qed
  qed (use Cons.prems in \<open>simp_all add: store_upload_inv store_body_inv\<close>)
qed

lemma recv_chain_inv:
  "read_bounded P \<Longrightarrow> console_inv P ctx \<Longrightarrow> console_inv P (recv_chain P ctx qs)"
  by (induction qs arbitrary: ctx) (auto simp: Let_def consume_inv)

lemma recv_inv: "read_bounded P \<Longrightarrow> console_inv P ctx \<Longrightarrow> console_inv P (snd (webflash_recv P ctx pcb p err))"
  by (simp add: webflash_recv_def Let_def split_def reply_inv recv_chain_inv split: option.splits)

lemma fill_inv:
  "read_bounded P \<Longrightarrow> console_inv P ctx \<Longrightarrow> console_inv P (snd (webflash_stream_fill P ctx))"
  by (blast intro: talks_io_inv fill_talks)

lemma sent_close_inv: "console_inv P ctx \<Longrightarrow> console_inv P (snd (sent_close P ctx))"
  by (simp add: sent_close_def Let_def split_def reply_inv)

lemma sent_inv: "read_bounded P \<Longrightarrow> console_inv P ctx \<Longrightarrow> console_inv P (snd (webflash_sent P ctx pcb len))"
  by (simp add: webflash_sent_def Let_def split_def reply_inv fill_inv sent_close_inv)

lemma poll_close_inv: "console_inv P ctx \<Longrightarrow> console_inv P (snd (poll_close P ctx))"
proof -
  have i: "console_inv P c \<Longrightarrow> console_inv P (snd (poll_idle P c))" for c
    by (simp add: poll_idle_def reply_inv)
  assume "console_inv P ctx"
  then show ?thesis by (simp add: poll_close_def Let_def split_def reply_inv i)
qed

lemma poll_inv:
  assumes "read_bounded P" "console_inv P ctx"
  shows "console_inv P (snd (webflash_poll P ctx pcb))"
proof -
  define r where "r = (if stream_active ctx then webflash_stream_fill P ctx else (0, ctx))"
  have r: "console_inv P (snd r)" using assms by (simp add: r_def fill_inv)
  define w where "w = tcp_output P (world (snd r)) pcb"
  have "snd (webflash_poll P ctx pcb) \<in> {webflash_abort_client P (snd r),
      snd (poll_close P ((snd r)\<lparr>world := snd w, output_pending := False\<rparr>)),
      webflash_abort_client P ((snd r)\<lparr>world := snd w\<rparr>),
      snd (poll_close P ((snd r)\<lparr>world := snd w\<rparr>)), snd (poll_close P (snd r))}"
    unfolding webflash_poll_def r_def [symmetric] Let_def split_def w_def [symmetric] by auto
  then show ?thesis using r by (auto intro!: reply_inv(5) poll_close_inv)
qed

lemma tcp_error_inv: "console_inv P ctx \<Longrightarrow> console_inv P (webflash_tcp_error ctx)"
  by (rule talks_inv [of ctx]) (auto simp: webflash_tcp_error_def talks_def keeps_def keeps_io_def)

lemma accept_inv:
  assumes "console_inv P ctx"
  shows "console_inv P (snd (webflash_accept P ctx new err))"
proof -
  have new: "console_inv P (ctx\<lparr>client := c, header := [], body := [], upload_size := 0, content_length := 0,
      last_activity := t, rx_state := WEBFLASH_RX_HEADERS, action := a, keep_config := False,
      client_aborted := False, reply_pending := 0, stream_remaining := 0, stream_memory := Null,
      stream_active := False, stream_from_flash := False, output_pending := False,
      close_pending := False, world := w\<rparr>)" (is "console_inv P ?c") for c t a w
  proof -
    have "fst (webflash_validate_upload ?c) = fst (webflash_validate_upload ctx)"
      by (rule validate_cong) simp_all
    moreover have "upload_bytes ?c = upload_bytes ctx" by (rule upload_bytes_cong) simp_all
    ultimately show ?thesis using assms unfolding console_inv_defs by simp
  qed
  show ?thesis
    using assms new unfolding webflash_accept_def Let_def by (simp split: option.splits del: console_inv_upd add: console_inv_upd(1))
qed

lemma event_inv: "read_bounded P \<Longrightarrow> console_inv P ctx \<Longrightarrow> console_inv P (handle_event P ctx e)"
  by (cases e) (simp_all add: accept_inv recv_inv sent_inv tcp_error_inv poll_inv)

lemma job_done_inv:
  assumes "console_inv P ctx" "\<not> receiving ctx" "length (job_error j) < 96"
  shows "console_inv P (webflash_schedule_reboot (ctx\<lparr>job := j\<rparr>))"
proof -
  have "webflash_schedule_reboot (ctx\<lparr>job := j\<rparr>) = (webflash_schedule_reboot ctx)\<lparr>job := j\<rparr>"
    by (simp add: webflash_schedule_reboot_def get_timer_def)
  moreover have "console_inv P ((webflash_schedule_reboot ctx)\<lparr>job := j\<rparr>)"
    using assms console_inv_reboot [OF assms(1)]
    by (intro console_inv_job) (simp_all add: webflash_schedule_reboot_def)
  ultimately show ?thesis by simp
qed

lemma job_fail_inv:
  "console_inv P ctx \<Longrightarrow> \<not> receiving ctx \<Longrightarrow> console_inv P (webflash_job_fail ctx op ret)"
  unfolding webflash_job_fail_def by (rule console_inv_job) (simp_all add: snprintf_store_def)

lemma active_not_receiving: "console_inv P ctx \<Longrightarrow> webflash_job_active ctx \<Longrightarrow> \<not> receiving ctx"
  by (auto simp: console_inv_def session_ok_def webflash_job_active_def)

lemma job_step_inv:
  assumes rb: "read_bounded P" and inv: "console_inv P ctx" and act: "webflash_job_active ctx"
  shows "console_inv P (webflash_job_step P ctx)"
proof -
  note nr = active_not_receiving [OF inv act]
  let ?io = "\<lambda>off chunk. snd (flash_read_io P ctx off chunk)"
  have err: "length (job_error (job ctx)) < 96" using inv by (simp add: console_inv_def buffers_ok_def)
  have job: "console_inv P (c\<lparr>job := j\<rparr>)"
    if "console_inv P c" "\<not> receiving c" "phase j \<noteq> WEBFLASH_PHASE_DONE" "length (job_error j) < 96" for c j
    using that by (intro console_inv_job) simp_all
  have chunk: "unat (webflash_job_chunk s r False) \<le> 65536" for s r
    by (simp add: webflash_job_chunk_def unat_min)
  have io: "console_inv P (?io off (webflash_job_chunk s r False))" for off s r
    using read_inv [OF rb chunk inv] .
  show ?thesis
  proof (cases "phase (job ctx)")
    case WEBFLASH_PHASE_ERASING
    then show ?thesis using inv nr err
      by (auto simp: webflash_job_step_def job_erase_step_def Let_def split_def
          intro!: job_fail_inv job_done_inv job)
  next
    case WEBFLASH_PHASE_WRITING
    then show ?thesis using inv nr err
      by (auto simp: webflash_job_step_def job_write_step_def Let_def split_def
          intro!: job_fail_inv job split: option.splits)
  next
    case WEBFLASH_PHASE_VERIFYING
    then show ?thesis using inv nr err io
      by (auto simp: webflash_job_step_def job_verify_step_def Let_def split_def
          intro!: job_fail_inv job_done_inv job split: option.splits)
  qed (use inv in \<open>simp_all add: webflash_job_step_def\<close>)
qed

section \<open>The state machine\<close>

text \<open>
  The steps of the main loop: a callback of lwIP, the passing of time, a step of an active
  job, and a boot of the uploaded image that came back.
\<close>

inductive console_step :: "('c, 'w) platform \<Rightarrow> ('c, 'w) webflash_ctx \<Rightarrow> ('c, 'w) webflash_ctx \<Rightarrow> bool"
  for P :: "('c, 'w) platform" where
  event: "console_step P ctx (handle_event P ctx e)"
| clock: "console_step P ctx (ctx\<lparr>now := t\<rparr>)"
| job_step: "webflash_job_active ctx \<Longrightarrow> console_step P ctx (webflash_job_step P ctx)"
| boot: "boot_pending ctx \<Longrightarrow>
    console_step P ctx ((webflash_abort_client P ctx)\<lparr>boot_pending := False\<rparr>)"

inductive_cases console_stepE [elim]: "console_step P ctx ctx'"

inductive reachable :: "('c, 'w) platform \<Rightarrow> ('c, 'w) webflash_ctx \<Rightarrow> ('c, 'w) webflash_ctx \<Rightarrow> bool"
  for P :: "('c, 'w) platform" and ctx0 :: "('c, 'w) webflash_ctx" where
  start: "reachable P ctx0 ctx0"
| step: "reachable P ctx0 ctx \<Longrightarrow> console_step P ctx ctx' \<Longrightarrow> reachable P ctx0 ctx'"

lemma reachable_trans: "reachable P b c \<Longrightarrow> reachable P a b \<Longrightarrow> reachable P a c"
  by (induction rule: reachable.induct) (auto intro: reachable.intros)

lemma step_inv:
  assumes "read_bounded P" "console_step P ctx ctx'" "console_inv P ctx"
  shows "console_inv P ctx'"
  using assms(2)
proof cases
  case boot
  then show ?thesis using assms(3) by (simp add: reply_inv)
qed (use assms in \<open>auto simp: event_inv job_step_inv\<close>)

lemma reachable_inv:
  "reachable P ctx0 ctx \<Longrightarrow> read_bounded P \<Longrightarrow> console_inv P ctx0 \<Longrightarrow> console_inv P ctx"
  by (induction rule: reachable.induct) (auto intro: step_inv)

section \<open>The main loop takes steps of the machine\<close>

lemma events_reachable: "reachable P ctx (fold (\<lambda>e ctx. handle_event P ctx e) es ctx)"
proof (induction es rule: rev_induct)
  case Nil
  show ?case by (simp add: start)
next
  case (snoc e es)
  then show ?case using step [OF snoc event [of P _ e]] by simp
qed

lemma turn_job_reachable: "reachable P ctx (turn_job P ctx t)"
proof -
  let ?c = "fold (\<lambda>e ctx. handle_event P ctx e) (t_events t) (ctx\<lparr>now := t_now t\<rparr>)"
  have "reachable P ctx (ctx\<lparr>now := t_now t\<rparr>)" by (rule step [OF start clock])
  with reachable_trans [OF events_reachable] have "reachable P ctx ?c" .
  then show ?thesis by (auto simp: turn_job_def Let_def intro: step job_step)
qed

lemma main_turn_reachable:
  assumes "main_turn P ctx t = Running ctx'"
  shows "reachable P ctx ctx'"
proof (cases "boot_pending (turn_job P ctx t) \<and>
    WEBFLASH_BOOT_DELAY_MS \<le> get_timer (turn_job P ctx t) (boot_start (turn_job P ctx t))")
  case True
  with assms have "ctx' = (webflash_abort_client P (turn_job P ctx t))\<lparr>boot_pending := False\<rparr>"
    by (auto simp: main_turn_def turn_reboot_def Let_def split: if_splits)
  then show ?thesis using True by (auto intro: step [OF turn_job_reachable boot])
next
  case False
  with assms have "ctx' = turn_job P ctx t"
    by (auto simp: main_turn_def turn_reboot_def Let_def split: if_splits)
  then show ?thesis using turn_job_reachable by simp
qed

lemma main_loop_reachable: "main_loop P ctx ts = Running ctx' \<Longrightarrow> reachable P ctx ctx'"
proof (induction ts arbitrary: ctx)
  case Nil
  then show ?case by (simp add: start)
next
  case (Cons t ts)
  then obtain c where "main_turn P ctx t = Running c" "main_loop P c ts = Running ctx'"
    by (auto split: outcome.splits)
  with Cons.IH main_turn_reachable reachable_trans show ?case by blast
qed

section \<open>The start\<close>

lemma init_flash_0:
  assumes "webflash_init_flash P S ctx = (0, ctx')"
  obtains c io fb where "ctx' = ctx\<lparr>flash := c, io_buf := io, factory_buf := fb\<rparr>"
    "io_mem S = Some io" "factory_mem S = Some fb" "probe_dev S = Some c"
    "sf_sector_size P c \<noteq> 0" "layout_ok (sf_sector_size P c)" "0x2000000 \<le> unat (sf_size P c)"
proof -
  have "\<not> (ucast s :: u64) < 0x2000000 \<Longrightarrow> 0x2000000 \<le> unat s" for s :: u32
    by (simp add: word_less_nat_alt ucast_u32_u64)
  with assms that show thesis
    by (auto simp: webflash_init_flash_def Let_def split: if_splits option.splits)
qed

lemma start_listener_0:
  assumes "webflash_start_listener P ctx = (0, ctx')"
  obtains l w where "ctx' = ctx\<lparr>listener := Some l, world := w\<rparr>"
  using assms that by (auto simp: webflash_start_listener_def Let_def split: option.splits prod.splits if_splits)

lemma setup_0:
  assumes "webflash_setup P S ctx arg = (0, ctx')"
  obtains a l c w io fb where "ctx' = ctx\<lparr>load_addr := a, listener := Some l, flash := c, world := w,
      io_buf := io, factory_buf := fb\<rparr>" "io_mem S = Some io" "factory_mem S = Some fb"
    "probe_dev S = Some c" "sf_sector_size P c \<noteq> 0" "layout_ok (sf_sector_size P c)"
    "0x2000000 \<le> unat (sf_size P c)"
proof -
  let ?a = "case arg of None \<Rightarrow> env_get_hex P (world ctx) ''loadaddr'' CONFIG_SYS_LOAD_ADDR | Some s \<Rightarrow> fst (hextoul s)"
  let ?w = "snd (webflash_apply_default_network P (world ctx))"
  let ?c = "ctx\<lparr>load_addr := ?a, world := ?w\<rparr>"
  obtain ret c1 where i: "webflash_init_flash P S ?c = (ret, c1)" by fastforce
  have r: "ret = 0" "webflash_start_listener P c1 = (0, ctx')"
    using assms i
    by (auto simp: webflash_setup_def Let_def split_def prod_eq_iff split: option.splits if_splits prod.splits)
  obtain c io fb where c1: "c1 = ?c\<lparr>flash := c, io_buf := io, factory_buf := fb\<rparr>"
    and S: "io_mem S = Some io" "factory_mem S = Some fb" "probe_dev S = Some c"
    "sf_sector_size P c \<noteq> 0" "layout_ok (sf_sector_size P c)" "0x2000000 \<le> unat (sf_size P c)"
    using init_flash_0 [of P S ?c c1] i r(1) by blast
  obtain l w where "ctx' = c1\<lparr>listener := Some l, world := w\<rparr>" using start_listener_0 [OF r(2)] by blast
  with c1 have "ctx' = ctx\<lparr>load_addr := ?a, listener := Some l, flash := c, world := w,
      io_buf := io, factory_buf := fb\<rparr>" by simp
  from that [OF this S] show thesis .
qed

lemma setup_inv:
  assumes "webflash_setup P S (ctx_zero c w m r) arg = (0, ctx)"
    and "\<And>io. io_mem S = Some io \<Longrightarrow> length io = 65536" and "\<And>fb. factory_mem S = Some fb \<Longrightarrow> length fb = 65536"
  shows "console_inv P ctx"
proof -
  from setup_0 [OF assms(1)] obtain a l c' w' io fb where
    "ctx = (ctx_zero c w m r)\<lparr>load_addr := a, listener := Some l, flash := c', world := w',
      io_buf := io, factory_buf := fb\<rparr>" "io_mem S = Some io" "factory_mem S = Some fb" .
  then show ?thesis using assms(2,3) by (simp add: ctx_zero_def console_inv_defs)
qed

end
