(* ===== verification/Busy.thy ===== *)
theory Busy
  imports Console
begin

text \<open>
  The console while a job runs, and after one is done until the reboot.  Requests are still
  served, but every handler that could change the flash, the RAM or the job finds the device
  busy: all they leave is a reply.  \<open>busy_frame\<close> is what stays as it is; a context is \<open>calm\<close>
  when nothing is being received for an upload or a form and no backup is being streamed.
\<close>

definition busy_frame :: "('c, 'w) webflash_ctx \<Rightarrow> ('c, 'w) webflash_ctx \<Rightarrow> bool" where
  "busy_frame a b \<longleftrightarrow>
     job b = job a \<and> flash b = flash a \<and> ram b = ram a \<and> factory_buf b = factory_buf a \<and>
     reboot_pending b = reboot_pending a \<and> boot_pending b = boot_pending a \<and> reboot_start b = reboot_start a"

definition calm :: "('c, 'w) webflash_ctx \<Rightarrow> bool" where
  "calm ctx \<longleftrightarrow>
     rx_state ctx \<noteq> WEBFLASH_RX_UPLOAD \<and> rx_state ctx \<noteq> WEBFLASH_RX_BODY \<and>
     \<not> (stream_active ctx \<and> stream_from_flash ctx)"

text \<open>A job is running, or is done and the reboot has been scheduled.\<close>

definition committed :: "('c, 'w) webflash_ctx \<Rightarrow> bool" where
  "committed ctx \<longleftrightarrow>
     webflash_job_active ctx \<or> (phase (job ctx) = WEBFLASH_PHASE_DONE \<and> reboot_pending ctx)"

definition serves :: "('c, 'w) webflash_ctx \<Rightarrow> ('c, 'w) webflash_ctx \<Rightarrow> bool" where
  "serves a b \<longleftrightarrow> busy_frame a b \<and> (calm a \<longrightarrow> calm b)"

lemma busy_frame_trans: "busy_frame a b \<Longrightarrow> busy_frame b c \<Longrightarrow> busy_frame a c"
  by (simp add: busy_frame_def)

lemma serves_refl [simp]: "serves a a"
  by (simp add: serves_def busy_frame_def)

lemma serves_trans [trans]: "serves a b \<Longrightarrow> serves b c \<Longrightarrow> serves a c"
  by (auto simp: serves_def intro: busy_frame_trans)

lemma serves_calm: "serves a b \<Longrightarrow> calm a \<Longrightarrow> calm b"
  by (simp add: serves_def)

lemma committed_frame: "busy_frame a b \<Longrightarrow> committed b = committed a"
  by (simp add: busy_frame_def committed_def webflash_job_active_def)

lemma committed_blocked: "committed ctx \<Longrightarrow> webflash_operation_blocked ctx"
  by (auto simp: committed_def webflash_operation_blocked_def)

lemma keeps_busy: "keeps a b \<Longrightarrow> busy_frame a b"
  by (simp add: keeps_def keeps_io_def busy_frame_def)

section \<open>Replies\<close>

lemma abort_stream [simp]:
  "stream_from_flash (webflash_abort_client P ctx) = stream_from_flash ctx"
  by (auto simp: webflash_abort_client_def webflash_detach_client_def Let_def split: option.splits)

lemma abort_serves: "serves ctx (webflash_abort_client P ctx)"
  using keeps_busy [OF abort_keeps [of ctx P]] by (auto simp: serves_def calm_def)

lemma close_serves: "serves ctx (snd (webflash_try_close_client P ctx))"
proof -
  have "stream_active (snd (webflash_try_close_client P ctx)) = stream_active ctx"
    "stream_from_flash (snd (webflash_try_close_client P ctx)) = stream_from_flash ctx"
    by (auto simp: webflash_try_close_client_def Let_def split: option.splits prod.splits)
  then show ?thesis using keeps_busy [OF close_keeps [of ctx P]] by (auto simp: serves_def calm_def)
qed

lemma stream_loop_stream:
  "stream_from_flash (snd (stream_loop P ctx)) = stream_from_flash ctx \<and>
   stream_active (snd (stream_loop P ctx)) = stream_active ctx"
proof (induction P ctx rule: stream_loop.induct)
  case (1 P ctx)
  show ?case
  proof (cases "stream_turn P ctx")
    case (Inl r)
    obtain ret ctx' where "r = (ret, ctx')" by fastforce
    with Inl stream_turn_frame(6,7) [of P ctx ret ctx'] show ?thesis by (simp add: stream_loop.simps [of P ctx])
  next
    case (Inr ctx')
    have eq: "stream_loop P ctx = stream_loop P ctx'" using Inr by (simp add: stream_loop.simps [of P ctx])
    show ?thesis unfolding eq using "1" [OF Inr] stream_turn_frame(6,7) [of P ctx _ ctx', OF disjI2 [OF Inr]] by simp
  qed
qed

lemma fill_stream:
  "stream_from_flash (snd (webflash_stream_fill P ctx)) = stream_from_flash ctx"
  "stream_active (snd (webflash_stream_fill P ctx)) \<Longrightarrow> stream_active ctx"
  using stream_loop_stream [of P ctx]
  by (auto simp: webflash_stream_fill_def Let_def split_def split: if_splits)

text \<open>A stream from memory may go on; one from the flash is not running in a calm context.\<close>

lemma fill_serves: "\<not> stream_from_flash ctx \<Longrightarrow> serves ctx (snd (webflash_stream_fill P ctx))"
  using keeps_busy [OF fill_frame(2) [of ctx P]] fill_stream [of P ctx] fill_frame(3) [of P ctx]
  by (auto simp: serves_def calm_def)

lemma calm_fill: "calm ctx \<Longrightarrow> stream_active ctx \<Longrightarrow> serves ctx (snd (webflash_stream_fill P ctx))"
  by (intro fill_serves) (simp add: calm_def)

lemma serves_upd [simp]:
  "serves ctx (ctx\<lparr>world := w\<rparr>)" "serves ctx (ctx\<lparr>world := w, output_pending := b\<rparr>)"
  "serves ctx (ctx\<lparr>last_activity := n\<rparr>)" "serves ctx (ctx\<lparr>reply_pending := n\<rparr>)"
  "serves ctx (ctx\<lparr>last_activity := n, reply_pending := m\<rparr>)" "serves ctx (ctx\<lparr>keep_config := b\<rparr>)"
  "serves ctx (ctx\<lparr>output_pending := b\<rparr>)" "serves ctx (ctx\<lparr>close_pending := b\<rparr>)"
  "serves ctx (ctx\<lparr>output_pending := b, close_pending := b'\<rparr>)" "serves ctx (ctx\<lparr>header := s\<rparr>)"
  "serves ctx (ctx\<lparr>last_activity := n, world := w\<rparr>)" "serves ctx (ctx\<lparr>now := n\<rparr>)"
  by (simp_all add: serves_def busy_frame_def calm_def)

lemma reply_stream:
  assumes "webflash_reply P ctx status ctype ptr = (ret, ctx')"
  shows "stream_from_flash ctx' \<Longrightarrow> stream_from_flash ctx" and "stream_from_flash ctx' \<Longrightarrow> stream_active ctx' \<Longrightarrow> stream_active ctx"
proof -
  have fl: "stream_from_flash c' = stream_from_flash c" if "webflash_stream_fill P c = (r, c')" for c r c'
    using that fill_stream(1) [of P c] by simp
  show "stream_from_flash ctx' \<Longrightarrow> stream_from_flash ctx" "stream_from_flash ctx' \<Longrightarrow> stream_active ctx' \<Longrightarrow> stream_active ctx"
    using assms by (auto simp: webflash_reply_def Let_def dest!: fl split: option.splits prod.splits if_splits)
qed

lemma reply_serves [simp]:
  "serves ctx (snd (webflash_reply P ctx status ctype ptr))"
  "serves ctx (snd (webflash_reply P (set_reply ctx s) status ctype ptr))"
proof -
  show 1: "serves ctx (snd (webflash_reply P ctx status ctype ptr))" for ctx
    using keeps_busy [OF reply_keeps [of ctx P status ctype ptr]] reply_snd(1) [of P ctx status ctype ptr]
      reply_stream [of P ctx status ctype ptr]
    by (cases "webflash_reply P ctx status ctype ptr") (auto simp: serves_def calm_def)
  have "serves ctx (set_reply ctx s)" by (simp add: set_reply_def serves_def busy_frame_def calm_def)
  from serves_trans [OF this 1] show "serves ctx (snd (webflash_reply P (set_reply ctx s) status ctype ptr))" .
qed

lemma error_serves [simp]:
  "serves ctx (webflash_error P ctx status message)" "serves ctx (snd (webflash_ok P ctx message))"
  by (simp_all add: webflash_error_def webflash_ok_def)

section \<open>Requests\<close>

lemma pages_serve [simp]:
  "serves ctx (snd (webflash_info P ctx))" "serves ctx (snd (webflash_job_status P ctx))"
  "serves ctx (snd (webflash_env_info P ctx))"
  by (simp_all only: webflash_info_def webflash_job_status_def webflash_env_info_def Let_def reply_serves)

lemma blocked_serve:
  assumes "webflash_operation_blocked ctx"
  shows "serves ctx (snd (webflash_eeprom_info P ctx))" "serves ctx (snd (webflash_start_download P ctx name))"
    "serves ctx (snd (webflash_prepare_upload P ctx p))" "serves ctx (snd (boot_ram P ctx))"
    "serves ctx (snd (webflash_start_uploaded_flash P ctx))" "serves ctx (snd (webflash_factory_reset P ctx))"
    "serves ctx (snd (webflash_prepare_body P ctx act))" "serves ctx (snd (webflash_env_reset P ctx))"
  using assms
  by (simp_all add: webflash_eeprom_info_def webflash_start_download_def webflash_prepare_upload_def boot_ram_def
      webflash_start_uploaded_flash_def webflash_factory_reset_def webflash_prepare_body_def webflash_env_reset_def
      Let_def)

lemma flash_request_serves:
  assumes "webflash_operation_blocked ctx"
  shows "serves ctx (snd (flash_request P ctx))"
proof -
  let ?c = "case webflash_header_value ctx ''X-Keep-Config'' 4 of Inl _ \<Rightarrow> ctx
    | Inr keep \<Rightarrow> ctx\<lparr>keep_config := (c0 keep = CHR ''1'')\<rparr>"
  have "serves ctx ?c" by (simp split: sum.splits)
  moreover have "webflash_operation_blocked ?c"
    using assms by (simp add: webflash_operation_blocked_def webflash_job_active_def split: sum.splits)
  ultimately show ?thesis using blocked_serve(5) serves_trans unfolding flash_request_def by blast
qed

lemma reboot_request_serves: "committed ctx \<Longrightarrow> serves ctx (snd (reboot_request P ctx))"
  by (auto simp: reboot_request_def committed_def)

lemma handle_headers_serves:
  assumes "committed ctx"
  shows "serves ctx (snd (webflash_handle_headers P ctx))"
  using committed_blocked [OF assms] reboot_request_serves [OF assms]
  by (simp add: webflash_handle_headers_def blocked_serve flash_request_serves split: option.splits)

section \<open>Callbacks\<close>

lemma consume_serves:
  assumes "committed ctx" "calm ctx"
  shows "serves ctx (snd (webflash_consume P ctx data))"
  using assms
proof (induction data arbitrary: ctx)
  case Nil
  then show ?case by simp
next
  case (Cons b bs)
  let ?c = "ctx\<lparr>header := header ctx @ [char_of_byte b]\<rparr>"
  have rx: "rx_state ctx \<noteq> WEBFLASH_RX_UPLOAD" "rx_state ctx \<noteq> WEBFLASH_RX_BODY"
    using Cons.prems by (simp_all add: calm_def)
  have c: "serves ctx ?c" "committed ?c" "calm ?c"
    using Cons.prems by (simp_all add: committed_def webflash_job_active_def calm_def)
  let ?h = "snd (webflash_handle_headers P ?c)"
  have h: "serves ctx ?h" using serves_trans [OF c(1) handle_headers_serves [OF c(2)]] .
  have "committed ?h" "calm ?h"
    using h Cons.prems committed_frame [of ctx ?h] by (simp_all add: serves_def)
  then have "serves ctx (snd (webflash_consume P ?h bs))" "serves ctx (snd (webflash_consume P ?c bs))"
    using serves_trans [OF h Cons.IH] serves_trans [OF c(1) Cons.IH] c(2,3) by blast+
  then show ?case using rx h by (simp add: Let_def)
qed

lemma recv_chain_serves:
  "committed ctx \<Longrightarrow> calm ctx \<Longrightarrow> serves ctx (recv_chain P ctx qs)"
proof (induction qs arbitrary: ctx)
  case Nil
  then show ?case by simp
next
  case (Cons q qs)
  let ?c = "snd (webflash_consume P ctx q)"
  have c: "serves ctx ?c" by (rule consume_serves [OF Cons.prems])
  then have "committed ?c" "calm ?c"
    using Cons.prems committed_frame [of ctx ?c] by (simp_all add: serves_def)
  from serves_trans [OF c Cons.IH [OF this]] c show ?case by (simp add: Let_def)
qed

lemma recv_serves:
  assumes "committed ctx" "calm ctx"
  shows "serves ctx (snd (webflash_recv P ctx pcb p err))"
proof -
  let ?c = "\<lambda>w. ctx\<lparr>last_activity := get_timer ctx 0, world := w\<rparr>"
  have "committed (?c w)" "calm (?c w)" for w
    using assms by (simp_all add: committed_def webflash_job_active_def calm_def)
  from serves_trans [OF _ recv_chain_serves [OF this]]
  have "serves ctx (recv_chain P (?c w) qs)" for w qs by simp
  then show ?thesis
    by (simp add: webflash_recv_def Let_def split_def close_serves abort_serves split: option.splits)
qed

lemma sent_close_serves: "serves ctx (snd (sent_close P ctx))"
  using serves_trans [OF serves_upd(9) [where b = False and b' = True] close_serves [of _ P]]
  by (simp add: sent_close_def Let_def split_def)

lemma sent_serves:
  assumes "calm ctx"
  shows "serves ctx (snd (webflash_sent P ctx pcb len))"
proof -
  let ?c = "ctx\<lparr>last_activity := get_timer ctx 0,
      reply_pending := (if reply_pending ctx \<le> ucast len then 0 else reply_pending ctx - ucast len)\<rparr>"
  have c: "serves ctx ?c" "calm ?c" using assms by (simp_all add: calm_def)
  let ?f = "snd (webflash_stream_fill P ?c)"
  have f: "serves ctx ?f" if "stream_active ctx"
    using serves_trans [OF c(1) calm_fill [OF c(2)]] that by simp
  have "serves ctx (webflash_abort_client P ?f)" "serves ctx (webflash_abort_client P (?f\<lparr>world := w\<rparr>))"
    "serves ctx (snd (sent_close P (?f\<lparr>world := w\<rparr>)))"
    "serves ctx (snd (sent_close P (?f\<lparr>world := w, output_pending := True\<rparr>)))" if "stream_active ctx" for w
    using f [OF that] by (blast intro: serves_trans abort_serves sent_close_serves serves_upd)+
  moreover have "serves ctx (snd (sent_close P ?c))" using serves_trans [OF c(1) sent_close_serves] .
  ultimately show ?thesis by (simp add: webflash_sent_def Let_def split_def)
qed

lemma poll_close_serves: "serves ctx (snd (poll_close P ctx))"
proof -
  have i: "serves c (snd (poll_idle P c))" for c by (simp add: poll_idle_def abort_serves)
  then have "serves ctx (snd (poll_idle P (snd (webflash_try_close_client P ctx))))"
    using serves_trans [OF close_serves] by blast
  then show ?thesis using i by (simp add: poll_close_def Let_def split_def close_serves)
qed

lemma poll_serves:
  assumes "calm ctx"
  shows "serves ctx (snd (webflash_poll P ctx pcb))"
proof -
  define r where "r = (if stream_active ctx then webflash_stream_fill P ctx else (0, ctx))"
  have r: "serves ctx (snd r)" using assms by (simp add: r_def calm_fill)
  define w where "w = tcp_output P (world (snd r)) pcb"
  have "snd (webflash_poll P ctx pcb) \<in> {webflash_abort_client P (snd r),
      snd (poll_close P ((snd r)\<lparr>world := snd w, output_pending := False\<rparr>)),
      webflash_abort_client P ((snd r)\<lparr>world := snd w\<rparr>),
      snd (poll_close P ((snd r)\<lparr>world := snd w\<rparr>)), snd (poll_close P (snd r))}"
    unfolding webflash_poll_def r_def [symmetric] Let_def split_def w_def [symmetric] by auto
  moreover have "serves ctx (webflash_abort_client P (snd r))"
    "serves ctx (snd (poll_close P ((snd r)\<lparr>world := snd w, output_pending := False\<rparr>)))"
    "serves ctx (webflash_abort_client P ((snd r)\<lparr>world := snd w\<rparr>))"
    "serves ctx (snd (poll_close P ((snd r)\<lparr>world := snd w\<rparr>)))" "serves ctx (snd (poll_close P (snd r)))"
    using r by (blast intro: serves_trans abort_serves poll_close_serves serves_upd)+
  ultimately show ?thesis by auto
qed

lemma accept_serves: "serves ctx (snd (webflash_accept P ctx new err))"
  by (auto simp: webflash_accept_def serves_def busy_frame_def calm_def Let_def split: option.splits)

lemma tcp_error_serves: "serves ctx (webflash_tcp_error ctx)"
  by (auto simp: webflash_tcp_error_def serves_def busy_frame_def calm_def)

lemma event_serves: "committed ctx \<Longrightarrow> calm ctx \<Longrightarrow> serves ctx (handle_event P ctx e)"
  by (cases e) (simp_all add: accept_serves recv_serves sent_serves tcp_error_serves poll_serves)

lemma events_serve:
  assumes "committed ctx" "calm ctx"
  shows "serves ctx (fold (\<lambda>e ctx. handle_event P ctx e) es ctx)"
proof (induction es rule: rev_induct)
  case Nil
  then show ?case by simp
next
  case (snoc e es)
  let ?c = "fold (\<lambda>e ctx. handle_event P ctx e) es ctx"
  have "committed ?c" "calm ?c" using snoc assms committed_frame [of ctx ?c] by (simp_all add: serves_def)
  from serves_trans [OF snoc event_serves [OF this]] show ?case by simp
qed

end
