(* ===== verification/SpiNorLive.thy ===== *)
theory SpiNorLive
  imports SpiNor
begin

text \<open>
  The SPI NOR driver while nobody presses Ctrl-C: every operation leaves the pending answers
  of \<open>ctrlc()\<close> alone or takes one, so on a quiet console an erase of whole sectors runs to its
  end.  A read never stores more than it was asked for, whatever the bus does.
\<close>

section \<open>The contract with an erase that succeeds\<close>

locale quiet_nor_flash = nor_flash +
  assumes erase_succeeds:
    "ok c \<Longrightarrow> unat off + unat len \<le> capacity c \<Longrightarrow> sector c dvd unat off \<Longrightarrow> sector c dvd unat len \<Longrightarrow>
     fst (sf_erase ops c off len) = 0"
begin

text \<open>Programming a sector-aligned range: all three operations succeed and the bytes are there.\<close>

lemma program_range:
  assumes "ok c" and "unat off + unat len \<le> capacity c" and "sector c dvd unat off" "sector c dvd unat len"
    and "length buf \<le> unat len" and "unat n = length buf"
  shows "\<exists>c1 c2 c3. sf_erase ops c off len = (0, c1) \<and> sf_write ops c1 off buf = (0, c2) \<and>
    sf_read ops c2 off n = (0, buf, c3) \<and> ok c3 \<and>
    (\<forall>a. \<not> (unat off \<le> a \<and> a < unat off + unat len) \<longrightarrow> view c3 a = view c a)"
proof -
  obtain r c1 where e: "sf_erase ops c off len = (r, c1)" by fastforce
  with erase_succeeds [OF assms(1-4)] have r: "r = 0" by simp
  obtain r2 c2 where w: "sf_write ops c1 off buf = (r2, c2)" by fastforce
  note c1 = erase_ok [OF assms(1,2) e]
  have le: "unat off + length buf \<le> capacity c1" using c1 assms(2,5) by simp
  from erase_write_read [OF assms(1,2,5) e [unfolded r] w assms(6)] obtain c3 where
    c3: "r2 = 0" "sf_read ops c2 off n = (0, buf, c3)" "ok c3" by blast
  from write_ok [OF _ le] c1 w have v2: "view c2 = (\<lambda>a. if unat off \<le> a \<and> a < unat off + length buf
      then view c1 a AND buf ! (a - unat off) else view c1 a)" "ok c2" "capacity c2 = capacity c1" by auto
  with read_ok [of c2 off n] le c3(2) assms(6) have "view c3 = view c2" by auto
  with c1 v2 assms(5) have "\<forall>a. \<not> (unat off \<le> a \<and> a < unat off + unat len) \<longrightarrow> view c3 a = view c a" by auto
  with c3 e r w show ?thesis by blast
qed

end

section \<open>Ctrl-C\<close>

lemma ctrlc_in_ops [simp]:
  "ctrlc_in (snd (spi_mem_exec_op nor)) = ctrlc_in nor"
  "ctrlc_in (snd (write_enable nor)) = ctrlc_in nor" "ctrlc_in (snd (write_disable nor)) = ctrlc_in nor"
  "ctrlc_in (snd (spi_nor_wait_till_ready nor)) = ctrlc_in nor"
proof -
  show 1: "ctrlc_in (snd (spi_mem_exec_op nor)) = ctrlc_in nor" for nor
    by (simp add: spi_mem_exec_op_def split: list.splits)
  show "ctrlc_in (snd (write_enable nor)) = ctrlc_in nor" "ctrlc_in (snd (write_disable nor)) = ctrlc_in nor"
    "ctrlc_in (snd (spi_nor_wait_till_ready nor)) = ctrlc_in nor"
    by (simp_all add: write_enable_def write_disable_def spi_nor_wait_till_ready_def Let_def split_def 1)
qed

lemma ctrlc_in_bank [simp]: "ctrlc_in (snd (write_bank_reg nor b)) = ctrlc_in nor"
  by (simp add: write_bank_reg_def Let_def split_def)

lemma ctrlc_in_bar [simp]:
  "ctrlc_in (snd (write_bar nor a)) = ctrlc_in nor" "ctrlc_in (snd (clean_bar nor)) = ctrlc_in nor"
  by (simp_all add: write_bar_def clean_bar_def Let_def split_def)

lemma ctrlc_in_data [simp]:
  "ctrlc_in (snd (snd (spi_nor_read_data nor a n))) = ctrlc_in nor"
  "ctrlc_in (snd (spi_nor_write_data nor a d)) = ctrlc_in nor"
  "ctrlc_in (snd (spi_nor_erase_chip nor)) = ctrlc_in nor"
  "ctrlc_in (snd (spi_nor_erase_sector nor a)) = ctrlc_in nor"
  by (simp_all add: spi_nor_read_data_def spi_nor_write_data_def page_program_def spi_nor_erase_chip_def
      spi_nor_erase_sector_def Let_def split_def)

text \<open>A turn of the read loop: it stops with what it has, or adds at most one bank.\<close>

lemma read_loop_cases:
  obtains (stop) e c where "read_loop nor a n buf = (e, buf, c)" "ctrlc_in c = ctrlc_in nor"
  | (go) k c bs where "read_loop nor a n buf = read_loop c (a + k) (n - k) (buf @ bs)" "0 < k" "k \<le> n"
      "length bs \<le> k" "ctrlc_in c = ctrlc_in nor"
proof -
  define k where "k = (if n < SZ_16M * (a div SZ_16M + 1) - a then n else SZ_16M * (a div SZ_16M + 1) - a)"
  define b where "b = write_bar nor a"
  define r where "r = spi_nor_read_data (snd b) a k"
  have eq: "read_loop nor a n buf = (if n = 0 then (None, buf, nor)
      else if fst b < 0 then (Some (fst b), buf, snd b)
      else if k = 0 then (Some (- EIO), buf, snd b)
      else if fst r \<le> 0 then (None, buf, snd (snd r))
      else read_loop (snd (snd r)) (a + k) (n - k) (buf @ fst (snd r)))"
    unfolding r_def b_def k_def by (subst read_loop.simps) (simp only: Let_def)
  have c: "ctrlc_in (snd b) = ctrlc_in nor" "ctrlc_in (snd (snd r)) = ctrlc_in nor" by (simp_all add: b_def r_def)
  have k: "k \<le> n" by (simp add: k_def)
  have l: "length (fst (snd r)) \<le> k" by (simp add: r_def spi_nor_read_data_def split_def Let_def)
  show thesis
  proof (cases "n = 0 \<or> fst b < 0 \<or> k = 0 \<or> fst r \<le> 0")
    case True
    then have "\<exists>e c. read_loop nor a n buf = (e, buf, c) \<and> ctrlc_in c = ctrlc_in nor"
      unfolding eq using c by auto
    then show ?thesis using stop by blast
  next
    case False
    then show ?thesis using eq c k l go [of "snd (snd r)" k "fst (snd r)"] by simp
  qed
qed

lemma read_loop_frame:
  "ctrlc_in (snd (snd (read_loop nor a n buf))) = ctrlc_in nor \<and>
   length (fst (snd (read_loop nor a n buf))) \<le> length buf + n"
proof (induction n arbitrary: nor a buf rule: less_induct)
  case (less n)
  show ?case
  proof (cases rule: read_loop_cases [of nor a n buf])
    case (stop e c)
    then show ?thesis by simp
  next
    case (go k c bs)
    with less [of "n - k" c "a + k" "buf @ bs"] show ?thesis by auto
  qed
qed

lemma ctrlc_in_write_loop: "ctrlc_in (snd (write_loop nor a buf i)) = ctrlc_in nor"
proof (induction nor a buf i rule: write_loop.induct)
  case (1 nor a buf i)
  define n where "n = min (page_size nor - (a + i) mod page_size nor) (length buf - i)"
  define b where "b = write_bar nor (a + i)"
  define r where "r = spi_nor_write_data (snd (write_enable (snd b))) (a + i) (take n (drop i buf))"
  define w where "w = spi_nor_wait_till_ready (snd r)"
  have eq: "write_loop nor a buf i = (if length buf \<le> i \<or> page_size nor = 0 then (None, nor)
      else if fst b < 0 then (Some (fst b), snd b) else if fst r < 0 then (None, snd r)
      else if fst w \<noteq> 0 then (None, snd w) else write_loop (snd w) a buf (i + n))"
    unfolding w_def r_def b_def n_def by (subst write_loop.simps) (simp only: Let_def)
  have c: "ctrlc_in (snd b) = ctrlc_in nor" "ctrlc_in (snd r) = ctrlc_in nor" "ctrlc_in (snd w) = ctrlc_in nor"
    by (simp_all add: b_def r_def w_def)
  have "ctrlc_in (snd (write_loop (snd w) a buf (i + n))) = ctrlc_in (snd w)"
    if "\<not> (length buf \<le> i \<or> page_size nor = 0)" "\<not> fst b < 0" "\<not> fst r < 0" "\<not> fst w \<noteq> 0"
    using "1.IH" [OF that(1) refl refl b_def that(2) n_def refl r_def that(3) w_def that(4)] .
  then show ?case unfolding eq using c by auto
qed

lemma ctrlc_in_read: "ctrlc_in (snd (snd (spi_nor_read nor a n))) = ctrlc_in nor"
proof -
  obtain e bs c where l: "read_loop nor a n [] = (e, bs, c)" by (metis prod_cases3)
  with read_loop_frame [of nor a n "[]"] have "ctrlc_in c = ctrlc_in nor" by simp
  with l show ?thesis by (simp add: spi_nor_read_def Let_def split_def split: option.splits)
qed

lemma ctrlc_in_write: "ctrlc_in (snd (spi_nor_write nor a buf)) = ctrlc_in nor"
  using ctrlc_in_write_loop [of nor a buf 0]
  by (auto simp: spi_nor_write_def split: prod.splits option.splits)

lemma ctrlc_in_turn:
  "ctrlc_in nor = [] \<Longrightarrow> ctrlc_in (snd (snd (erase_turn nor a n m))) = []"
  by (auto simp: erase_turn_def ctrlc_def Let_def split_def)

text \<open>With nothing typed no turn is interrupted.\<close>

lemma erase_turn_quiet:
  assumes "spi_mid nor" "0 < len" "addr + len \<le> mtd_size nor" "erasesize nor dvd addr" "erasesize nor dvd len"
    and "ctrlc_in nor = []" "erase_turn nor addr len max_size = (r, n, nor')"
  shows "r = 0"
proof -
  have x: "xfer nor = []" using assms(1) by (simp add: spi_mid_def)
  have wb: "write_bar nor addr = (0, set_bank nor (addr div SZ_16M))"
    using assms(1,2,3) by (intro write_bar_ok) simp_all
  show ?thesis using assms(6,7) x
    by (auto simp: erase_turn_def ctrlc_def wb spi_reg_defs spi_nor_erase_chip_def spi_nor_erase_sector_def
        Let_def split: if_splits)
qed

lemma erase_loop_quiet:
  assumes "spi_mid nor" "addr + len \<le> mtd_size nor" "erasesize nor dvd addr" "erasesize nor dvd len"
    "ctrlc_in nor = []"
  shows "fst (erase_loop nor addr len max_size) = 0 \<and> ctrlc_in (snd (erase_loop nor addr len max_size)) = []"
  using assms
proof (induction nor addr len max_size rule: erase_loop.induct)
  case (1 nor addr len max_size)
  show ?case
  proof (cases "len = 0")
    case True
    with 1 show ?thesis by (simp add: erase_loop.simps)
  next
    case False
    obtain r n nor1 where t: "erase_turn nor addr len max_size = (r, n, nor1)" by (metis prod_cases3)
    have q: "ctrlc_in nor1 = []" using ctrlc_in_turn [OF "1.prems"(5)] t by (metis snd_conv)
    have r0: "r = 0" using erase_turn_quiet [OF "1.prems"(1) _ "1.prems"(2-5) t] False by simp
    have "0 < len" using False by simp
    from erase_turn_ok [OF "1.prems"(1) this "1.prems"(2-4) t] r0
    have T: "spi_mid nor1" "mtd_size nor1 = mtd_size nor" "erasesize nor1 = erasesize nor"
        "0 < n" "n \<le> len" "erasesize nor dvd n"
      by auto
    have eq: "erase_loop nor addr len max_size = erase_loop nor1 (addr + n) (len - n) max_size"
      using t False r0 T by (simp add: erase_loop.simps [of nor addr len])
    show ?thesis unfolding eq
      using "1.IH" [OF False t [symmetric] refl] "1.prems" T r0 q by (simp add: dvd_diff_nat)
  qed
qed

lemma spi_nor_erase_quiet:
  assumes "spi_ok nor" "addr + len \<le> mtd_size nor" "erasesize nor dvd addr" "erasesize nor dvd len"
    "ctrlc_in nor = []"
  shows "fst (spi_nor_erase nor addr len) = 0 \<and> ctrlc_in (snd (spi_nor_erase nor addr len)) = []"
proof -
  have mid: "spi_mid nor" using assms(1) by (simp add: spi_ok_def)
  obtain r1 nor1 where l: "erase_loop nor addr len len = (r1, nor1)" by fastforce
  with erase_loop_quiet [OF mid assms(2-5)] have q: "r1 = 0" "ctrlc_in nor1 = []" by (metis fst_conv snd_conv)+
  have mid1: "spi_mid nor1" using erase_loop_ok [OF mid assms(2-4) l] by simp
  have "xfer (set_bank nor1 0) = []" using mid1 by (simp add: spi_mid_def)
  moreover have "ctrlc_in (set_bank nor1 0) = []" using q by (simp add: set_bank_def)
  ultimately show ?thesis using l q assms(4) clean_bar_ok [OF mid1]
    by (simp add: spi_nor_erase_def write_disable_def)
qed

definition spi_quiet :: "spi_nor \<Rightarrow> bool" where
  "spi_quiet nor \<longleftrightarrow> spi_ok nor \<and> ctrlc_in nor = []"

interpretation quiet: quiet_nor_flash spi_flash_std_ops array spi_quiet mtd_size erasesize
proof
  fix c :: spi_nor and off len :: u32
  assume "spi_quiet c" and "unat off + unat len \<le> mtd_size c"
  then show "\<exists>c'. sf_read spi_flash_std_ops c off len = (0, mem_bytes (array c) (unat off) (unat len), c') \<and>
      array c' = array c \<and> spi_quiet c' \<and> mtd_size c' = mtd_size c \<and> erasesize c' = erasesize c"
    using std.read_ok [of c off len] ctrlc_in_read [of c "unat off" "unat len"]
    by (auto simp: spi_quiet_def spi_flash_std_ops_def spi_flash_std_read_def)
next
  fix c :: spi_nor and off :: u32 and buf :: "byte list"
  assume "spi_quiet c" and "unat off + length buf \<le> mtd_size c"
  then show "\<exists>c'. sf_write spi_flash_std_ops c off buf = (0, c') \<and>
      array c' = (\<lambda>a. if unat off \<le> a \<and> a < unat off + length buf
         then array c a AND buf ! (a - unat off) else array c a) \<and>
      spi_quiet c' \<and> mtd_size c' = mtd_size c \<and> erasesize c' = erasesize c"
    using std.write_ok [of c off buf] ctrlc_in_write [of c "unat off" buf]
    by (auto simp: spi_quiet_def spi_flash_std_ops_def spi_flash_std_write_def)
next
  fix c c' :: spi_nor and off len :: u32 and r :: int
  assume a: "spi_quiet c" "unat off + unat len \<le> mtd_size c" "sf_erase spi_flash_std_ops c off len = (r, c')"
  have "ctrlc_in c' = []"
  proof (cases "unat off mod erasesize c = 0 \<and> unat len mod erasesize c = 0")
    case True
    then have "erasesize c dvd unat off" "erasesize c dvd unat len" by auto
    with a spi_nor_erase_quiet [of c "unat off" "unat len"] show ?thesis
      by (auto simp: spi_quiet_def spi_flash_std_ops_def spi_flash_std_erase_def split: if_splits)
  next
    case False
    with a show ?thesis by (auto simp: spi_quiet_def spi_flash_std_ops_def spi_flash_std_erase_def)
  qed
  with a std.erase_ok [of c off len r c'] show "spi_quiet c' \<and> mtd_size c' = mtd_size c \<and> erasesize c' = erasesize c \<and>
      (\<forall>a. \<not> (unat off \<le> a \<and> a < unat off + unat len) \<longrightarrow> array c' a = array c a) \<and>
      (r = 0 \<longrightarrow> (\<forall>a. unat off \<le> a \<and> a < unat off + unat len \<longrightarrow> array c' a = 0xff))"
    by (simp add: spi_quiet_def)
next
  fix c :: spi_nor and off len :: u32
  assume a: "spi_quiet c" "unat off + unat len \<le> mtd_size c" "erasesize c dvd unat off" "erasesize c dvd unat len"
  then have "0 < erasesize c" by (simp add: spi_quiet_def spi_ok_def spi_mid_def spi_geometry_def)
  with a spi_nor_erase_quiet [of c "unat off" "unat len"] show "fst (sf_erase spi_flash_std_ops c off len) = 0"
    by (simp add: spi_quiet_def spi_flash_std_ops_def spi_flash_std_erase_def)
qed

section \<open>Reads stay in the buffer\<close>

lemma std_read_bounded: "length (fst (snd (spi_flash_std_read nor off len))) \<le> unat len"
  using read_loop_frame [of nor "unat off" "unat len" "[]"]
  by (auto simp: spi_flash_std_read_def spi_nor_read_def Let_def split: prod.splits option.splits)

section \<open>Programming the flash\<close>

text \<open>C26: The SPI NOR driver programs what it is given.  On a chip whose transfers succeed, erasing a range of whole
  sectors, writing a buffer to it and reading it back all succeed, across the 16 MiB banks and
  however the pages cut it; the buffer comes back and no byte outside the range has changed.\<close>

theorem spi_program_range:
  assumes "spi_quiet nor" "unat off + unat len \<le> mtd_size nor" "erasesize nor dvd unat off" "erasesize nor dvd unat len"
    and "length buf \<le> unat len" "unat n = length buf"
  shows "\<exists>nor1 nor2 nor3. spi_flash_std_erase nor off len = (0, nor1) \<and> spi_flash_std_write nor1 off buf = (0, nor2) \<and>
    spi_flash_std_read nor2 off n = (0, buf, nor3) \<and> spi_quiet nor3 \<and>
    (\<forall>a. \<not> (unat off \<le> a \<and> a < unat off + unat len) \<longrightarrow> array nor3 a = array nor a)"
  using quiet.program_range [OF assms] by (simp add: spi_flash_std_ops_def)

end
