(* ===== verification/FlashJob.thy ===== *)
theory FlashJob
  imports Busy SpiNorLive
begin

text \<open>
  What a flash job does to the flash.  A job that starts well formed erases its range, writes
  its image and reads it back in chunks of at most 64 KiB; in between the console goes on
  serving requests.  The invariant says which part of the range is erased, written or checked
  at each moment; it is proved once, in a locale over any device that keeps the contract of
  theory SpiNor, and interpreted on the SPI NOR driver.
\<close>

section \<open>Image, shape and contents of a job\<close>

text \<open>The bytes a job writes: from RAM, or from the patched factory partition.\<close>

definition job_image :: "('c, 'w) platform \<Rightarrow> ('c, 'w) webflash_ctx \<Rightarrow> byte list" where
  "job_image P ctx =
     (let j = job ctx; n = unat (write_size j)
      in if source_buffer j = Null then mem_bytes (map_sysmem ctx (source_addr j)) 0 n
         else mem_read P ctx (source_buffer j) n)"

definition job_wf :: "nat \<Rightarrow> ('c, 'w) platform \<Rightarrow> ('c, 'w) webflash_ctx \<Rightarrow> bool" where
  "job_wf s P ctx \<longleftrightarrow>
     (let j = job ctx
      in mode j = WEBFLASH_JOB_FLASH \<and> (\<exists>p. part j = Some p \<and> p_offset p = erase_offset j) \<and>
         0 < unat (write_size j) \<and> unat (write_size j) \<le> unat (erase_size j) \<and>
         unat (erase_offset j) + unat (erase_size j) \<le> 0x2000000 \<and>
         s dvd 65536 \<and> s dvd unat (erase_offset j) \<and> s dvd unat (erase_size j) \<and>
         (source_buffer j = Null \<or> source_buffer j = Factory_buf 0) \<and>
         length (job_image P ctx) = unat (write_size j) \<and>
         source_crc j = crc32 0 0 (job_image P ctx))"

definition job_content :: "nat \<Rightarrow> (nat \<Rightarrow> byte) \<Rightarrow> (nat \<Rightarrow> byte) \<Rightarrow> byte list \<Rightarrow> webflash_job \<Rightarrow> bool" where
  "job_content s v0 v img j \<longleftrightarrow>
     (let off = unat (erase_offset j); es = unat (erase_size j); ws = unat (write_size j); k = unat (processed j)
      in (\<forall>a. \<not> (off \<le> a \<and> a < off + es) \<longrightarrow> v a = v0 a) \<and>
         (case phase j of
            WEBFLASH_PHASE_ERASING \<Rightarrow> k < es \<and> s dvd k \<and> (\<forall>a. off \<le> a \<and> a < off + k \<longrightarrow> v a = 0xff)
          | WEBFLASH_PHASE_WRITING \<Rightarrow> k < ws \<and> mem_bytes v off k = take k img \<and>
              (\<forall>a. off + k \<le> a \<and> a < off + es \<longrightarrow> v a = 0xff)
          | WEBFLASH_PHASE_VERIFYING \<Rightarrow> k < ws \<and> mem_bytes v off ws = img \<and>
              (\<forall>a. off + ws \<le> a \<and> a < off + es \<longrightarrow> v a = 0xff) \<and> verify_crc j = crc32 0 0 (take k img)
          | WEBFLASH_PHASE_DONE \<Rightarrow> mem_bytes v off ws = img \<and> (\<forall>a. off + ws \<le> a \<and> a < off + es \<longrightarrow> v a = 0xff)
          | _ \<Rightarrow> False))"

text \<open>The turns of the main loop a job still needs.\<close>

definition chunks :: "nat \<Rightarrow> nat" where
  "chunks n = (n + 65535) div 65536"

definition turns_left :: "webflash_job \<Rightarrow> nat" where
  "turns_left j =
     (case phase j of
        WEBFLASH_PHASE_ERASING \<Rightarrow> chunks (unat (erase_size j) - unat (processed j)) + 2 * chunks (unat (write_size j))
      | WEBFLASH_PHASE_WRITING \<Rightarrow> chunks (unat (write_size j) - unat (processed j)) + chunks (unat (write_size j))
      | WEBFLASH_PHASE_VERIFYING \<Rightarrow> chunks (unat (write_size j) - unat (processed j))
      | _ \<Rightarrow> 0)"

lemma chunks_0 [simp]: "chunks 0 = 0"
  by (simp add: chunks_def)

lemma chunks_step: "0 < n \<Longrightarrow> chunks n = Suc (chunks (n - min n 65536))"
  by (cases "n \<le> 65536") (auto simp: chunks_def min_def)

section \<open>Chunks\<close>

text \<open>A sector that divides 64 KiB never makes an erase chunk smaller.\<close>

lemma job_chunk_erase:
  assumes "unat sector dvd 65536" and "unat sector dvd unat remaining"
  shows "unat (webflash_job_chunk sector remaining True) = min (unat remaining) 65536"
proof -
  let ?c = "min remaining WEBFLASH_IO_SIZE"
  have le: "\<not> WEBFLASH_IO_SIZE < sector"
    using dvd_imp_le [OF assms(1)] by (simp add: u32_less_iff)
  have c: "unat ?c = min (unat remaining) 65536" by (simp add: unat_min)
  then have "unat sector dvd unat ?c" using assms by (auto simp: min_def)
  then have "unat (?c mod sector) = 0" by (simp add: unat_mod)
  then have m: "?c mod sector = 0" by (simp add: u32_eq_0_iff)
  show ?thesis
  proof (cases "remaining = 0")
    case True
    then show ?thesis using le m by (simp add: webflash_job_chunk_def rounddown_def)
  next
    case False
    then have "?c \<noteq> 0" using c by (auto simp: u32_eq_0_iff min_def)
    then show ?thesis using le m c by (simp add: webflash_job_chunk_def rounddown_def Let_def)
  qed
qed

lemma job_chunk_copy: "unat (webflash_job_chunk sector remaining False) = min (unat remaining) 65536"
  by (simp add: webflash_job_chunk_def unat_min)

text \<open>The remaining bytes, and the position after a chunk.\<close>

lemma same_phase: "phase j = ph \<Longrightarrow> j\<lparr>processed := k, phase := ph\<rparr> = j\<lparr>processed := k\<rparr>"
  "phase j = ph \<Longrightarrow> j\<lparr>verify_crc := vc, processed := k, phase := ph\<rparr> = j\<lparr>verify_crc := vc, processed := k\<rparr>"
  by (cases j, simp)+

lemma remaining_unat: "unat (k :: u32) < unat n \<Longrightarrow> unat (n - k) = unat n - unat k"
  by (rule unat_sub_no_wrap) (simp add: u32_le_iff)

lemma advance_unat:
  assumes "unat (k :: u32) < unat n" and "unat c = min (unat n - unat k) 65536"
  shows "unat (k + c) = unat k + min (unat n - unat k) 65536" and "(k + c = n) = (unat (k + c) = unat n)"
proof -
  have "unat k + unat c \<le> unat n" using assms by simp
  then have "unat k + unat c < 2 ^ 32" using u32_unat_lt [of n] by linarith
  then show "unat (k + c) = unat k + min (unat n - unat k) 65536" by (simp add: unat_add_no_wrap assms(2))
  show "(k + c = n) = (unat (k + c) = unat n)" by (simp add: word_unat_eq_iff)
qed

lemma job_source_image:
  assumes "source_buffer (job ctx) = Null \<or> source_buffer (job ctx) = Factory_buf 0"
    and "unat (processed (job ctx)) + len \<le> unat (write_size (job ctx))"
  shows "job_source P ctx len = take len (drop (unat (processed (job ctx))) (job_image P ctx))"
proof (cases "source_buffer (job ctx) = Null")
  case True
  have "mem_bytes (map_sysmem ctx (source_addr (job ctx) + processed (job ctx))) 0 len =
      take len (drop (unat (processed (job ctx))) (job_image P ctx))"
    using assms(2) True by (intro nth_equalityI) (simp_all add: job_image_def map_sysmem_def add.assoc Let_def)
  with True show ?thesis by (simp add: job_source_def)
next
  case False
  with assms show ?thesis by (auto simp: job_source_def job_image_def drop_take min_def)
qed

section \<open>One step\<close>

definition same_job :: "webflash_job \<Rightarrow> webflash_job \<Rightarrow> bool" where
  "same_job a b \<longleftrightarrow>
     mode b = mode a \<and> part b = part a \<and> source_addr b = source_addr a \<and> source_buffer b = source_buffer a \<and>
     erase_offset b = erase_offset a \<and> erase_size b = erase_size a \<and> write_size b = write_size a \<and>
     source_crc b = source_crc a"

text \<open>Bytes programmed after an image prefix, into erased cells, extend the prefix.\<close>

lemma program_extends:
  assumes "mem_bytes v off k = take k img" and "k + n \<le> length img"
    and "\<And>a. off + k \<le> a \<Longrightarrow> a < off + k + n \<Longrightarrow> v a = 0xff"
    and "v' = (\<lambda>a. if off + k \<le> a \<and> a < off + k + n then v a AND take n (drop k img) ! (a - (off + k)) else v a)"
  shows "mem_bytes v' off (k + n) = take (k + n) img"
proof -
  have "mem_bytes v' off k = mem_bytes v off k" using assms(4) by (intro mem_bytes_cong) simp
  moreover have "mem_bytes v' (off + k) n = take n (drop k img)"
    using assms by (intro nth_equalityI) simp_all
  ultimately show ?thesis using assms(1) by (simp add: mem_bytes_add take_add)
qed

locale flash_platform = nor_flash ops view ok capacity sector
  for ops :: "'c dm_spi_flash_ops" and view :: "'c \<Rightarrow> nat \<Rightarrow> byte" and ok :: "'c \<Rightarrow> bool"
    and capacity sector :: "'c \<Rightarrow> nat" +
  fixes P :: "('c, 'w) platform"
  assumes platform_ops: "sf_ops P = ops"
    and platform_sector: "ok c \<Longrightarrow> unat (sf_sector_size P c) = sector c"
begin

text \<open>
  The job is well formed for the device, the device works, and it holds what it held when
  the job began (\<open>v0\<close>) as far as the job has come.
\<close>

definition job_inv :: "(nat \<Rightarrow> byte) \<Rightarrow> byte list \<Rightarrow> ('c, 'w) webflash_ctx \<Rightarrow> bool" where
  "job_inv v0 img ctx \<longleftrightarrow>
     ok (flash ctx) \<and> 0x2000000 \<le> capacity (flash ctx) \<and> job_image P ctx = img \<and>
     job_wf (sector (flash ctx)) P ctx \<and> job_content (sector (flash ctx)) v0 (view (flash ctx)) img (job ctx)"

text \<open>After a failure: the device works, and nothing outside the range has changed.\<close>

definition job_failed :: "(nat \<Rightarrow> byte) \<Rightarrow> ('c, 'w) webflash_ctx \<Rightarrow> bool" where
  "job_failed v0 ctx \<longleftrightarrow>
     ok (flash ctx) \<and> phase (job ctx) = WEBFLASH_PHASE_ERROR \<and>
     (\<forall>a. \<not> (unat (erase_offset (job ctx)) \<le> a \<and>
            a < unat (erase_offset (job ctx)) + unat (erase_size (job ctx))) \<longrightarrow> view (flash ctx) a = v0 a)"

text \<open>The device refuses to erase some sectors it has.\<close>

definition erase_refused :: "'c \<Rightarrow> bool" where
  "erase_refused c \<longleftrightarrow>
     (\<exists>off len. unat off + unat len \<le> capacity c \<and> sector c dvd unat off \<and> sector c dvd unat len \<and>
        fst (sf_erase ops c off len) \<noteq> 0)"

lemma job_invD:
  assumes "job_inv v0 img ctx"
  obtains p where "part (job ctx) = Some p" "p_offset p = erase_offset (job ctx)"
    "mode (job ctx) = WEBFLASH_JOB_FLASH" "ok (flash ctx)"
    "unat (erase_offset (job ctx)) + unat (erase_size (job ctx)) \<le> 0x2000000"
    "unat (erase_offset (job ctx)) + unat (erase_size (job ctx)) \<le> capacity (flash ctx)"
    "0 < unat (write_size (job ctx))" "unat (write_size (job ctx)) \<le> unat (erase_size (job ctx))"
    "length img = unat (write_size (job ctx))" "source_crc (job ctx) = crc32 0 0 img"
    "source_buffer (job ctx) = Null \<or> source_buffer (job ctx) = Factory_buf 0" "job_image P ctx = img"
    "unat (sf_sector_size P (flash ctx)) = sector (flash ctx)" "sector (flash ctx) dvd 65536"
    "sector (flash ctx) dvd unat (erase_offset (job ctx))" "sector (flash ctx) dvd unat (erase_size (job ctx))"
  using assms platform_sector [of "flash ctx"]
  by (auto simp: job_inv_def job_wf_def Let_def)

text \<open>A step changes of the job only its phase, its position and its checksum.\<close>

lemma job_wf_step:
  assumes "job_inv v0 img ctx" "s = sector (flash ctx)" and j: "same_job (job ctx) (job ctx')"
    and "ram ctx' = ram ctx" "factory_buf ctx' = factory_buf ctx"
  shows "job_wf s P ctx' \<and> job_image P ctx' = img"
proof -
  have wf: "job_wf s P ctx" "job_image P ctx = img" using assms(1,2) by (simp_all add: job_inv_def)
  then have "source_buffer (job ctx) = Null \<or> source_buffer (job ctx) = Factory_buf 0"
    by (simp add: job_wf_def Let_def)
  then have "job_image P ctx' = job_image P ctx"
    using assms(4,5) j by (auto simp: job_image_def map_sysmem_def Let_def same_job_def)
  then show ?thesis using wf j by (simp add: job_wf_def Let_def same_job_def)
qed

lemma erase_step_ok:
  assumes inv: "job_inv v0 img ctx" and ph: "phase (job ctx) = WEBFLASH_PHASE_ERASING"
  shows "(job_inv v0 img (webflash_job_step P ctx) \<and>
      turns_left (job ctx) = Suc (turns_left (job (webflash_job_step P ctx))) \<and>
      phase (job (webflash_job_step P ctx)) \<noteq> WEBFLASH_PHASE_DONE \<and>
      reboot_pending (webflash_job_step P ctx) = reboot_pending ctx) \<or>
    (job_failed v0 (webflash_job_step P ctx) \<and> erase_refused (flash ctx))"
proof -
  obtain p where J: "part (job ctx) = Some p" "mode (job ctx) = WEBFLASH_JOB_FLASH" "ok (flash ctx)"
    "unat (erase_offset (job ctx)) + unat (erase_size (job ctx)) \<le> 0x2000000"
    "unat (erase_offset (job ctx)) + unat (erase_size (job ctx)) \<le> capacity (flash ctx)"
    "0 < unat (write_size (job ctx))"
    "unat (sf_sector_size P (flash ctx)) = sector (flash ctx)" "sector (flash ctx) dvd 65536"
    "sector (flash ctx) dvd unat (erase_size (job ctx))" "sector (flash ctx) dvd unat (erase_offset (job ctx))"
    using job_invD [OF inv] by blast
  let ?j = "job ctx" and ?o = "unat (erase_offset (job ctx))" and ?es = "unat (erase_size (job ctx))"
  let ?k = "unat (processed ?j)" and ?s = "sector (flash ctx)"
  have C: "?k < ?es" "?s dvd ?k" "\<forall>a. ?o \<le> a \<and> a < ?o + ?k \<longrightarrow> view (flash ctx) a = 0xff"
      "\<forall>a. \<not> (?o \<le> a \<and> a < ?o + ?es) \<longrightarrow> view (flash ctx) a = v0 a"
    using inv ph by (simp_all add: job_inv_def job_content_def Let_def)
  define chunk where "chunk = webflash_job_chunk (sf_sector_size P (flash ctx)) (erase_size ?j - processed ?j) True"
  have rem: "unat (erase_size ?j - processed ?j) = ?es - ?k" by (rule remaining_unat [OF C(1)])
  have chunk: "unat chunk = min (?es - ?k) 65536"
    unfolding chunk_def by (subst job_chunk_erase) (use J C(2) rem in \<open>simp_all add: dvd_diff_nat\<close>)
  note adv = advance_unat [OF C(1) chunk]
  have addr: "unat (erase_offset ?j + processed ?j) = ?o + ?k" using J(4) C(1) by (intro unat_add_no_wrap) simp
  obtain ret c where e: "sf_erase ops (flash ctx) (erase_offset ?j + processed ?j) chunk = (ret, c)" by fastforce
  have fits: "unat (erase_offset ?j + processed ?j) + unat chunk \<le> capacity (flash ctx)"
    using addr chunk C(1) J(5) by simp
  note E = erase_ok [OF J(3) fits e, unfolded addr chunk]
  have out: "\<forall>a. \<not> (?o \<le> a \<and> a < ?o + ?es) \<longrightarrow> view c a = v0 a" using E C by auto
  have step: "webflash_job_step P ctx = (if ret \<noteq> 0 then webflash_job_fail (ctx\<lparr>flash := c\<rparr>) ''erase'' ret
      else if processed ?j + chunk = erase_size ?j
        then ctx\<lparr>flash := c, job := ?j\<lparr>processed := 0, phase := WEBFLASH_PHASE_WRITING\<rparr>\<rparr>
        else ctx\<lparr>flash := c, job := ?j\<lparr>processed := processed ?j + chunk, phase := WEBFLASH_PHASE_ERASING\<rparr>\<rparr>)"
    using ph e J(2)
    by (simp add: webflash_job_step_def job_erase_step_def chunk_def platform_ops same_phase [OF ph] Let_def)
  show ?thesis
  proof (cases "ret = 0")
    case False
    have "?s dvd unat (erase_offset ?j + processed ?j)" "?s dvd unat chunk"
      unfolding addr chunk using J C(2) by (auto simp: min_def dvd_diff_nat)
    with False e J(3) fits have "erase_refused (flash ctx)" unfolding erase_refused_def by (metis fst_conv)
    with False step E out show ?thesis by (simp add: job_failed_def webflash_job_fail_def)
  next
    case True
    have ff: "\<forall>a. ?o \<le> a \<and> a < ?o + (?k + min (?es - ?k) 65536) \<longrightarrow> view c a = 0xff"
    proof (intro allI impI)
      fix a assume a: "?o \<le> a \<and> a < ?o + (?k + min (?es - ?k) 65536)"
      show "view c a = 0xff"
      proof (cases "a < ?o + ?k")
        case before: True
        then have "view c a = view (flash ctx) a" using E by simp
        then show ?thesis using C(3) a before by simp
      next
        case False
        then show ?thesis using E True a by simp
      qed
    qed
    let ?w = "ctx\<lparr>flash := c, job := ?j\<lparr>processed := 0, phase := WEBFLASH_PHASE_WRITING\<rparr>\<rparr>"
    let ?e = "ctx\<lparr>flash := c, job := ?j\<lparr>processed := processed ?j + chunk, phase := WEBFLASH_PHASE_ERASING\<rparr>\<rparr>"
    have wf: "job_wf (sector c) P ?w \<and> job_image P ?w = img" "job_wf (sector c) P ?e \<and> job_image P ?e = img"
      by (rule job_wf_step [OF inv]; use E in \<open>simp add: same_job_def\<close>)+
    show ?thesis
    proof (cases "processed ?j + chunk = erase_size ?j")
      case fin: True
      then have k: "?k + min (?es - ?k) 65536 = ?es" using adv by simp
      with inv E wf out ff J(6) have "job_inv v0 img ?w"
        by (simp add: job_inv_def job_content_def Let_def)
      moreover have "turns_left ?j = Suc (turns_left (job ?w))"
        using chunks_step [of "?es - ?k"] k C(1) ph by (simp add: turns_left_def)
      ultimately show ?thesis using True fin step by simp
    next
      case more: False
      have dv: "?s dvd ?k + min (?es - ?k) 65536" using C(2) J(8,9) by (auto simp: min_def dvd_diff_nat)
      have lt: "?k + min (?es - ?k) 65536 < ?es" using more adv C(1) by (auto simp: min_def)
      with inv E wf out ff adv dv have "job_inv v0 img ?e"
        by (simp add: job_inv_def job_content_def Let_def)
      moreover have "turns_left ?j = Suc (turns_left (job ?e))"
        using chunks_step [of "?es - ?k"] C(1) ph by (simp add: turns_left_def adv)
      ultimately show ?thesis using True more step by simp
    qed
  qed
qed

lemma write_step_ok:
  assumes inv: "job_inv v0 img ctx" and ph: "phase (job ctx) = WEBFLASH_PHASE_WRITING"
  shows "job_inv v0 img (webflash_job_step P ctx) \<and>
      turns_left (job ctx) = Suc (turns_left (job (webflash_job_step P ctx))) \<and>
      phase (job (webflash_job_step P ctx)) \<noteq> WEBFLASH_PHASE_DONE \<and>
      reboot_pending (webflash_job_step P ctx) = reboot_pending ctx"
proof -
  obtain p where J: "part (job ctx) = Some p" "p_offset p = erase_offset (job ctx)" "ok (flash ctx)"
    "unat (erase_offset (job ctx)) + unat (erase_size (job ctx)) \<le> 0x2000000"
    "unat (erase_offset (job ctx)) + unat (erase_size (job ctx)) \<le> capacity (flash ctx)"
    "0 < unat (write_size (job ctx))" "unat (write_size (job ctx)) \<le> unat (erase_size (job ctx))"
    "length img = unat (write_size (job ctx))" "job_image P ctx = img"
    "source_buffer (job ctx) = Null \<or> source_buffer (job ctx) = Factory_buf 0"
    using job_invD [OF inv] by blast
  let ?j = "job ctx" and ?o = "unat (erase_offset (job ctx))" and ?es = "unat (erase_size (job ctx))"
  let ?k = "unat (processed ?j)" and ?ws = "unat (write_size ?j)"
  let ?n = "min (?ws - ?k) 65536"
  have C: "?k < ?ws" "mem_bytes (view (flash ctx)) ?o ?k = take ?k img"
      "\<forall>a. ?o + ?k \<le> a \<and> a < ?o + ?es \<longrightarrow> view (flash ctx) a = 0xff"
      "\<forall>a. \<not> (?o \<le> a \<and> a < ?o + ?es) \<longrightarrow> view (flash ctx) a = v0 a"
    using inv ph by (simp_all add: job_inv_def job_content_def Let_def)
  define chunk where "chunk = webflash_job_chunk (sf_sector_size P (flash ctx)) (write_size ?j - processed ?j) False"
  have chunk: "unat chunk = ?n"
    unfolding chunk_def by (simp add: job_chunk_copy remaining_unat [OF C(1)])
  note adv = advance_unat [OF C(1) chunk]
  have addr: "unat (erase_offset ?j + processed ?j) = ?o + ?k" using J(4,7) C(1) by (intro unat_add_no_wrap) simp
  have src: "job_source P ctx (unat chunk) = take ?n (drop ?k img)"
    unfolding chunk J(9) [symmetric] using C(1) J(10) by (intro job_source_image) simp_all
  have len: "length (take ?n (drop ?k img)) = ?n" using J(8) by simp
  have fits: "unat (erase_offset ?j + processed ?j) + length (take ?n (drop ?k img)) \<le> capacity (flash ctx)"
    unfolding addr len using J(5,7) C(1) by linarith
  obtain c where w: "sf_write ops (flash ctx) (erase_offset ?j + processed ?j) (take ?n (drop ?k img)) = (0, c)"
      "view c = (\<lambda>a. if ?o + ?k \<le> a \<and> a < ?o + ?k + ?n
        then view (flash ctx) a AND take ?n (drop ?k img) ! (a - (?o + ?k)) else view (flash ctx) a)"
      "ok c" "capacity c = capacity (flash ctx)" "sector c = sector (flash ctx)"
    using write_ok [OF J(3) fits, unfolded addr len] by blast
  have pre: "mem_bytes (view c) ?o (?k + ?n) = take (?k + ?n) img"
    by (rule program_extends [OF C(2) _ _ w(2)]) (use C J in auto)
  have out: "\<forall>a. \<not> (?o \<le> a \<and> a < ?o + ?es) \<longrightarrow> view c a = v0 a"
    using C J(7) unfolding w(2) by auto
  have ff: "\<forall>a. ?o + (?k + ?n) \<le> a \<and> a < ?o + ?es \<longrightarrow> view c a = 0xff" using C unfolding w(2) by auto
  let ?v = "ctx\<lparr>flash := c, job := ?j\<lparr>processed := 0, verify_crc := 0, phase := WEBFLASH_PHASE_VERIFYING\<rparr>\<rparr>"
  let ?w = "ctx\<lparr>flash := c, job := ?j\<lparr>processed := processed ?j + chunk, phase := WEBFLASH_PHASE_WRITING\<rparr>\<rparr>"
  have step: "webflash_job_step P ctx = (if processed ?j + chunk = write_size ?j then ?v else ?w)"
    using ph w(1) J(1,2) src
    by (simp add: webflash_job_step_def job_write_step_def chunk_def platform_ops same_phase [OF ph] Let_def)
  have wf: "job_wf (sector c) P ?v \<and> job_image P ?v = img" "job_wf (sector c) P ?w \<and> job_image P ?w = img"
    by (rule job_wf_step [OF inv]; use w(5) in \<open>simp add: same_job_def\<close>)+
  show ?thesis
  proof (cases "processed ?j + chunk = write_size ?j")
    case fin: True
    then have k: "?k + ?n = ?ws" using adv by simp
    with inv w wf out ff pre J(6,8) have "job_inv v0 img ?v"
      by (simp add: job_inv_def job_content_def Let_def)
    moreover have "turns_left ?j = Suc (turns_left (job ?v))"
      using chunks_step [of "?ws - ?k"] k C(1) ph by (simp add: turns_left_def)
    ultimately show ?thesis using fin step by simp
  next
    case more: False
    have lt: "?k + ?n < ?ws" using more adv C(1) by (auto simp: min_def)
    with inv w wf out ff pre adv have "job_inv v0 img ?w"
      by (simp add: job_inv_def job_content_def Let_def)
    moreover have "turns_left ?j = Suc (turns_left (job ?w))"
      using chunks_step [of "?ws - ?k"] C(1) ph by (simp add: turns_left_def adv)
    ultimately show ?thesis using more step by simp
  qed
qed

lemma verify_step_ok:
  assumes inv: "job_inv v0 img ctx" and ph: "phase (job ctx) = WEBFLASH_PHASE_VERIFYING"
  shows "job_inv v0 img (webflash_job_step P ctx) \<and>
      turns_left (job ctx) = Suc (turns_left (job (webflash_job_step P ctx))) \<and>
      reboot_pending (webflash_job_step P ctx) =
        (phase (job (webflash_job_step P ctx)) = WEBFLASH_PHASE_DONE \<or> reboot_pending ctx)"
proof -
  obtain p where J: "part (job ctx) = Some p" "p_offset p = erase_offset (job ctx)" "ok (flash ctx)"
    "unat (erase_offset (job ctx)) + unat (erase_size (job ctx)) \<le> 0x2000000"
    "unat (erase_offset (job ctx)) + unat (erase_size (job ctx)) \<le> capacity (flash ctx)"
    "unat (write_size (job ctx)) \<le> unat (erase_size (job ctx))"
    "length img = unat (write_size (job ctx))" "source_crc (job ctx) = crc32 0 0 img"
    using job_invD [OF inv] by blast
  let ?j = "job ctx" and ?o = "unat (erase_offset (job ctx))" and ?es = "unat (erase_size (job ctx))"
  let ?k = "unat (processed ?j)" and ?ws = "unat (write_size ?j)" and ?v = "view (flash ctx)"
  let ?n = "min (?ws - ?k) 65536"
  have C: "?k < ?ws" "mem_bytes ?v ?o ?ws = img" "\<forall>a. ?o + ?ws \<le> a \<and> a < ?o + ?es \<longrightarrow> ?v a = 0xff"
      "verify_crc ?j = crc32 0 0 (take ?k img)" "\<forall>a. \<not> (?o \<le> a \<and> a < ?o + ?es) \<longrightarrow> ?v a = v0 a"
    using inv ph by (simp_all add: job_inv_def job_content_def Let_def)
  define chunk where "chunk = webflash_job_chunk (sf_sector_size P (flash ctx)) (write_size ?j - processed ?j) False"
  have chunk: "unat chunk = ?n"
    unfolding chunk_def by (simp add: job_chunk_copy remaining_unat [OF C(1)])
  note adv = advance_unat [OF C(1) chunk]
  have addr: "unat (erase_offset ?j + processed ?j) = ?o + ?k" using J(4,6) C(1) by (intro unat_add_no_wrap) simp
  have fits: "unat (erase_offset ?j + processed ?j) + unat chunk \<le> capacity (flash ctx)"
    unfolding addr chunk using J(5,6) C(1) by linarith
  obtain c where r: "sf_read ops (flash ctx) (erase_offset ?j + processed ?j) chunk = (0, mem_bytes ?v (?o + ?k) ?n, c)"
      "view c = ?v" "ok c" "capacity c = capacity (flash ctx)" "sector c = sector (flash ctx)"
    using read_ok [OF J(3) fits, unfolded addr chunk] by blast
  have read: "mem_bytes ?v (?o + ?k) ?n = take ?n (drop ?k img)"
  proof (rule nth_equalityI)
    fix i assume i: "i < length (mem_bytes ?v (?o + ?k) ?n)"
    then have "i < ?ws - ?k" by simp
    then have "?k + i < ?ws" by linarith
    with C(1) i show "mem_bytes ?v (?o + ?k) ?n ! i = take ?n (drop ?k img) ! i"
      unfolding C(2) [symmetric] by (simp add: add.assoc)
  qed (use J(7) in simp)
  let ?vc = "crc32 0 0 (take (?k + ?n) img)"
  have vc: "crc32 0 (verify_crc ?j) (mem_bytes ?v (?o + ?k) ?n) = ?vc"
    unfolding C(4) read take_add by (rule crc32_append [symmetric])
  let ?io = "buf_put (io_buf ctx) (mem_bytes ?v (?o + ?k) ?n)"
  let ?c = "\<lambda>ph. ctx\<lparr>flash := c, io_buf := ?io,
      job := ?j\<lparr>verify_crc := ?vc, processed := processed ?j + chunk, phase := ph\<rparr>\<rparr>"
  have fin: "?vc = source_crc ?j" if "processed ?j + chunk = write_size ?j"
    using that adv J(7,8) by simp
  have step: "webflash_job_step P ctx = (if processed ?j + chunk = write_size ?j
      then webflash_schedule_reboot (?c WEBFLASH_PHASE_DONE) else ?c WEBFLASH_PHASE_VERIFYING)"
    using ph r(1) J(1,2) fin vc
    by (simp add: webflash_job_step_def job_verify_step_def flash_read_io_def chunk_def [symmetric] platform_ops
        same_phase [OF ph] Let_def chunk)
  have wf: "job_wf (sector c) P c' \<and> job_image P c' = img"
    if "c' = webflash_schedule_reboot (?c WEBFLASH_PHASE_DONE) \<or> c' = ?c WEBFLASH_PHASE_VERIFYING" for c'
    using that r(5)
    by (intro job_wf_step [OF inv]) (auto simp: webflash_schedule_reboot_def same_job_def)
  show ?thesis
  proof (cases "processed ?j + chunk = write_size ?j")
    case True
    then have k: "?k + ?n = ?ws" using adv by simp
    have "job_inv v0 img (webflash_schedule_reboot (?c WEBFLASH_PHASE_DONE))"
      using inv r wf C by (simp add: job_inv_def job_content_def Let_def webflash_schedule_reboot_def)
    moreover have "turns_left ?j = Suc 0"
      using chunks_step [of "?ws - ?k"] k C(1) ph by (simp add: turns_left_def)
    ultimately show ?thesis using True step by (simp add: webflash_schedule_reboot_def turns_left_def)
  next
    case False
    have lt: "?k + ?n < ?ws" using False adv C(1) by (auto simp: min_def)
    have "job_inv v0 img (?c WEBFLASH_PHASE_VERIFYING)"
      using inv r wf C lt adv by (simp add: job_inv_def job_content_def Let_def)
    moreover have "turns_left ?j = Suc (turns_left (job (?c WEBFLASH_PHASE_VERIFYING)))"
      using chunks_step [of "?ws - ?k"] C(1) ph by (simp add: turns_left_def adv)
    ultimately show ?thesis using False step by simp
  qed
qed

text \<open>Whatever the phase, a step goes on or, if an erase is refused, fails.\<close>

lemma job_step_ok:
  assumes "job_inv v0 img ctx" and "webflash_job_active ctx"
  shows "(job_inv v0 img (webflash_job_step P ctx) \<and>
      turns_left (job ctx) = Suc (turns_left (job (webflash_job_step P ctx))) \<and>
      reboot_pending (webflash_job_step P ctx) =
        (phase (job (webflash_job_step P ctx)) = WEBFLASH_PHASE_DONE \<or> reboot_pending ctx)) \<or>
    (job_failed v0 (webflash_job_step P ctx) \<and> erase_refused (flash ctx))"
proof -
  consider "phase (job ctx) = WEBFLASH_PHASE_ERASING" | "phase (job ctx) = WEBFLASH_PHASE_WRITING"
    | "phase (job ctx) = WEBFLASH_PHASE_VERIFYING"
    using assms(2) by (auto simp: webflash_job_active_def)
  then show ?thesis
    using erase_step_ok [OF assms(1)] write_step_ok [OF assms(1)] verify_step_ok [OF assms(1)] by cases auto
qed

lemma job_inv_frame:
  assumes "busy_frame a b" and "job_inv v0 img a"
  shows "job_inv v0 img b"
proof -
  have eq: "job b = job a" "flash b = flash a" "ram b = ram a" "factory_buf b = factory_buf a"
    using assms(1) by (simp_all add: busy_frame_def)
  have "job_wf (sector (flash b)) P b \<and> job_image P b = img"
    by (rule job_wf_step [OF assms(2)]) (simp_all add: eq same_job_def)
  then show ?thesis using assms(2) eq by (simp add: job_inv_def)
qed

end

section \<open>Runs\<close>

lemma job_step_fields [simp]:
  "calm (webflash_job_step P ctx) = calm ctx" "boot_pending (webflash_job_step P ctx) = boot_pending ctx"
  by (auto simp: webflash_job_step_def job_erase_step_def job_write_step_def job_verify_step_def Let_def
      webflash_job_fail_def webflash_schedule_reboot_def flash_read_io_def calm_def
      split: webflash_job_phase.splits prod.splits option.splits)

lemma job_step_same: "same_job (job ctx) (job (webflash_job_step P ctx))"
  by (auto simp: webflash_job_step_def job_erase_step_def job_write_step_def job_verify_step_def Let_def
      webflash_job_fail_def webflash_schedule_reboot_def flash_read_io_def same_job_def
      split: webflash_job_phase.splits prod.splits option.splits)

text \<open>On a device that never refuses an erase the job runs to its end, whatever else is served.\<close>

locale quiet_platform = flash_platform ops view ok capacity sector P +
    quiet_nor_flash ops view ok capacity sector
  for ops :: "'c dm_spi_flash_ops" and view :: "'c \<Rightarrow> nat \<Rightarrow> byte" and ok :: "'c \<Rightarrow> bool"
    and capacity sector :: "'c \<Rightarrow> nat" and P :: "('c, 'w) platform"
begin

definition run_inv :: "(nat \<Rightarrow> byte) \<Rightarrow> byte list \<Rightarrow> ('c, 'w) webflash_ctx \<Rightarrow> bool" where
  "run_inv v0 img ctx \<longleftrightarrow>
     job_inv v0 img ctx \<and> calm ctx \<and> \<not> boot_pending ctx \<and>
     reboot_pending ctx = (phase (job ctx) = WEBFLASH_PHASE_DONE)"

lemma not_refused: "ok c \<Longrightarrow> \<not> erase_refused c"
  using erase_succeeds by (auto simp: erase_refused_def)

lemma run_inv_committed: "run_inv v0 img ctx \<Longrightarrow> committed ctx"
  by (auto simp: run_inv_def job_inv_def job_content_def committed_def webflash_job_active_def Let_def
      split: webflash_job_phase.splits)

lemma run_inv_serves: "serves a b \<Longrightarrow> run_inv v0 img a \<Longrightarrow> run_inv v0 img b"
  using job_inv_frame [of a b v0 img] by (auto simp: run_inv_def serves_def busy_frame_def)

lemma turn_job_run:
  assumes "run_inv v0 img ctx"
  shows "run_inv v0 img (turn_job P ctx t) \<and> turns_left (job (turn_job P ctx t)) = turns_left (job ctx) - 1"
proof -
  let ?n = "ctx\<lparr>now := t_now t\<rparr>"
  let ?c = "fold (\<lambda>e ctx. handle_event P ctx e) (t_events t) ?n"
  have n: "run_inv v0 img ?n" using run_inv_serves [OF _ assms] by simp
  then have "calm ?n" by (simp add: run_inv_def)
  from events_serve [OF run_inv_committed [OF n] this]
  have s: "serves ?n ?c" .
  have c: "run_inv v0 img ?c" "job ?c = job ctx"
    using run_inv_serves [OF s n] s by (simp_all add: serves_def busy_frame_def)
  show ?thesis
  proof (cases "webflash_job_active ?c")
    case True
    have inv: "job_inv v0 img ?c" and "ok (flash ?c)" and nr: "\<not> reboot_pending ?c"
      using c True by (auto simp: run_inv_def job_inv_def webflash_job_active_def)
    then have "\<not> erase_refused (flash ?c)" by (intro not_refused)
    with job_step_ok [OF inv True] nr c(1) have "run_inv v0 img (webflash_job_step P ?c)"
      "turns_left (job ?c) = Suc (turns_left (job (webflash_job_step P ?c)))"
      by (auto simp: run_inv_def)
    with True c show ?thesis by (simp add: turn_job_def)
  next
    case False
    with c run_inv_committed [OF c(1)] have "turns_left (job ctx) = 0"
      by (simp add: committed_def turns_left_def)
    with False c show ?thesis by (simp add: turn_job_def)
  qed
qed

lemma main_turn_run:
  assumes "run_inv v0 img ctx"
  shows "main_turn P ctx t = Running (turn_job P ctx t) \<or>
    (main_turn P ctx t = Reset (turn_job P ctx t) \<and> phase (job (turn_job P ctx t)) = WEBFLASH_PHASE_DONE)"
  using turn_job_run [OF assms, of t] by (auto simp: main_turn_def turn_reboot_def run_inv_def Let_def)

lemma done_iff: "run_inv v0 img ctx \<Longrightarrow> phase (job ctx) = WEBFLASH_PHASE_DONE \<longleftrightarrow> turns_left (job ctx) = 0"
  by (auto simp: run_inv_def job_inv_def job_content_def turns_left_def chunks_def Let_def
      split: webflash_job_phase.splits)

text \<open>
  The main loop is still running, with the job as far as the turns have brought it, or it
  has reset the board, with the job done.
\<close>

lemma main_loop_run:
  assumes "run_inv v0 img ctx"
  shows "\<exists>c. run_inv v0 img c \<and>
    ((main_loop P ctx ts = Running c \<and> turns_left (job c) = turns_left (job ctx) - length ts) \<or>
     (main_loop P ctx ts = Reset c \<and> phase (job c) = WEBFLASH_PHASE_DONE))"
  using assms
proof (induction ts arbitrary: ctx)
  case Nil
  then show ?case by auto
next
  case (Cons t ts)
  let ?c = "turn_job P ctx t"
  have c: "run_inv v0 img ?c" "turns_left (job ?c) = turns_left (job ctx) - 1"
    using turn_job_run [OF Cons.prems] by simp_all
  from main_turn_run [OF Cons.prems] show ?case
  proof
    assume "main_turn P ctx t = Running ?c"
    with Cons.IH [OF c(1)] c(2) show ?thesis by auto
  next
    assume "main_turn P ctx t = Reset ?c \<and> phase (job ?c) = WEBFLASH_PHASE_DONE"
    with c(1) show ?thesis by auto
  qed
qed

end

end
