(* ===== verification/FlashRun.thy ===== *)
theory FlashRun
  imports FlashJob
begin

text \<open>
  From the request to the flashed board.  A job started for a valid upload is well formed:
  its range lies inside the partition on sector boundaries and holds the image.  With the run
  of theory FlashJob this gives the whole path, first over any device that keeps the
  contract, then for the SPI NOR driver.
\<close>

section \<open>The range of a job\<close>

lemma layout_sector:
  assumes "layout_ok s"
  shows "unat s dvd 65536" and "0 < unat s"
proof -
  have "(0x10000 :: u32) mod s = 0" using assms by (simp add: layout_ok_def)
  then have "unat ((0x10000 :: u32) mod s) = 0" by simp
  then have m: "65536 mod unat s = 0" by (simp add: unat_mod)
  then show "unat s dvd 65536" by presburger
  show "0 < unat s" using m by (cases "unat s") simp_all
qed

lemma partition_geometry:
  assumes "p \<in> set all_partitions" and "\<not> has_flag p WEBFLASH_PART_EEPROM"
  shows "65536 dvd unat (p_offset p) \<and> 65536 dvd unat (p_size p) \<and>
    unat (p_offset p) + unat (p_size p) \<le> 0x2000000"
  using assms
  by (auto simp: all_partitions_def webflash_partitions_def webflash_eeprom_partition_def
      webflash_ram_partition_def has_flag_def part_flag_defs)

text \<open>Rounding up to whole sectors stays inside a range of whole sectors.\<close>

lemma roundup_sectors:
  assumes "0 < unat s" "unat s dvd 65536" "unat x \<le> m" "unat s dvd m" "m \<le> 0x2000000"
  shows "unat x \<le> unat (roundup x s)" "unat (roundup x s) \<le> m" "unat s dvd unat (roundup x s)"
proof -
  have le: "unat s \<le> 65536" using assms(2) by (rule dvd_imp_le) simp
  have s1: "unat (s - 1) = unat s - 1" using assms(1) by (simp add: unat_sub_no_wrap u32_le_iff)
  have a: "unat (x + (s - 1)) = unat x + (unat s - 1)"
    using assms(3,5) le s1 by (subst unat_add_no_wrap) simp_all
  let ?q = "(unat x + (unat s - 1)) div unat s"
  have "?q * unat s \<le> unat x + (unat s - 1)" by (rule div_times_less_eq_dividend)
  then have "?q * unat s < 4294967296" using assms(3,5) le by linarith
  then have "unat ((x + (s - 1)) div s) * unat s < 2 ^ LENGTH(32)" by (simp add: unat_div a)
  then have r: "unat (roundup x s) = ?q * unat s"
    unfolding roundup_def unat_mult_lem by (simp add: unat_div a)
  show "unat s dvd unat (roundup x s)" unfolding r by simp
  show "unat x \<le> unat (roundup x s)" unfolding r
    using div_mult_mod_eq [of "unat x + (unat s - 1)" "unat s"]
      mod_less_divisor [OF assms(1), of "unat x + (unat s - 1)"] assms(1) by linarith
  obtain q where q: "m = unat s * q" using assms(4) by (rule dvdE)
  have "unat x + (unat s - 1) < unat s * (q + 1)" using assms(1,3) q by (simp add: algebra_simps)
  then have "?q < q + 1" using less_mult_imp_div_less [of "unat x + (unat s - 1)" "q + 1" "unat s"]
    by (simp add: mult.commute)
  then have "?q \<le> q" by linarith
  then show "unat (roundup x s) \<le> m" unfolding r q mult.commute [of "unat s" q] by (rule mult_le_mono1)
qed

definition job_erase_size :: "u32 \<Rightarrow> ('c, 'w) webflash_ctx \<Rightarrow> webflash_partition \<Rightarrow> u32" where
  "job_erase_size s ctx p =
     (if has_flag p WEBFLASH_PART_FIRMWARE
      then if keep_config ctx then roundup (completed_size ctx) s
           else min (p_size p) (roundup (completed_size ctx) s + 2 * s)
      else p_size p)"

lemma erase_size_ok:
  assumes "layout_ok s" "size_fits p (completed_size ctx)" "\<not> has_flag p WEBFLASH_PART_EEPROM"
  shows "unat (completed_size ctx) \<le> unat (job_erase_size s ctx p)"
    and "unat (job_erase_size s ctx p) \<le> unat (p_size p)" and "unat s dvd unat (job_erase_size s ctx p)"
    and "unat s dvd unat (p_offset p)" and "unat (p_offset p) + unat (p_size p) \<le> 0x2000000"
proof -
  note s = layout_sector [OF assms(1)]
  have p: "p \<in> set all_partitions" "unat (completed_size ctx) \<le> unat (p_size p)"
    using assms(2) by (simp_all add: size_fits_def u32_le_iff)
  note g = partition_geometry [OF p(1) assms(3)]
  then have d: "unat s dvd unat (p_size p)" "unat s dvd unat (p_offset p)" using s(1) dvd_trans by blast+
  then show "unat s dvd unat (p_offset p)" "unat (p_offset p) + unat (p_size p) \<le> 0x2000000" using g by simp_all
  note r = roundup_sectors [OF s(2,1) p(2) d(1)]
  have le: "unat s \<le> 65536" using s(1) by (rule dvd_imp_le) simp
  have r': "unat (completed_size ctx) \<le> unat (roundup (completed_size ctx) s)"
    "unat (roundup (completed_size ctx) s) \<le> unat (p_size p)" "unat s dvd unat (roundup (completed_size ctx) s)"
    using r g by simp_all
  have two: "unat (2 * s) = 2 * unat s" using le by (simp add: unat_word_ariths mod_less)
  have "unat (roundup (completed_size ctx) s + 2 * s) = unat (roundup (completed_size ctx) s) + 2 * unat s"
    using r'(2) g le by (subst unat_add_no_wrap) (simp_all add: two)
  then have "unat (min (p_size p) (roundup (completed_size ctx) s + 2 * s)) =
      min (unat (p_size p)) (unat (roundup (completed_size ctx) s) + 2 * unat s)" by (simp add: unat_min)
  then show "unat (completed_size ctx) \<le> unat (job_erase_size s ctx p)"
    "unat (job_erase_size s ctx p) \<le> unat (p_size p)" "unat s dvd unat (job_erase_size s ctx p)"
    using r' p(2) d(1) by (auto simp: job_erase_size_def min_def)
qed

lemma factory_partition:
  "webflash_partition_find ''factory'' =
     Some \<lparr>p_name = ''factory'', p_filename = ''hlk-7621a-factory.bin'', p_offset = 0x40000, p_size = 0x10000,
       p_flags = WEBFLASH_PART_PROTECTED OR WEBFLASH_PART_FACTORY\<rparr>"
  by (simp add: webflash_partition_find_def webflash_partitions_def strcmp_0_iff cstr_def)

text \<open>What a job for a partition writes: the upload, or the factory partition around it.\<close>

definition flash_image :: "(nat \<Rightarrow> byte) \<Rightarrow> ('c, 'w) webflash_ctx \<Rightarrow> webflash_partition \<Rightarrow> byte list" where
  "flash_image v ctx p =
     (if has_flag p WEBFLASH_PART_EEPROM
      then mem_bytes v 0x40000 0x8000 @ upload_bytes ctx @ mem_bytes v 0x48200 0x7e00
      else upload_bytes ctx)"

context flash_platform
begin

lemma start_job_inv:
  assumes "ok (flash ctx)" "0x2000000 \<le> capacity (flash ctx)" "layout_ok (sf_sector_size P (flash ctx))"
    and "upload_part ctx = Some p" "size_fits p (completed_size ctx)" "\<not> has_flag p WEBFLASH_PART_EEPROM"
    and "upload_crc ctx = crc32 0 0 (upload_bytes ctx)" "webflash_start_flash_job P ctx = (ret, ctx')"
  shows "ret = 0 \<and> job_inv (view (flash ctx)) (flash_image (view (flash ctx)) ctx p) ctx' \<and>
    phase (job ctx') = WEBFLASH_PHASE_ERASING \<and> processed (job ctx') = 0 \<and>
    (\<exists>j. ctx' = ctx\<lparr>job := j\<rparr>)"
proof -
  let ?s = "sf_sector_size P (flash ctx)"
  let ?j = "job_zero\<lparr>mode := WEBFLASH_JOB_FLASH, phase := WEBFLASH_PHASE_ERASING, part := Some p,
      source_addr := completed_addr ctx, erase_offset := p_offset p, erase_size := job_erase_size ?s ctx p,
      write_size := completed_size ctx, source_crc := upload_crc ctx\<rparr>"
  have c: "ctx' = ctx\<lparr>job := ?j\<rparr>" "ret = 0"
    using assms(4,6,8) by (simp_all add: webflash_start_flash_job_def job_erase_size_def Let_def)
  have s: "unat ?s = sector (flash ctx)" by (rule platform_sector [OF assms(1)])
  note e = erase_size_ok [OF assms(3,5,6), unfolded s]
  have ws: "0 < unat (completed_size ctx)" using assms(5) by (simp add: size_fits_def unat_gt_0)
  have img: "job_image P ctx' = upload_bytes ctx"
    unfolding c by (simp add: job_image_def upload_bytes_def map_sysmem_def)
  have "job_wf (sector (flash ctx)) P ctx'"
    unfolding job_wf_def img using c e ws layout_sector [OF assms(3)] s assms(7)
    by (simp add: upload_bytes_def)
  then show ?thesis
    using c img assms(1,2,6) e ws by (auto simp: job_inv_def job_content_def flash_image_def Let_def)
qed

text \<open>
  The calibration data: the job is one for the factory partition, and its image is the
  partition as it was read, with the upload in its window.
\<close>

lemma patch_job_inv:
  assumes "ok (flash ctx)" "0x2000000 \<le> capacity (flash ctx)" "layout_ok (sf_sector_size P (flash ctx))"
    and "upload_part ctx = Some p" "size_fits p (completed_size ctx)" "has_flag p WEBFLASH_PART_EEPROM"
    and "length (factory_buf ctx) = 65536" "webflash_start_flash_job P ctx = (ret, ctx')"
  shows "ret = 0 \<and> job_inv (view (flash ctx)) (flash_image (view (flash ctx)) ctx p) ctx' \<and>
    phase (job ctx') = WEBFLASH_PHASE_ERASING \<and> processed (job ctx') = 0 \<and>
    (\<exists>c io fb j. ctx' = ctx\<lparr>flash := c, io_buf := io, factory_buf := fb, job := j\<rparr>)"
proof -
  let ?v = "view (flash ctx)" and ?s = "sf_sector_size P (flash ctx)"
  have sz: "completed_size ctx = 0x200"
    using assms(5,6)
    by (auto simp: size_fits_def all_partitions_def webflash_partitions_def webflash_eeprom_partition_def
      webflash_ram_partition_def has_flag_def part_flag_defs)
  have up: "mem_bytes (map_sysmem ctx (completed_addr ctx)) 0 (unat WEBFLASH_EEPROM_SIZE) = upload_bytes ctx"
    "length (upload_bytes ctx) = 512"
    by (simp_all add: upload_bytes_def sz)
  obtain f where f: "webflash_partition_find ''factory'' = Some f" "p_offset f = 0x40000" "p_size f = 0x10000"
    using factory_partition by simp
  have "unat (0x40000 :: u32) + unat (0x10000 :: u32) \<le> capacity (flash ctx)" using assms(2) by simp
  from read_ok [OF assms(1) this] obtain c where r: "sf_read ops (flash ctx) 0x40000 0x10000 =
      (0, mem_bytes ?v 0x40000 65536, c)" "view c = ?v" "ok c" "capacity c = capacity (flash ctx)"
      "sector c = sector (flash ctx)" by auto
  define img where "img = flash_image ?v ctx p"
  define bs where "bs = mem_bytes ?v 0x40000 65536"
  have "bs = mem_bytes ?v 0x40000 0x8000 @ mem_bytes ?v 0x48000 512 @ mem_bytes ?v 0x48200 0x7e00"
    using mem_bytes_add [of ?v "0x40000" "0x8000" "0x8000"] mem_bytes_add [of ?v "0x48000" 512 "0x7e00"]
    by (simp add: bs_def)
  then have fb: "take WEBFLASH_EEPROM_OFFSET bs @ buf_put (drop WEBFLASH_EEPROM_OFFSET bs) (upload_bytes ctx) = img"
    using assms(6) up(2) by (simp add: flash_image_def buf_put_def img_def)
  have len: "length img = 65536" using assms(6) up(2) by (simp add: flash_image_def img_def)
  define io where "io = buf_put (io_buf ctx) bs"
  have io: "take 65536 io = bs" unfolding io_def by (rule take_buf_put) (simp add: bs_def)
  have put: "buf_put (factory_buf ctx) bs = bs" using assms(7) by (simp add: buf_put_def bs_def)
  let ?old = "job_zero\<lparr>mode := WEBFLASH_JOB_FLASH, phase := WEBFLASH_PHASE_ERASING, part := Some p,
      source_addr := completed_addr ctx, erase_offset := p_offset p, erase_size := job_erase_size ?s ctx p,
      write_size := completed_size ctx, source_crc := upload_crc ctx\<rparr>"
  let ?j = "?old\<lparr>part := Some f, source_buffer := Factory_buf 0, erase_offset := p_offset f, erase_size := p_size f,
      write_size := p_size f, source_crc := crc32 0 0 img\<rparr>"
  let ?ctxo = "ctx\<lparr>job := ?old\<rparr>"
  have rd: "flash_read_io P ?ctxo (p_offset f) CONFIG_WEBFLASH_FACTORY_SIZE = (0, ?ctxo\<lparr>flash := c, io_buf := io\<rparr>)"
    using r(1) f by (simp add: flash_read_io_def platform_ops bs_def io_def)
  have src: "mem_bytes (map_sysmem (?ctxo\<lparr>flash := c, io_buf := io\<rparr>) (completed_addr ctx)) 0
      (unat WEBFLASH_EEPROM_SIZE) = upload_bytes ctx"
    using up(1) by (simp add: map_sysmem_def)
  have cr: "take (unat (p_size f)) img = img" using len f(3) by simp
  have "patch_eeprom P ?ctxo = (0, ctx\<lparr>flash := c, io_buf := io, factory_buf := img, job := ?j\<rparr>)"
    unfolding patch_eeprom_def f(1) option.case rd Let_def prod.case using io put fb src cr by simp
  moreover have "webflash_start_flash_job P ctx = patch_eeprom P ?ctxo"
    using assms(4,6) by (simp add: webflash_start_flash_job_def job_erase_size_def Let_def)
  ultimately have c: "ret = 0" "ctx' = ctx\<lparr>flash := c, io_buf := io, factory_buf := img, job := ?j\<rparr>"
    using assms(8) by simp_all
  have img: "job_image P ctx' = img" unfolding c using len f(3) by (simp add: job_image_def)
  have s: "unat ?s = sector (flash ctx)" by (rule platform_sector [OF assms(1)])
  have d: "sector (flash ctx) dvd 65536" using layout_sector [OF assms(3)] s by simp
  then have "sector (flash ctx) dvd 65536 * 4" by (rule dvd_mult2)
  with d have "job_wf (sector c) P ctx'"
    unfolding job_wf_def img using c f r len by simp
  with c f img r assms(1,2) show ?thesis
    unfolding img_def [symmetric] by (auto simp: job_inv_def job_content_def Let_def)
qed

end

section \<open>A confirmed request\<close>

lemma start_uploaded_0:
  assumes "webflash_start_uploaded_flash P ctx = (0, ctx')"
  obtains p c s where "\<not> webflash_operation_blocked ctx" "upload_part ctx = Some p" "upload_valid ctx"
    "fst (webflash_check_confirmation P ctx (webflash_expected_confirmation ctx)) = 0"
    "webflash_start_flash_job P ctx = (0, c)"
    "webflash_reply P (set_reply c s) ''202 Accepted'' ''application/json'' (Reply_buf 0) = (0, ctx')"
proof -
  let ?k = "webflash_check_confirmation P ctx (webflash_expected_confirmation ctx)"
  obtain p where p: "\<not> webflash_operation_blocked ctx" "upload_part ctx = Some p" "upload_valid ctx" "fst ?k = 0"
    using assms by (auto simp: webflash_start_uploaded_flash_def Let_def split_def split: if_splits option.splits)
  have k: "?k = (0, ctx)" using p(4) confirmation_0(1) [OF p(4)] by (simp add: prod_eq_iff)
  have s: "fst (webflash_start_flash_job P ctx) = 0"
    "webflash_reply P (set_reply (snd (webflash_start_flash_job P ctx)) (''{\"ok\":true,\"target\":\"'' @ p_name p @
        ''\",\"phase\":\"erasing\"}'')) ''202 Accepted'' ''application/json'' (Reply_buf 0) = (0, ctx')"
    using assms p k by (auto simp: webflash_start_uploaded_flash_def Let_def split_def split: if_splits)
  show thesis by (rule that [OF p _ s(2)]) (use s(1) in \<open>simp add: prod_eq_iff\<close>)
qed

lemma reply_calm:
  assumes "webflash_reply P ctx status ctype ptr = (0, ctx')"
  shows "calm ctx'"
proof -
  have "rx_state ctx' = WEBFLASH_RX_REPLIED" using reply_rx(3) [OF assms] by simp
  moreover have fl: "stream_from_flash c' = stream_from_flash c" if "webflash_stream_fill P c = (r, c')" for c r c'
    using that fill_stream(1) [of P c] by simp
  then have "\<not> stream_from_flash ctx'"
    using assms by (auto simp: webflash_reply_def Let_def dest!: fl split: option.splits prod.splits if_splits)
  ultimately show ?thesis by (simp add: calm_def)
qed

context quiet_platform
begin

lemma start_uploaded_run:
  assumes inv: "console_inv P ctx" and "ok (flash ctx)" "0x2000000 \<le> capacity (flash ctx)"
    "layout_ok (sf_sector_size P (flash ctx))"
    and "webflash_start_uploaded_flash P ctx = (0, ctx')" "upload_part ctx = Some p"
  shows "run_inv (view (flash ctx)) (flash_image (view (flash ctx)) ctx p) ctx' \<and>
    turns_left (job ctx') = chunks (unat (erase_size (job ctx'))) + 2 * chunks (unat (write_size (job ctx')))"
proof -
  let ?v = "view (flash ctx)" and ?img = "flash_image (view (flash ctx)) ctx p"
  obtain c s where c: "\<not> webflash_operation_blocked ctx" "upload_valid ctx" "webflash_start_flash_job P ctx = (0, c)"
    and r: "webflash_reply P (set_reply c s) ''202 Accepted'' ''application/json'' (Reply_buf 0) = (0, ctx')"
    using start_uploaded_0 [OF assms(5)] assms(6) by metis
  have fits: "size_fits p (completed_size ctx)" and crc: "upload_crc ctx = crc32 0 0 (upload_bytes ctx)"
    and fb: "length (factory_buf ctx) = 65536"
    using inv c(2) assms(6) by (auto simp: console_inv_def valid_ok_def buffers_ok_def)
  have j: "job_inv ?v ?img c" "phase (job c) = WEBFLASH_PHASE_ERASING" "processed (job c) = 0"
    and b: "boot_pending c = boot_pending ctx" "reboot_pending c = reboot_pending ctx"
    using start_job_inv [OF assms(2-4,6) fits _ crc c(3)] patch_job_inv [OF assms(2-4,6) fits _ fb c(3)]
    by (cases "has_flag p WEBFLASH_PART_EEPROM"; auto)+
  have "busy_frame c ctx'" using reply_serves(2) [of c P s "''202 Accepted''" "''application/json''" "Reply_buf 0"] r
    by (simp add: serves_def)
  then have "job_inv ?v ?img ctx'" and f: "job ctx' = job c" "boot_pending ctx' = boot_pending c"
    "reboot_pending ctx' = reboot_pending c"
    using job_inv_frame j(1) by (auto simp: busy_frame_def)
  with reply_calm [OF r] c(1) b j f show ?thesis
    by (simp add: run_inv_def webflash_operation_blocked_def turns_left_def)
qed

text \<open>After enough turns the upload is in the flash, and the rest is as it was.\<close>

lemma flash_completes:
  assumes "console_inv P ctx" "ok (flash ctx)" "0x2000000 \<le> capacity (flash ctx)"
    "layout_ok (sf_sector_size P (flash ctx))"
    and "webflash_start_uploaded_flash P ctx = (0, ctx')" "upload_part ctx = Some p"
    and "chunks (unat (erase_size (job ctx'))) + 2 * chunks (unat (write_size (job ctx'))) \<le> length ts"
  shows "\<exists>c. (main_loop P ctx' ts = Running c \<or> main_loop P ctx' ts = Reset c) \<and>
    phase (job c) = WEBFLASH_PHASE_DONE \<and> reboot_pending c \<and>
    mem_bytes (view (flash c)) (unat (erase_offset (job c))) (unat (write_size (job c))) =
      flash_image (view (flash ctx)) ctx p \<and>
    (\<forall>a. \<not> (unat (erase_offset (job c)) \<le> a \<and> a < unat (erase_offset (job c)) + unat (erase_size (job c))) \<longrightarrow>
       view (flash c) a = view (flash ctx) a)"
proof -
  note s = start_uploaded_run [OF assms(1-6)]
  then have s': "run_inv (view (flash ctx)) (flash_image (view (flash ctx)) ctx p) ctx'" by simp
  obtain c where c: "run_inv (view (flash ctx)) (flash_image (view (flash ctx)) ctx p) c"
    "(main_loop P ctx' ts = Running c \<and> turns_left (job c) = turns_left (job ctx') - length ts) \<or>
     (main_loop P ctx' ts = Reset c \<and> phase (job c) = WEBFLASH_PHASE_DONE)"
    using main_loop_run [OF s', of ts] by blast
  have d: "phase (job c) = WEBFLASH_PHASE_DONE" using c(2) done_iff [OF c(1)] s assms(7) by auto
  with c(1) have "reboot_pending c" by (simp add: run_inv_def)
  moreover have "job_content (sector (flash c)) (view (flash ctx)) (view (flash c))
      (flash_image (view (flash ctx)) ctx p) (job c)"
    using c(1) by (simp add: run_inv_def job_inv_def)
  ultimately show ?thesis using c(2) d by (intro exI [of _ c]) (auto simp: job_content_def Let_def)
qed

end

section \<open>The SPI NOR driver\<close>

text \<open>A platform whose flash is the SPI NOR driver's.\<close>

definition with_spi_nor :: "(spi_nor, 'w) platform \<Rightarrow> (spi_nor, 'w) platform" where
  "with_spi_nor P = P\<lparr>sf_ops := spi_flash_std_ops, sf_size := (\<lambda>c. of_nat (mtd_size c)),
     sf_sector_size := (\<lambda>c. of_nat (erasesize c))\<rparr>"

lemma spi_sector: "spi_ok c \<Longrightarrow> unat (sf_sector_size (with_spi_nor P) c) = erasesize c"
proof -
  assume "spi_ok c"
  then have "erasesize c dvd SZ_16M" by (simp add: spi_ok_def spi_mid_def spi_geometry_def)
  then have "erasesize c \<le> SZ_16M" by (rule dvd_imp_le) simp
  then show ?thesis by (simp add: with_spi_nor_def unsigned_of_nat take_bit_nat_eq_self)
qed

interpretation spi_std: flash_platform spi_flash_std_ops array spi_ok mtd_size erasesize "with_spi_nor P" for P
  by unfold_locales (simp_all add: spi_sector, simp add: with_spi_nor_def)

interpretation spi: quiet_platform spi_flash_std_ops array spi_quiet mtd_size erasesize "with_spi_nor P" for P
  by unfold_locales (simp_all add: spi_sector spi_quiet_def, simp add: with_spi_nor_def)

lemma spi_read_bounded: "read_bounded (with_spi_nor P)"
  by (simp add: read_bounded_def with_spi_nor_def spi_flash_std_ops_def std_read_bounded)

end
