(* ===== verification/Sample.thy ===== *)
theory Sample
  imports FlashRun
begin

text \<open>
  A concrete board on which the theorems are tried: a 32 MiB SPI NOR with 64 KiB sectors, a
  network that takes every packet (with a send buffer of the given size), an empty
  environment, and contexts of the console at interesting moments.
\<close>

definition lab :: "u16 \<Rightarrow> (spi_nor, unit) platform" where
  "lab room =
     \<lparr>sf_ops = spi_flash_std_ops, sf_size = (\<lambda>c. of_nat (mtd_size c)), sf_sector_size = (\<lambda>c. of_nat (erasesize c)),
      tcp_sndbuf = (\<lambda>w pcb. room), tcp_write = (\<lambda>w pcb bs. (ERR_OK, w)), tcp_output = (\<lambda>w pcb. (ERR_OK, w)),
      tcp_close = (\<lambda>w pcb. (ERR_OK, w)), tcp_abort = (\<lambda>w pcb. w), tcp_recved = (\<lambda>w pcb n. w),
      tcp_arg = (\<lambda>w pcb b. w), tcp_recv = (\<lambda>w pcb b. w), tcp_sent = (\<lambda>w pcb b. w), tcp_err = (\<lambda>w pcb b. w),
      tcp_poll = (\<lambda>w pcb b n. w), tcp_accept = (\<lambda>w pcb b. w), tcp_setprio_min = (\<lambda>w pcb. w),
      tcp_nagle_disable = (\<lambda>w pcb. w), tcp_new = (\<lambda>w. (Some 0, w)), tcp_bind = (\<lambda>w pcb port. (ERR_OK, w)),
      tcp_listen_with_backlog = (\<lambda>w pcb n. (Some 1, w)), env_get = (\<lambda>w s. None), env_set = (\<lambda>w k v. (0, w)),
      env_save = (\<lambda>w c. (0, w, c)), env_set_default = (\<lambda>w. w), ram_base = 0x80000000, ram_size = 0x10000000,
      webflash_index_html = ''<html>'', version_string = ''U-Boot''\<rparr>"

lemma lab_spi [simp]: "with_spi_nor (lab room) = lab room"
  by (simp add: with_spi_nor_def lab_def)

definition lab_nor :: spi_nor where
  "lab_nor = \<lparr>mtd_size = 0x2000000, erasesize = 65536, page_size = 256, no_op_chip_erase = False, bank_curr = 0,
     array = (\<lambda>a. 0), ear = 0, wel = False, xfer = [], ctrlc_in = []\<rparr>"

lemma lab_nor_quiet: "spi_quiet lab_nor" "spi_ok lab_nor"
  by (simp_all add: lab_nor_def spi_quiet_def spi_ok_def spi_mid_def spi_geometry_def)

lemma lab_nor_fields [simp]: "mtd_size lab_nor = 0x2000000" "erasesize lab_nor = 65536" "array lab_nor = (\<lambda>a. 0)"
  by (simp_all add: lab_nor_def)

lemma lab_layout: "layout_ok (sf_sector_size (lab room) lab_nor)"
  by (simp add: lab_def layout_ok_def)

text \<open>Nothing is registered with the memory map but one bank of RAM.\<close>

definition lab_lmb :: lmb where
  "lab_lmb =
     \<lparr>available_mem = \<lparr>al_data = [\<lparr>rbase = 0x80000000, rsize = 0x10000000, rflags = LMB_NONE\<rparr>], al_alloc = 4,
        al_fail = False, al_malloc = []\<rparr>,
      used_mem = \<lparr>al_data = [], al_alloc = 4, al_fail = False, al_malloc = []\<rparr>\<rparr>"

text \<open>The console right after its start, with RAM that reads as 0.\<close>

definition lab_start :: "(spi_nor, unit) webflash_ctx" where
  "lab_start = (ctx_zero lab_nor () lab_lmb (\<lambda>a. 0))\<lparr>load_addr := 0x83000000, listener := Some 1,
     io_buf := replicate 65536 0, factory_buf := replicate 65536 0\<rparr>"

lemma lab_start_inv: "console_inv (lab room) lab_start"
  by (simp add: lab_start_def ctx_zero_def console_inv_defs)

definition lab_startup :: "spi_nor startup" where
  "lab_startup = \<lparr>probe_ret = 0, probe_dev = Some lab_nor, io_mem = Some (replicate 65536 0),
     factory_mem = Some (replicate 65536 0), eth_start_ret = 0, netif_ok = True\<rparr>"

lemma lab_setup: "webflash_setup (lab room) lab_startup (ctx_zero lab_nor () lab_lmb (\<lambda>a. 0)) None = (0, lab_start)"
proof -
  have "webflash_apply_default_network (lab room) () = (0, ())"
    by (simp add: webflash_apply_default_network_def apply_default_def lab_def)
  then show ?thesis
    by (simp add: webflash_setup_def webflash_init_flash_def webflash_start_listener_def lab_startup_def lab_start_def
        env_get_hex_def lab_layout ctx_zero_def Let_def) (simp add: lab_def)
qed

text \<open>A firmware of one byte has been uploaded, and a client has asked for it to be flashed.\<close>

definition lab_request :: string where
  "lab_request = ''POST /api/flash HTTP/1.0'' @ CRLF @ ''X-Safeboot-Confirm: FLASH-FOREIGN'' @ CRLF @ CRLF"

definition lab_ready :: "(spi_nor, unit) webflash_ctx" where
  "lab_ready = lab_start\<lparr>client := Some 7, header := lab_request,
     upload_part := webflash_partition_find ''firmware'', image_kind := WEBFLASH_IMAGE_FOREIGN,
     completed_addr := 0x83000000, completed_size := 1, upload_valid := True, upload_crc := crc32 0 0 [0]\<rparr>"

lemma firmware_partition:
  "webflash_partition_find ''firmware'' =
     Some \<lparr>p_name = ''firmware'', p_filename = ''hlk-7621a-firmware.bin'', p_offset = 0x50000, p_size = 0x1fb0000,
       p_flags = WEBFLASH_PART_FIRMWARE\<rparr>"
  by (simp add: webflash_partition_find_def webflash_partitions_def strcmp_0_iff)

lemma lab_ready_inv: "console_inv (lab room) lab_ready"
proof -
  have "length lab_request < WEBFLASH_HEADER_SIZE" by (simp add: lab_request_def)
  moreover have "upload_bytes lab_ready = [0]"
    by (simp add: upload_bytes_def lab_ready_def lab_start_def ctx_zero_def map_sysmem_def mem_bytes_def)
  moreover have "fst (webflash_validate_upload lab_ready) = 0"
    by (simp add: webflash_validate_upload_def lab_ready_def firmware_partition has_flag_def part_flag_defs Let_def)
  ultimately show ?thesis
    by (simp add: lab_ready_def firmware_partition lab_start_def ctx_zero_def console_inv_defs size_fits_def
        all_partitions_def webflash_partitions_def has_flag_def part_flag_defs)
qed

text \<open>With a full send buffer a reply is queued at once: only its header is written.\<close>

lemma lab_reply:
  assumes "client ctx = Some pcb" "strlen (take 1535 s) = n" "length (reply_header status ctype n) < 192" "n \<le> 65535"
  shows "fst (webflash_reply (lab 0) (set_reply ctx s) status ctype (Reply_buf 0)) = 0"
proof -
  have "stream_turn (lab 0) c = Inl (0, c)" if "client c = Some pcb" for c
    using that by (simp add: stream_turn_def lab_def)
  then have "fst (webflash_stream_fill (lab 0) c) = 0" if "client c = Some pcb" for c
    using that by (simp add: webflash_stream_fill_def stream_loop.simps [of _ c])
  then show ?thesis using assms by (simp add: webflash_reply_def Let_def split_def lab_def)
qed

lemma lab_ready_fields [simp]:
  "header lab_ready = lab_request" "client lab_ready = Some 7" "completed_size lab_ready = 1" "flash lab_ready = lab_nor"
  "upload_part lab_ready = webflash_partition_find ''firmware''" "upload_valid lab_ready" "\<not> keep_config lab_ready"
  "image_kind lab_ready = WEBFLASH_IMAGE_FOREIGN" "\<not> webflash_operation_blocked lab_ready"
  by (simp_all add: lab_ready_def lab_start_def ctx_zero_def webflash_operation_blocked_def webflash_job_active_def)

lemma lab_flash_request:
  "\<exists>c. webflash_start_uploaded_flash (lab 0) lab_ready = (0, c) \<and> erase_size (job c) = 0x30000 \<and>
     write_size (job c) = 1 \<and> webflash_job_active c"
proof -
  have h: "webflash_header_value lab_ready ''X-Safeboot-Confirm'' 40 = Inr ''FLASH-FOREIGN''"
    unfolding webflash_header_value_def lab_ready_fields lab_request_def by code_simp
  have e: "webflash_expected_confirmation lab_ready = ''FLASH-FOREIGN''"
    by (simp add: webflash_expected_confirmation_def webflash_upload_is_firmware_def firmware_partition
        has_flag_def part_flag_defs Let_def)
  have k: "webflash_check_confirmation (lab 0) lab_ready ''FLASH-FOREIGN'' = (0, lab_ready)"
    by (simp add: webflash_check_confirmation_def h strcmp_0_iff)
  obtain j where j: "webflash_start_flash_job (lab 0) lab_ready = (0, lab_ready\<lparr>job := j\<rparr>)"
    "erase_size j = 0x30000" "write_size j = 1" "phase j = WEBFLASH_PHASE_ERASING"
    by (simp add: webflash_start_flash_job_def firmware_partition has_flag_def part_flag_defs lab_def roundup_def Let_def)
  let ?s = "''{\"ok\":true,\"target\":\"firmware\",\"phase\":\"erasing\"}''"
  let ?r = "webflash_reply (lab 0) (set_reply (lab_ready\<lparr>job := j\<rparr>) ?s) ''202 Accepted'' ''application/json'' (Reply_buf 0)"
  have r: "fst ?r = 0"
  proof (rule lab_reply [where n = 49])
    show "length (reply_header ''202 Accepted'' ''application/json'' 49) < 192" by code_simp
  qed simp_all
  have "serves (lab_ready\<lparr>job := j\<rparr>) (snd ?r)" by (rule reply_serves)
  then have "job (snd ?r) = j" by (simp add: serves_def busy_frame_def)
  moreover have "webflash_start_uploaded_flash (lab 0) lab_ready = ?r"
    using k j(1) by (simp add: webflash_start_uploaded_flash_def firmware_partition e Let_def)
  ultimately show ?thesis using r j by (intro exI [of _ "snd ?r"]) (simp add: prod_eq_iff webflash_job_active_def)
qed

text \<open>The dispatcher hands this request to the flash handler.\<close>

lemma lab_headers: "webflash_handle_headers (lab 0) lab_ready = webflash_start_uploaded_flash (lab 0) lab_ready"
proof -
  have no: "list_all (\<lambda>(m, p). \<not> webflash_path_is lab_request (length lab_request) m p)
      ([(''GET'', ''/''), (''GET'', ''/index.html''), (''GET'', ''/api/info''), (''GET'', ''/api/eeprom''),
        (''GET'', ''/api/job''), (''GET'', ''/api/env''), (''GET'', ''/api/backup/uboot''),
        (''GET'', ''/api/backup/environment''), (''GET'', ''/api/backup/factory''), (''GET'', ''/api/backup/firmware''),
        (''GET'', ''/api/backup/fullflash''), (''POST'', ''/api/upload/firmware''), (''POST'', ''/api/upload/uboot''),
        (''POST'', ''/api/upload/environment''), (''POST'', ''/api/upload/factory''), (''POST'', ''/api/upload/eeprom''),
        (''POST'', ''/api/upload/ram''), (''POST'', ''/api/boot-ram'')])"
    unfolding lab_request_def by code_simp
  have yes: "webflash_path_is lab_request (length lab_request) ''POST'' ''/api/flash''"
    unfolding lab_request_def by code_simp
  have keep: "webflash_header_value lab_ready ''X-Keep-Config'' 4 = Inl (- ENOENT)"
    unfolding webflash_header_value_def lab_ready_fields lab_request_def by code_simp
  show ?thesis using no yes keep
    by (simp add: webflash_handle_headers_def backup_target_def upload_target_def flash_request_def)
qed

lemma lab_headers_active: "webflash_job_active (snd (webflash_handle_headers (lab 0) lab_ready))"
  using lab_flash_request by (auto simp: lab_headers)

text \<open>The same board with the job just begun.\<close>

definition lab_job :: webflash_job where
  "lab_job = job_zero\<lparr>mode := WEBFLASH_JOB_FLASH, phase := WEBFLASH_PHASE_ERASING,
     part := webflash_partition_find ''firmware'', source_addr := 0x83000000, erase_offset := 0x50000,
     erase_size := 0x30000, write_size := 1, source_crc := crc32 0 0 [0]\<rparr>"

definition lab_erasing :: "(spi_nor, unit) webflash_ctx" where
  "lab_erasing = lab_ready\<lparr>job := lab_job\<rparr>"

end
