(* ===== verification/Overlay.thy ===== *)
theory Overlay
  imports FlashRun
begin

text \<open>
  The search for the overlay behind the root file system.  The code reads the partition in
  blocks that overlap by less than a superblock and scans each; here it is shown to be the
  linear search over all offsets, and where the overlay it finds lies.
\<close>

section \<open>Linear search\<close>

fun find_first :: "('a \<Rightarrow> 'b option) \<Rightarrow> 'a list \<Rightarrow> 'b option" where
  "find_first f [] = None"
| "find_first f (x # xs) = (case f x of Some y \<Rightarrow> Some y | None \<Rightarrow> find_first f xs)"

lemma find_first_append:
  "find_first f (xs @ ys) = (case find_first f xs of Some y \<Rightarrow> Some y | None \<Rightarrow> find_first f ys)"
  by (induction xs) (auto split: option.splits)

lemma find_first_map: "find_first f (map g xs) = find_first (\<lambda>x. f (g x)) xs"
  by (induction xs) (auto split: option.splits)

lemma find_first_cong: "(\<And>x. x \<in> set xs \<Longrightarrow> f x = g x) \<Longrightarrow> find_first f xs = find_first g xs"
  by (induction xs) (auto split: option.split)

lemma find_first_Some: "find_first f xs = Some y \<Longrightarrow> \<exists>x\<in>set xs. f x = Some y"
  by (induction xs) (auto split: option.splits)

text \<open>The overlay that follows a root file system at \<open>a\<close>, in a flash that reads as \<open>v\<close>.\<close>

definition overlay_at :: "u32 \<Rightarrow> (nat \<Rightarrow> byte) \<Rightarrow> nat \<Rightarrow> nat \<Rightarrow> u32 option" where
  "overlay_at sector v fin a = overlay_candidate sector (\<lambda>k. v (a + k)) (of_nat fin) (of_nat a) 0"

lemma candidate_at:
  assumes "\<And>k. k < 48 \<Longrightarrow> buf (i + k) = v (pos + i + k)" "pos + i < 2 ^ 32"
  shows "overlay_candidate sector buf (of_nat fin) (of_nat pos) i = overlay_at sector v fin (pos + i)"
proof -
  have "(ucast (of_nat pos :: u32) :: u64) + of_nat i = ucast (of_nat (pos + i) :: u32)"
  proof -
    have "ucast (of_nat n :: u32) = (of_nat n :: u64)" if "n < 2 ^ 32" for n
      using that by (intro word_unat_eq_iff [THEN iffD2])
        (simp add: ucast_u32_u64 unsigned_of_nat take_bit_nat_eq_self)
    from this [of pos] this [of "pos + i"] show ?thesis using assms(2) by (simp del: of_nat_add) simp
  qed
  then show ?thesis using assms(1) assms(1) [of 0] assms(1) [of 1] assms(1) [of 2]
    by (simp add: overlay_at_def overlay_candidate_def get_unaligned_le32_def get_unaligned_le16_def
        get_unaligned_le64_def Let_def add.assoc)
qed

lemma block_first:
  assumes "\<And>k. k < n \<Longrightarrow> buf k = v (pos + k)" "pos + n < 2 ^ 32"
  shows "overlay_block sector buf (of_nat fin) (of_nat pos) [0..<n - 95] =
    find_first (overlay_at sector v fin) [pos..<pos + (n - 95)]"
proof -
  have b: "overlay_block sector buf (of_nat fin) (of_nat pos) is =
      find_first (overlay_candidate sector buf (of_nat fin) (of_nat pos)) is" for "is"
    by (induction "is") (auto split: option.splits)
  have c: "overlay_candidate sector buf (of_nat fin) (of_nat pos) i = overlay_at sector v fin (pos + i)"
    if "i \<in> set [0..<n - 95]" for i
    using that assms by (intro candidate_at) (auto simp: add.assoc)
  have m: "[pos..<pos + (n - 95)] = map ((+) pos) [0..<n - 95]" by (rule nth_equalityI) simp_all
  show ?thesis unfolding b m find_first_map using c by (rule find_first_cong)
qed

context flash_platform
begin

lemma sector_size_eq: "ok c \<Longrightarrow> ok c' \<Longrightarrow> sector c' = sector c \<Longrightarrow> sf_sector_size P c' = sf_sector_size P c"
  using platform_sector by (simp add: word_unat_eq_iff)

lemma read_io:
  assumes "ok (flash ctx)" "pos + n \<le> capacity (flash ctx)" "pos + n < 2 ^ 32" "n \<le> length (io_buf ctx)"
  shows "\<exists>ctx'. flash_read_io P ctx (of_nat pos) (of_nat n) = (0, ctx') \<and> ok (flash ctx') \<and>
    view (flash ctx') = view (flash ctx) \<and> capacity (flash ctx') = capacity (flash ctx) \<and>
    sector (flash ctx') = sector (flash ctx) \<and> length (io_buf ctx') = length (io_buf ctx) \<and>
    (\<forall>k<n. ptr_of (io_buf ctx') k = view (flash ctx) (pos + k))"
proof -
  have u: "unat (of_nat pos :: u32) = pos" "unat (of_nat n :: u32) = n"
    using assms(3) by (simp_all add: unsigned_of_nat take_bit_nat_eq_self)
  from read_ok [of "flash ctx" "of_nat pos" "of_nat n"] assms(1,2) obtain c' where
    r: "sf_read (sf_ops P) (flash ctx) (of_nat pos) (of_nat n) = (0, mem_bytes (view (flash ctx)) pos n, c')"
      "view c' = view (flash ctx)" "ok c'" "capacity c' = capacity (flash ctx)" "sector c' = sector (flash ctx)"
    unfolding platform_ops u by blast
  have "ptr_of (buf_put (io_buf ctx) (mem_bytes (view (flash ctx)) pos n)) k = view (flash ctx) (pos + k)" if "k < n" for k
    using that assms(4) by (simp add: ptr_of_def buf_put_def nth_append)
  with r assms(4) show ?thesis by (simp add: flash_read_io_def)
qed

lemma scan_is_linear:
  assumes "ok (flash ctx)" "fin \<le> capacity (flash ctx)" "fin < 2 ^ 32" "length (io_buf ctx) = 65536"
  shows "fst (overlay_scan P ctx fin pos) =
    (case find_first (overlay_at (sf_sector_size P (flash ctx)) (view (flash ctx)) fin) [pos..<fin - 95] of
       None \<Rightarrow> Inl (- ENOENT) | Some c \<Rightarrow> Inr c)"
  using assms
proof (induction "fin - pos" arbitrary: ctx pos rule: less_induct)
  case less
  let ?f = "overlay_at (sf_sector_size P (flash ctx)) (view (flash ctx)) fin"
  show ?case
  proof (cases "fin < pos + 96")
    case True
    then show ?thesis by (subst overlay_scan.simps) simp
  next
    case False
    define n where "n = min 65536 (fin - pos)"
    define pos' where "pos' = pos + 65441"
    from read_io [OF less.prems(1), of pos n] less.prems False obtain ctx' where
      r: "flash_read_io P ctx (of_nat pos) (of_nat n) = (0, ctx')" "ok (flash ctx')" "view (flash ctx') = view (flash ctx)"
        "capacity (flash ctx') = capacity (flash ctx)" "sector (flash ctx') = sector (flash ctx)"
        "length (io_buf ctx') = 65536" "\<And>k. k < n \<Longrightarrow> ptr_of (io_buf ctx') k = view (flash ctx) (pos + k)"
      unfolding n_def by force
    have s: "sf_sector_size P (flash ctx') = sf_sector_size P (flash ctx)"
      by (rule sector_size_eq [OF less.prems(1) r(2,5)])
    have b: "overlay_block (sf_sector_size P (flash ctx)) (ptr_of (io_buf ctx')) (of_nat fin) (of_nat pos) [0..<n - 95] =
        find_first ?f [pos..<pos + (n - 95)]"
      using less.prems(3) False r(7) by (intro block_first) (auto simp: n_def)
    have eq: "overlay_scan P ctx fin pos = (case find_first ?f [pos..<pos + (n - 95)] of
        Some c \<Rightarrow> (Inr c, ctx') | None \<Rightarrow> overlay_scan P ctx' fin pos')"
      using False r(1) b s
      by (subst overlay_scan.simps) (simp add: Let_def n_def [symmetric] pos'_def split: option.split)
    have IH: "fst (overlay_scan P ctx' fin pos') = (case find_first ?f [pos'..<fin - 95] of
        None \<Rightarrow> Inl (- ENOENT) | Some c \<Rightarrow> Inr c)"
      using less.hyps [of pos' ctx'] False less.prems r s by (simp add: pos'_def)
    have split: "[pos..<fin - 95] = [pos..<pos + (n - 95)] @ [pos'..<fin - 95]"
    proof (cases "fin - pos \<le> 65536")
      case True
      with False have "pos + (n - 95) = fin - 95" "fin - 95 \<le> pos'" by (auto simp: n_def pos'_def)
      then show ?thesis by simp
    next
      case False
      then have "pos + (n - 95) = pos'" "pos' \<le> fin - 95" "pos \<le> pos'" by (auto simp: n_def pos'_def)
      then have "pos \<le> pos'" "pos' + (fin - 95 - pos') = fin - 95" "pos + (n - 95) = pos'" by simp_all
      with upt_add_eq_append [of pos pos' "fin - 95 - pos'"] show ?thesis by simp
    qed
    show ?thesis unfolding split find_first_append eq using IH by (auto split: option.splits)
  qed
qed

end

section \<open>The driver's flash\<close>

text \<open>The offsets of the firmware partition a superblock fits behind.\<close>

definition rootfs_offsets :: "nat list" where
  "rootfs_offsets = [0x50000..<0x2000000 - 95]"

lemma find_overlay_search:
  assumes "spi_ok (flash ctx)" "0x2000000 \<le> mtd_size (flash ctx)" "length (io_buf ctx) = 65536"
  shows "fst (webflash_find_overlay (with_spi_nor P) ctx) =
    (case find_first (overlay_at (of_nat (erasesize (flash ctx))) (array (flash ctx)) 0x2000000) rootfs_offsets of
       None \<Rightarrow> Inl (- ENOENT) | Some c \<Rightarrow> Inr c)"
proof -
  have s: "sf_sector_size (with_spi_nor P) (flash ctx) = of_nat (erasesize (flash ctx))" by (simp add: with_spi_nor_def)
  have u: "unat (CONFIG_WEBFLASH_FIRMWARE_OFFSET + CONFIG_WEBFLASH_FIRMWARE_SIZE) = 0x2000000"
    "unat CONFIG_WEBFLASH_FIRMWARE_OFFSET = 0x50000" by simp_all
  show ?thesis
    unfolding webflash_find_overlay_def u rootfs_offsets_def s [symmetric]
    by (rule spi_std.scan_is_linear) (use assms in simp_all)
qed

text \<open>C27: The block-wise search for the overlay is the linear search.  Reading the partition in blocks of 64 KiB that
  overlap by 95 bytes misses no superblock, whatever block borders it straddles, and examines
  none twice: the result is the overlay behind the first superblock of the partition that has one.\<close>

theorem find_overlay_linear:
  assumes "spi_ok (flash ctx)" "0x2000000 \<le> mtd_size (flash ctx)" "length (io_buf ctx) = 65536"
  shows "fst (webflash_find_overlay (with_spi_nor P) ctx) =
    (case find_first (overlay_at (of_nat (erasesize (flash ctx))) (array (flash ctx)) 0x2000000) rootfs_offsets of
       None \<Rightarrow> Inl (- ENOENT) | Some c \<Rightarrow> Inr c)"
  by (rule find_overlay_search [OF assms])

section \<open>Where the overlay lies\<close>

lemma unat_roundup:
  assumes "0 < unat s" "unat x + unat s \<le> 2 ^ 32"
  shows "unat (roundup x s) = (unat x + unat s - 1) div unat s * unat s"
proof -
  have s1: "unat (s - 1) = unat s - 1" using assms(1) by (simp add: unat_sub_no_wrap u32_le_iff)
  have a: "unat (x + (s - 1)) = unat x + unat s - 1"
    using assms s1 by (subst unat_add_no_wrap) simp_all
  have "(unat x + unat s - 1) div unat s * unat s \<le> unat x + unat s - 1" by (rule div_times_less_eq_dividend)
  also have "\<dots> < 2 ^ 32" using assms by linarith
  finally have "(unat x + unat s - 1) div unat s * unat s < 2 ^ LENGTH(32)" by simp
  then show ?thesis unfolding roundup_def using unat_mult_lem [of "(x + (s - 1)) div s" s] by (simp add: unat_div a)
qed

lemma roundup_next:
  assumes "0 < (s :: nat)"
  shows "x \<le> (x + s - 1) div s * s" "(x + s - 1) div s * s < x + s"
  using div_mult_mod_eq [of "x + s - 1" s] mod_less_divisor [OF assms, of "x + s - 1"] assms by linarith+

text \<open>C28: The overlay begins at the first sector border at or after the end of the root file system, inside the
  partition, provided the size in the superblock does not overflow the 64-bit sum.\<close>

theorem overlay_follows_rootfs:
  assumes "overlay_at sector v fin a = Some c" "a + unat (get_unaligned_le64 (\<lambda>k. v (a + k)) 40) < 2 ^ 64"
    and "0 < unat sector" "fin + unat sector \<le> 2 ^ 32" "a < fin"
  shows "let rootfs_end = a + unat (get_unaligned_le64 (\<lambda>k. v (a + k)) 40)
    in get_unaligned_le32 (\<lambda>k. v (a + k)) 0 = WEBFLASH_SQUASHFS_MAGIC \<and>
       a + WEBFLASH_SQUASHFS_SB_SIZE \<le> rootfs_end \<and> rootfs_end \<le> unat c \<and> unat c < rootfs_end + unat sector \<and>
       unat sector dvd unat c \<and> unat c < fin"
proof -
  define n where "n = get_unaligned_le64 (\<lambda>k. v (a + k)) 40"
  define e where "e = (ucast (of_nat a :: u32) :: u64) + n"
  have fin: "unat (of_nat fin :: u32) = fin" "unat (of_nat a :: u32) = a"
    using assms(3-5) by (simp_all add: unsigned_of_nat take_bit_nat_eq_self)
  have u: "unat e = a + unat n" using assms(2) unfolding e_def n_def [symmetric]
    by (simp add: unat_word_ariths ucast_u32_u64 fin)
  have c: "get_unaligned_le32 (\<lambda>k. v (a + k)) 0 = WEBFLASH_SQUASHFS_MAGIC" "\<not> n < of_nat WEBFLASH_SQUASHFS_SB_SIZE"
    "\<not> ucast (of_nat fin :: u32) \<le> e" "c = roundup (ucast e) sector" "c < of_nat fin"
    using assms(1) by (auto simp: overlay_at_def overlay_candidate_def Let_def n_def [symmetric] e_def [symmetric]
        split: if_splits)
  have lt: "unat e < fin" using c(3) by (simp add: word_le_nat_alt ucast_u32_u64 fin)
  then have "unat e < 2 ^ 32" using assms(4) by linarith
  then have ue: "unat (ucast e :: u32) = unat e" by (simp add: unsigned_ucast_eq unsigned_take_bit_eq take_bit_nat_eq_self)
  have uc: "unat c = (unat e + unat sector - 1) div unat sector * unat sector"
    unfolding c(4) using unat_roundup [OF assms(3), of "ucast e"] lt assms(4) ue by simp
  show ?thesis
    using c(1,2,5) uc u roundup_next [OF assms(3), of "unat e"] fin
    by (simp add: Let_def n_def [symmetric] word_less_nat_alt u32_less_iff)
qed

section \<open>Sample file systems\<close>

text \<open>A superblock at the start of the firmware partition, with the given eight bytes as its size.\<close>

definition superblock_with :: "byte list \<Rightarrow> byte list" where
  "superblock_with sz = [0x68, 0x73, 0x71, 0x73] @ replicate 24 0 @ [4, 0, 0, 0] @ replicate 8 0 @ sz"

definition rootfs_with :: "byte list \<Rightarrow> nat \<Rightarrow> byte" where
  "rootfs_with sz a = (if 0x50000 \<le> a then ptr_of (superblock_with sz) (a - 0x50000) else 0xff)"

lemma rootfs_at:
  "overlay_at sector (rootfs_with sz) 0x2000000 0x50000 =
     overlay_candidate sector (ptr_of (superblock_with sz)) 0x2000000 0x50000 0"
  using candidate_at [of "ptr_of (superblock_with sz)" 0 "rootfs_with sz" "0x50000" sector "0x2000000"]
  by (simp add: rootfs_with_def)

theorem overlay_follows_rootfs_witness:
  "overlay_at 65536 (rootfs_with [0, 0x10, 0x20, 0, 0, 0, 0, 0]) 0x2000000 0x50000 = Some 0x260000 \<and>
   unat (0x260000 :: u32) < 0x2000000"
proof -
  let ?v = "rootfs_with [0, 0x10, 0x20, 0, 0, 0, 0, 0]"
  have o: "overlay_at 65536 ?v 0x2000000 0x50000 = Some 0x260000" unfolding rootfs_at by code_simp
  have "get_unaligned_le64 (ptr_of (superblock_with [0, 0x10, 0x20, 0, 0, 0, 0, 0])) 40 = 0x201000" by code_simp
  then have "unat (get_unaligned_le64 (\<lambda>k. ?v (0x50000 + k)) 40) = 0x201000" by (simp add: rootfs_with_def)
  with overlay_follows_rootfs [OF o] o show ?thesis by simp
qed

section \<open>A size that overflows\<close>

lemma rootfs_offsets_Cons: "rootfs_offsets = 0x50000 # [0x50001..<0x2000000 - 95]"
  unfolding rootfs_offsets_def by (subst upt_conv_Cons) (simp_all del: upt_rec_numeral)

text \<open>C36: The 64-bit end of the root file system wraps around: a superblock that claims 2^64 - 0x50000 bytes makes
  the code place the overlay at offset 0, on the boot loader, where a factory reset starts to erase.\<close>

theorem overlay_end_wraps:
  "spi_ok (flash ctx) \<Longrightarrow> 0x2000000 \<le> mtd_size (flash ctx) \<Longrightarrow> length (io_buf ctx) = 65536 \<Longrightarrow>
   erasesize (flash ctx) = 65536 \<Longrightarrow> array (flash ctx) = rootfs_with [0, 0, 0xfb, 0xff, 0xff, 0xff, 0xff, 0xff] \<Longrightarrow>
   fst (webflash_find_overlay (with_spi_nor P) ctx) = Inr 0"
proof -
  assume a: "spi_ok (flash ctx)" "0x2000000 \<le> mtd_size (flash ctx)" "length (io_buf ctx) = 65536"
    and e: "erasesize (flash ctx) = 65536" "array (flash ctx) = rootfs_with [0, 0, 0xfb, 0xff, 0xff, 0xff, 0xff, 0xff]"
  have "overlay_at 65536 (rootfs_with [0, 0, 0xfb, 0xff, 0xff, 0xff, 0xff, 0xff]) 0x2000000 0x50000 = Some 0"
    unfolding rootfs_at by code_simp
  with find_overlay_search [OF a, of P] e show ?thesis by (simp add: rootfs_offsets_Cons del: upt_rec_numeral)
qed

end
