(* ===== verification/Callbacks.thy ===== *)
theory Callbacks
  imports Console
begin

text \<open>
  What the callbacks of lwIP keep.  A property of the context that the handlers of a request, of
  received bytes and of the connection keep is kept by every callback, whatever bytes arrive and
  however they are cut: the locale \<open>callbacks_keep\<close> states this once for the invariants that are
  not part of \<open>console_inv\<close>.
\<close>

section \<open>The plan\<close>

text \<open>The job, the clock, and what is scheduled: everything the main loop looks at.\<close>

definition same_plan :: "('c, 'w) webflash_ctx \<Rightarrow> ('c, 'w) webflash_ctx \<Rightarrow> bool" where
  "same_plan a b \<longleftrightarrow>
     job b = job a \<and> reboot_pending b = reboot_pending a \<and> reboot_start b = reboot_start a \<and> boot_pending b = boot_pending a \<and>
     boot_addr b = boot_addr a \<and> boot_start b = boot_start a \<and> now b = now a"

lemma same_plan_refl [simp]: "same_plan a a"
  by (simp add: same_plan_def)

lemma same_plan_trans: "same_plan a b \<Longrightarrow> same_plan b c \<Longrightarrow> same_plan a c"
  by (simp add: same_plan_def)

lemma same_plan_active: "same_plan a b \<Longrightarrow> webflash_job_active b = webflash_job_active a"
  by (simp add: same_plan_def webflash_job_active_def)

lemma same_plan_io: "keeps_io a b \<Longrightarrow> same_plan a b"
  by (simp add: same_plan_def keeps_io_def)

lemma same_plan_upd [simp]:
  "same_plan a (c\<lparr>world := w\<rparr>) = same_plan a c" "same_plan a (c\<lparr>flash := f\<rparr>) = same_plan a c"
  "same_plan a (c\<lparr>ram := r\<rparr>) = same_plan a c" "same_plan a (c\<lparr>upload_size := n\<rparr>) = same_plan a c"
  "same_plan a (c\<lparr>completed_addr := n\<rparr>) = same_plan a c" "same_plan a (c\<lparr>completed_size := n\<rparr>) = same_plan a c"
  "same_plan a (c\<lparr>body := s\<rparr>) = same_plan a c" "same_plan a (c\<lparr>header := s\<rparr>) = same_plan a c"
  "same_plan a (c\<lparr>last_activity := n\<rparr>) = same_plan a c" "same_plan a (c\<lparr>reply_pending := n'\<rparr>) = same_plan a c"
  "same_plan a (c\<lparr>output_pending := b\<rparr>) = same_plan a c" "same_plan a (c\<lparr>close_pending := b\<rparr>) = same_plan a c"
  "same_plan a (c\<lparr>faulted := b\<rparr>) = same_plan a c" "same_plan a (c\<lparr>keep_config := b\<rparr>) = same_plan a c"
  by (simp_all add: same_plan_def)

lemma same_plan_reply [simp]:
  assumes "same_plan a c"
  shows "same_plan a (webflash_error P c status message)" "same_plan a (snd (webflash_ok P c message))"
    "same_plan a (snd (webflash_reply P c status ctype ptr))" "same_plan a (snd (webflash_reply P (set_reply c s) status ctype ptr))"
    "same_plan a (webflash_abort_client P c)" "same_plan a (snd (webflash_try_close_client P c))"
    "same_plan a (snd (webflash_stream_fill P c))"
  using assms same_plan_trans [OF assms same_plan_io [OF fill_frame(1)]]
  by (auto intro!: same_plan_trans [OF assms same_plan_io [OF keeps_imp_io]] simp: error_keeps ok_keeps reply_keeps abort_keeps close_keeps
      keeps_trans [OF set_reply_keeps reply_keeps])

text \<open>Received bytes do not change the plan.\<close>

lemma store_upload_plan: "same_plan ctx (snd (webflash_store_upload P ctx data))"
proof -
  have f: "same_plan a (snd (upload_finish P c))" if "same_plan a c" for a c
  proof (cases "upload_part c")
    case None
    then show ?thesis using that by (simp add: upload_finish_def webflash_validate_upload_def)
  next
    case (Some p)
    obtain ret c1 where v: "webflash_validate_upload c = (ret, c1)" by fastforce
    then have "same_plan a c1" "upload_part c1 = Some p"
      using validate_upload_form [OF Some v] that Some by (auto simp: same_plan_def)
    then show ?thesis by (simp add: upload_finish_def v)
  qed
  show ?thesis by (simp add: webflash_store_upload_def upload_done_def Let_def split_def f)
qed

lemma store_body_plan: "same_plan ctx (snd (webflash_store_body P ctx data))"
proof -
  have s: "same_plan a (snd (webflash_env_save P c))" if "same_plan a c" for a c
    using that by (simp add: webflash_env_save_def env_commit_def split_def Let_def split: sum.splits)
  show ?thesis by (simp add: webflash_store_body_def webflash_handle_body_def Let_def s split: webflash_action.splits)
qed

section \<open>Whatever the handlers keep\<close>

locale callbacks_keep =
  fixes P :: "('c, 'w) platform" and keep :: "('c, 'w) webflash_ctx \<Rightarrow> bool"
  assumes headers: "keep ctx \<Longrightarrow> rx_state ctx = WEBFLASH_RX_HEADERS \<Longrightarrow> keep (snd (webflash_handle_headers P ctx))"
    and upload: "keep ctx \<Longrightarrow> rx_state ctx = WEBFLASH_RX_UPLOAD \<Longrightarrow> keep (snd (webflash_store_upload P ctx data))"
    and body: "keep ctx \<Longrightarrow> rx_state ctx = WEBFLASH_RX_BODY \<Longrightarrow> keep (snd (webflash_store_body P ctx data))"
    and fill: "keep ctx \<Longrightarrow> keep (snd (webflash_stream_fill P ctx))"
    and error: "keep ctx \<Longrightarrow> keep (webflash_error P ctx status message)"
    and abort: "keep ctx \<Longrightarrow> keep (webflash_abort_client P ctx)"
    and close: "keep ctx \<Longrightarrow> keep (snd (webflash_try_close_client P ctx))"
    and accept: "keep ctx \<Longrightarrow> keep (snd (webflash_accept P ctx new err))"
    and lost: "keep ctx \<Longrightarrow> keep (webflash_tcp_error ctx)"
    and fields: "keep (ctx\<lparr>world := w\<rparr>) = keep ctx" "keep (ctx\<lparr>header := s\<rparr>) = keep ctx"
      "keep (ctx\<lparr>last_activity := n\<rparr>) = keep ctx" "keep (ctx\<lparr>reply_pending := r\<rparr>) = keep ctx"
      "keep (ctx\<lparr>output_pending := b\<rparr>) = keep ctx" "keep (ctx\<lparr>close_pending := b\<rparr>) = keep ctx"
begin

lemma consume: "keep ctx \<Longrightarrow> keep (snd (webflash_consume P ctx data))"
proof (induction data arbitrary: ctx)
  case (Cons b bs)
  have "rx_state ctx \<in> {WEBFLASH_RX_HEADERS, WEBFLASH_RX_UPLOAD, WEBFLASH_RX_BODY, WEBFLASH_RX_REPLIED}"
    by (cases "rx_state ctx") auto
  with Cons show ?case by (auto simp: Let_def upload body error headers fields)
qed simp

lemma recv_chain: "keep ctx \<Longrightarrow> keep (recv_chain P ctx qs)"
  by (induction qs arbitrary: ctx) (auto simp: Let_def consume)

lemma recv: "keep ctx \<Longrightarrow> keep (snd (webflash_recv P ctx pcb p err))"
  by (simp add: webflash_recv_def Let_def split_def close abort recv_chain fields split: option.splits)

lemma sent: "keep ctx \<Longrightarrow> keep (snd (webflash_sent P ctx pcb len))"
proof -
  have c: "keep (snd (sent_close P c))" if "keep c" for c
    using that by (simp add: sent_close_def Let_def split_def close fields)
  assume "keep ctx"
  then show ?thesis by (simp add: webflash_sent_def Let_def split_def fill abort c fields)
qed

lemma poll: "keep ctx \<Longrightarrow> keep (snd (webflash_poll P ctx pcb))"
proof -
  have c: "keep (snd (poll_close P c))" if "keep c" for c
    using that by (simp add: poll_close_def poll_idle_def Let_def split_def close abort)
  assume "keep ctx"
  then show ?thesis by (simp add: webflash_poll_def Let_def split_def fill abort c fields)
qed

lemma event: "keep ctx \<Longrightarrow> keep (handle_event P ctx e)"
  by (cases e) (simp_all add: accept recv sent lost poll)

lemma events: "keep ctx \<Longrightarrow> keep (fold (\<lambda>e ctx. handle_event P ctx e) es ctx)"
  by (induction es arbitrary: ctx) (simp_all add: event)

end

end
