(* ===== verification/Exclusive.thy ===== *)
theory Exclusive
  imports Callbacks
begin

text \<open>
  A running job excludes a reboot and a boot: neither is scheduled while one runs, and no job
  starts while one is scheduled.  So the main loop never resets the board, or jumps into an
  image, in the middle of a job.  The second half says who may start a job: only a request
  with the right confirmation phrase.
\<close>

section \<open>Jobs, reboots and boots exclude each other\<close>

definition exclusive :: "('c, 'w) webflash_ctx \<Rightarrow> bool" where
  "exclusive ctx \<longleftrightarrow> (webflash_job_active ctx \<longrightarrow> \<not> reboot_pending ctx \<and> \<not> boot_pending ctx)"

lemma exclusive_io: "keeps_io a b \<Longrightarrow> exclusive a \<Longrightarrow> exclusive b"
  by (simp add: exclusive_def keeps_io_def webflash_job_active_def)

lemma exclusive_talks: "talks a b \<Longrightarrow> exclusive a \<Longrightarrow> exclusive b"
  by (auto simp: talks_def keeps_def intro: exclusive_io)

lemma exclusive_talks_io: "talks_io a b \<Longrightarrow> exclusive a \<Longrightarrow> exclusive b"
  by (auto simp: talks_io_def intro: exclusive_io)

lemma exclusive_reply [simp]:
  "exclusive ctx \<Longrightarrow> exclusive (webflash_error P ctx status message)"
  "exclusive ctx \<Longrightarrow> exclusive (snd (webflash_ok P ctx message))"
  "exclusive ctx \<Longrightarrow> exclusive (snd (webflash_reply P ctx status ctype ptr))"
  "exclusive ctx \<Longrightarrow> exclusive (snd (webflash_reply P (set_reply ctx s) status ctype ptr))"
  "exclusive ctx \<Longrightarrow> exclusive (webflash_abort_client P ctx)"
  "exclusive ctx \<Longrightarrow> exclusive (snd (webflash_try_close_client P ctx))"
  by (blast intro: exclusive_talks talks_simps)+

lemma exclusive_upd [simp]:
  "exclusive (ctx\<lparr>world := w\<rparr>) = exclusive ctx" "exclusive (ctx\<lparr>flash := c\<rparr>) = exclusive ctx"
  "exclusive (ctx\<lparr>keep_config := b\<rparr>) = exclusive ctx" "exclusive (ctx\<lparr>last_activity := n\<rparr>) = exclusive ctx"
  "exclusive (ctx\<lparr>reply_pending := n\<rparr>) = exclusive ctx" "exclusive (ctx\<lparr>now := n\<rparr>) = exclusive ctx"
  "exclusive (ctx\<lparr>output_pending := b\<rparr>) = exclusive ctx" "exclusive (ctx\<lparr>close_pending := b\<rparr>) = exclusive ctx"
  "exclusive (ctx\<lparr>lmb_map := m\<rparr>) = exclusive ctx" "exclusive (ctx\<lparr>faulted := b\<rparr>) = exclusive ctx"
  "exclusive (ctx\<lparr>header := s\<rparr>) = exclusive ctx" "exclusive (ctx\<lparr>body := s\<rparr>) = exclusive ctx"
  "exclusive (ctx\<lparr>ram := r\<rparr>) = exclusive ctx" "exclusive (ctx\<lparr>upload_size := n\<rparr>) = exclusive ctx"
  "exclusive (ctx\<lparr>completed_addr := n\<rparr>) = exclusive ctx" "exclusive (ctx\<lparr>completed_size := n\<rparr>) = exclusive ctx"
  "exclusive (ctx\<lparr>boot_pending := False\<rparr>) = (exclusive ctx \<or> \<not> reboot_pending ctx)"
  by (auto simp: exclusive_def webflash_job_active_def)

lemma exclusive_idle: "\<not> webflash_job_active ctx \<Longrightarrow> exclusive ctx"
  by (simp add: exclusive_def)

lemma exclusive_start:
  "\<not> webflash_operation_blocked ctx \<Longrightarrow> exclusive (ctx\<lparr>job := j\<rparr>)"
  by (simp add: exclusive_def webflash_operation_blocked_def)

subsection \<open>Requests\<close>

lemma unblocked_exclusive: "\<not> webflash_operation_blocked ctx \<Longrightarrow> exclusive ctx"
  by (simp add: exclusive_def webflash_operation_blocked_def)

lemma exclusive_plan: "same_plan a b \<Longrightarrow> exclusive a \<Longrightarrow> exclusive b"
  by (simp add: same_plan_def exclusive_def webflash_job_active_def)

lemma prepare_exclusive:
  assumes "exclusive ctx"
  shows "exclusive (snd (webflash_prepare_upload P ctx p))" and "exclusive (snd (webflash_prepare_body P ctx act))"
proof -
  show "exclusive (snd (webflash_prepare_upload P ctx p))"
  proof (cases rule: prepare_upload_cases [where P = P and ctx = ctx and p = p])
    case (1 m)
    then show ?thesis using exclusive_talks assms by fastforce
  next
    case (2 sz m)
    then show ?thesis by (simp add: exclusive_def webflash_job_active_def)
  qed
  have "exclusive (ctx\<lparr>content_length := sz, body := [], action := act, rx_state := WEBFLASH_RX_BODY\<rparr>)" for sz
    using assms by (simp add: exclusive_def webflash_job_active_def)
  then show "exclusive (snd (webflash_prepare_body P ctx act))"
    using assms by (simp add: webflash_prepare_body_def Let_def split: sum.splits)
qed

text \<open>Backups, pages and the reset of the environment leave all of this alone.\<close>

lemma read_keeps: "keeps_io ctx (snd (flash_read_io P ctx off len))"
  by (auto simp: flash_read_io_def keeps_io_def split: prod.splits)

lemma keeps_io_reply:
  "keeps_io a b \<Longrightarrow> keeps_io a (webflash_error P b status message)"
  "keeps_io a b \<Longrightarrow> keeps_io a (snd (webflash_ok P b message))"
  "keeps_io a b \<Longrightarrow> keeps_io a (snd (webflash_reply P b status ctype ptr))"
  "keeps_io a b \<Longrightarrow> keeps_io a (webflash_abort_client P b)"
  "keeps_io a b \<Longrightarrow> keeps_io a (snd (webflash_stream_fill P b))"
  "keeps_io a b \<Longrightarrow> keeps_io a (set_reply b s)" "keeps_io a b \<Longrightarrow> keeps_io a (b\<lparr>world := w\<rparr>)"
  "keeps_io a b \<Longrightarrow> keeps_io a (b\<lparr>world := w, output_pending := o'\<rparr>)"
  "keeps_io a b \<Longrightarrow> keeps_io a (b\<lparr>world := w, flash := c\<rparr>)"
  by (erule keeps_io_trans [OF _ keeps_imp_io [OF error_keeps]] keeps_io_trans [OF _ keeps_imp_io [OF ok_keeps]]
        keeps_io_trans [OF _ keeps_imp_io [OF reply_keeps]] keeps_io_trans [OF _ keeps_imp_io [OF abort_keeps]]
        keeps_io_trans [OF _ fill_frame(1)] keeps_io_trans [OF _ keeps_imp_io [OF set_reply_keeps]])+
    (simp_all add: keeps_io_def)

lemma download_keeps: "keeps_io ctx (snd (webflash_start_download P ctx name))"
proof -
  have c: "keeps_io ctx (ctx\<lparr>world := w, rx_state := x, reply_pending := n, stream_offset := off,
      stream_remaining := sz, stream_memory := m, stream_from_flash := b, stream_active := b',
      output_pending := o1, close_pending := o2\<rparr>)" for w x n off sz m b b' o1 o2
    by (simp add: keeps_io_def)
  have f: "keeps_io ctx (ctx\<lparr>faulted := b\<rparr>)" for b by (simp add: keeps_io_def)
  have "keeps_io ctx (snd (download_range P ctx off sz name))" for off sz name
    by (simp add: download_range_def Let_def split_def keeps_io_reply c f split: option.splits)
  then show ?thesis by (simp add: webflash_start_download_def keeps_io_reply split: option.splits)
qed

lemma pages_keep:
  "keeps_io ctx (snd (webflash_info P ctx))" "keeps_io ctx (snd (webflash_job_status P ctx))"
  "keeps_io ctx (snd (webflash_env_info P ctx))" "keeps_io ctx (snd (webflash_eeprom_info P ctx))"
  "keeps_io ctx (snd (webflash_env_reset P ctx))"
proof -
  show "keeps_io ctx (snd (webflash_info P ctx))" "keeps_io ctx (snd (webflash_job_status P ctx))"
    "keeps_io ctx (snd (webflash_env_info P ctx))"
    by (simp_all only: webflash_info_def webflash_job_status_def webflash_env_info_def Let_def
        keeps_io_reply keeps_io_refl)
  show "keeps_io ctx (snd (webflash_eeprom_info P ctx))"
    by (simp add: webflash_eeprom_info_def Let_def split_def read_keeps keeps_io_reply)
  have "keeps_io ctx (snd (webflash_check_confirmation P ctx e))" for e
    using confirmation_talks [of ctx P e] by (simp add: talks_def keeps_def)
  then show "keeps_io ctx (snd (webflash_env_reset P ctx))"
    by (simp add: webflash_env_reset_def Let_def split_def keeps_io_reply)
qed

lemma start_job_exclusive:
  assumes "\<not> webflash_operation_blocked ctx"
  shows "exclusive (snd (webflash_start_flash_job P ctx))"
proof -
  have nb: "\<not> reboot_pending ctx" "\<not> boot_pending ctx" using assms by (simp_all add: webflash_operation_blocked_def)
  have p: "exclusive (snd (patch_eeprom P (ctx\<lparr>job := j\<rparr>)))" for j
    using nb by (simp add: patch_eeprom_def exclusive_def flash_read_io_def Let_def split_def split: option.splits)
  have "exclusive (ctx\<lparr>job := j\<rparr>)" "exclusive (ctx\<lparr>faulted := b\<rparr>)" for j b
    using nb by (simp_all add: exclusive_def)
  with p show ?thesis by (simp add: webflash_start_flash_job_def Let_def split: option.splits)
qed

lemma start_uploaded_exclusive:
  assumes "exclusive ctx"
  shows "exclusive (snd (webflash_start_uploaded_flash P ctx))"
proof -
  let ?k = "webflash_check_confirmation P ctx (webflash_expected_confirmation ctx)"
  have k: "exclusive (snd ?k)" by (rule exclusive_talks [OF confirmation_talks assms])
  have "exclusive (snd (webflash_start_flash_job P (snd ?k)))" if "\<not> webflash_operation_blocked ctx" "fst ?k = 0"
    using start_job_exclusive [OF that(1)] confirmation_0(1) [OF that(2)] by simp
  then show ?thesis
    using assms k by (simp add: webflash_start_uploaded_flash_def Let_def split_def split: option.splits)
qed

lemma overlay_scan_keeps: "keeps_io ctx (snd (overlay_scan P ctx fin pos))"
proof (induction P ctx fin pos rule: overlay_scan.induct)
  case (1 P ctx fin pos)
  let ?n = "min (unat WEBFLASH_IO_SIZE) (fin - pos)"
  let ?r = "flash_read_io P ctx (of_nat pos) (of_nat ?n)"
  have t: "keeps_io ctx (snd ?r)" by (auto simp: flash_read_io_def keeps_io_def split: prod.splits)
  show ?case
  proof (cases "fin < pos + WEBFLASH_SQUASHFS_SB_SIZE \<or> fst ?r \<noteq> 0 \<or>
      overlay_block (sf_sector_size P (flash (snd ?r))) (ptr_of (io_buf (snd ?r)))
        (of_nat fin) (of_nat pos) [0..<?n - (WEBFLASH_SQUASHFS_SB_SIZE - 1)] \<noteq> None")
    case True
    then show ?thesis using t by (subst overlay_scan.simps) (auto simp: Let_def split: option.splits)
  next
    case False
    let ?pos = "pos + (unat WEBFLASH_IO_SIZE - (WEBFLASH_SQUASHFS_SB_SIZE - 1))"
    have eq: "overlay_scan P ctx fin pos = overlay_scan P (snd ?r) fin ?pos"
      using False by (subst overlay_scan.simps) (simp add: Let_def)
    have "keeps_io (snd ?r) (snd (overlay_scan P (snd ?r) fin ?pos))"
      by (rule "1.IH" [OF _ refl refl]) (use False in auto)
    then show ?thesis unfolding eq using keeps_io_trans [OF t] by simp
  qed
qed

lemma factory_reset_exclusive:
  assumes "exclusive ctx"
  shows "exclusive (snd (webflash_factory_reset P ctx))"
proof (cases "webflash_operation_blocked ctx \<or> fst (webflash_check_confirmation P ctx ''ERASE-SETTINGS'') \<noteq> 0")
  case True
  have "exclusive (snd (webflash_check_confirmation P ctx ''ERASE-SETTINGS''))"
    by (rule exclusive_talks [OF confirmation_talks assms])
  with True assms show ?thesis by (auto simp: webflash_factory_reset_def Let_def split_def)
next
  case False
  then have k: "webflash_check_confirmation P ctx ''ERASE-SETTINGS'' = (0, ctx)"
    using confirmation_0(1) [of P ctx] by (simp add: prod_eq_iff)
  let ?c = "snd (webflash_find_overlay P ctx)"
  have "keeps_io ctx ?c" by (simp add: webflash_find_overlay_def overlay_scan_keeps)
  then have "exclusive ?c" "exclusive (?c\<lparr>job := j\<rparr>)" for j
    using False assms exclusive_io by (auto simp: webflash_operation_blocked_def exclusive_def keeps_io_def)
  then show ?thesis
    using False k by (simp add: webflash_factory_reset_def Let_def split_def split: sum.splits)
qed

lemma handle_headers_exclusive:
  assumes "exclusive ctx"
  shows "exclusive (snd (webflash_handle_headers P ctx))"
proof -
  have "exclusive (snd (boot_ram P ctx))"
  proof (cases "webflash_operation_blocked ctx")
    case False
    then have "exclusive (ctx\<lparr>boot_addr := a, boot_start := n, boot_pending := True\<rparr>)" for a n
      by (simp add: exclusive_def webflash_operation_blocked_def webflash_job_active_def)
    with assms show ?thesis by (simp add: boot_ram_def)
  qed (use assms in \<open>simp add: boot_ram_def\<close>)
  moreover have "exclusive (snd (flash_request P ctx))"
    unfolding flash_request_def by (rule start_uploaded_exclusive) (use assms in \<open>simp split: sum.splits\<close>)
  moreover have "exclusive (snd (reboot_request P ctx))"
  proof (cases "webflash_job_active ctx")
    case False
    then have "exclusive (webflash_schedule_reboot ctx)"
      by (simp add: webflash_schedule_reboot_def exclusive_def webflash_job_active_def)
    with assms show ?thesis by (simp add: reboot_request_def)
  qed (use assms in \<open>simp add: reboot_request_def\<close>)
  ultimately show ?thesis
    using assms by (simp add: webflash_handle_headers_def prepare_exclusive exclusive_io [OF pages_keep(1)]
        exclusive_io [OF pages_keep(2)] exclusive_io [OF pages_keep(3)] exclusive_io [OF pages_keep(4)]
        exclusive_io [OF pages_keep(5)] exclusive_io [OF download_keeps] factory_reset_exclusive split: option.splits)
qed

subsection \<open>Callbacks and steps\<close>

interpretation excl: callbacks_keep P exclusive for P
proof
  show "exclusive ctx \<Longrightarrow> exclusive (snd (webflash_stream_fill P ctx))" for ctx
    by (rule exclusive_io [OF fill_frame(1)])
  show "exclusive ctx \<Longrightarrow> exclusive (snd (webflash_accept P ctx new err))" for ctx new err
    by (auto simp: webflash_accept_def exclusive_def webflash_job_active_def Let_def split: option.splits)
  show "exclusive ctx \<Longrightarrow> exclusive (webflash_tcp_error ctx)" for ctx
    by (simp add: webflash_tcp_error_def exclusive_def webflash_job_active_def)
qed (auto simp: handle_headers_exclusive intro: exclusive_plan [OF store_upload_plan] exclusive_plan [OF store_body_plan])

lemma job_step_exclusive:
  assumes "exclusive ctx" "webflash_job_active ctx"
  shows "exclusive (webflash_job_step P ctx)"
proof -
  have "\<not> reboot_pending ctx" "\<not> boot_pending ctx" using assms by (simp_all add: exclusive_def)
  then show ?thesis
    by (auto simp: webflash_job_step_def job_erase_step_def job_write_step_def job_verify_step_def Let_def
        webflash_job_fail_def webflash_schedule_reboot_def flash_read_io_def exclusive_def webflash_job_active_def
        split: webflash_job_phase.splits prod.splits option.splits)
qed

lemma step_exclusive:
  assumes "console_step P ctx ctx'" "exclusive ctx"
  shows "exclusive ctx'"
  using assms(1)
proof cases
  case boot
  then show ?thesis using assms(2) by simp
qed (use assms(2) in \<open>simp_all add: excl.event job_step_exclusive\<close>)

lemma reachable_exclusive: "reachable P ctx0 ctx \<Longrightarrow> exclusive ctx0 \<Longrightarrow> exclusive ctx"
  by (induction rule: reachable.induct) (auto intro: step_exclusive)

text \<open>The turn that resets the board, or leaves for an image, has no job running.\<close>

lemma turn_job_exclusive: "exclusive ctx \<Longrightarrow> exclusive (turn_job P ctx t)"
  by (rule reachable_exclusive [OF turn_job_reachable])

lemma main_turn_exclusive:
  assumes "exclusive ctx"
  shows "main_turn P ctx t = Reset c \<Longrightarrow> \<not> webflash_job_active c"
    and "main_turn P ctx t = Booted a c \<Longrightarrow> \<not> webflash_job_active c"
proof -
  let ?c = "turn_job P ctx t"
  have e: "exclusive ?c" "exclusive (webflash_abort_client P ?c)" using turn_job_exclusive [OF assms] by simp_all
  have b: "boot_pending (webflash_abort_client P ?c) = boot_pending ?c" "job (webflash_abort_client P ?c) = job ?c"
    using abort_keeps [of ?c P] by (simp_all add: keeps_def keeps_io_def)
  show "main_turn P ctx t = Reset c \<Longrightarrow> \<not> webflash_job_active c"
    "main_turn P ctx t = Booted a c \<Longrightarrow> \<not> webflash_job_active c"
    using e b by (auto simp: main_turn_def turn_reboot_def exclusive_def webflash_job_active_def Let_def split: if_splits)
qed

lemma main_loop_exclusive:
  assumes "exclusive ctx"
  shows "main_loop P ctx ts = Reset c \<or> main_loop P ctx ts = Booted a c \<Longrightarrow> \<not> webflash_job_active c"
  using assms
proof (induction ts arbitrary: ctx)
  case (Cons t ts)
  show ?case
  proof (cases "main_turn P ctx t")
    case (Running c')
    then have "exclusive c'" using main_turn_reachable reachable_exclusive Cons.prems(2) by blast
    with Cons.IH Cons.prems(1) Running show ?thesis by simp
  qed (use Cons.prems main_turn_exclusive [OF Cons.prems(2)] in auto)
qed simp

section \<open>Who may start a job\<close>

text \<open>The phrase a request carries is the one expected.\<close>

definition confirmed :: "('c, 'w) webflash_ctx \<Rightarrow> string \<Rightarrow> bool" where
  "confirmed ctx phrase \<longleftrightarrow>
     (\<exists>v. webflash_header_value ctx ''X-Safeboot-Confirm'' 40 = Inr v \<and> cstr v = cstr phrase)"

lemma keeps_io_active: "keeps_io a b \<Longrightarrow> webflash_job_active b = webflash_job_active a"
  by (simp add: keeps_io_def webflash_job_active_def)

lemma reply_active [simp]:
  "webflash_job_active (webflash_error P ctx status message) = webflash_job_active ctx"
  "webflash_job_active (snd (webflash_ok P ctx message)) = webflash_job_active ctx"
  "webflash_job_active (snd (webflash_reply P ctx status ctype ptr)) = webflash_job_active ctx"
  by (simp_all add: keeps_io_active [OF keeps_io_reply(1) [OF keeps_io_refl]]
      keeps_io_active [OF keeps_io_reply(2) [OF keeps_io_refl]] keeps_io_active [OF keeps_io_reply(3) [OF keeps_io_refl]])

lemma prepare_active:
  assumes "\<not> webflash_job_active ctx"
  shows "\<not> webflash_job_active (snd (webflash_prepare_upload P ctx p))"
    and "\<not> webflash_job_active (snd (webflash_prepare_body P ctx act))"
proof -
  show "\<not> webflash_job_active (snd (webflash_prepare_upload P ctx p))"
  proof (cases rule: prepare_upload_cases [where P = P and ctx = ctx and p = p])
    case (1 m)
    then have "keeps_io (ctx\<lparr>lmb_map := m\<rparr>) (snd (webflash_prepare_upload P ctx p))"
      by (simp add: talks_def keeps_def)
    from keeps_io_active [OF this] assms show ?thesis by (simp add: webflash_job_active_def)
  next
    case (2 sz m)
    then show ?thesis by (simp add: webflash_job_active_def)
  qed
  have "\<not> webflash_job_active (ctx\<lparr>content_length := sz, body := [], action := act, rx_state := WEBFLASH_RX_BODY\<rparr>)" for sz
    using assms by (simp add: webflash_job_active_def)
  then show "\<not> webflash_job_active (snd (webflash_prepare_body P ctx act))"
    using assms by (simp add: webflash_prepare_body_def Let_def split: sum.splits)
qed

lemma boot_reboot_active:
  assumes "\<not> webflash_job_active ctx"
  shows "\<not> webflash_job_active (snd (boot_ram P ctx))" "\<not> webflash_job_active (snd (reboot_request P ctx))"
proof -
  have "\<not> webflash_job_active (ctx\<lparr>boot_addr := a, boot_start := n, boot_pending := b\<rparr>)"
    "\<not> webflash_job_active (webflash_schedule_reboot ctx)" for a n b
    using assms by (simp_all add: webflash_job_active_def webflash_schedule_reboot_def)
  then show "\<not> webflash_job_active (snd (boot_ram P ctx))" "\<not> webflash_job_active (snd (reboot_request P ctx))"
    using assms by (simp_all add: boot_ram_def reboot_request_def)
qed

lemma unconfirmed_active:
  assumes "\<not> webflash_job_active ctx"
  shows "webflash_job_active (snd (webflash_start_uploaded_flash P ctx)) \<Longrightarrow>
      confirmed ctx (webflash_expected_confirmation ctx) \<and> upload_valid ctx \<and> \<not> webflash_operation_blocked ctx"
    and "webflash_job_active (snd (webflash_factory_reset P ctx)) \<Longrightarrow>
      confirmed ctx ''ERASE-SETTINGS'' \<and> \<not> webflash_operation_blocked ctx"
proof -
  have c: "\<not> webflash_job_active (snd (webflash_check_confirmation P ctx e))" for e
    using confirmation_talks [of ctx P e] assms keeps_io_active by (auto simp: talks_def keeps_def)
  have k: "confirmed ctx e" if "fst (webflash_check_confirmation P ctx e) = 0" for e
    using confirmation_0(2) [OF that] by (simp add: confirmed_def)
  show "webflash_job_active (snd (webflash_start_uploaded_flash P ctx)) \<Longrightarrow>
      confirmed ctx (webflash_expected_confirmation ctx) \<and> upload_valid ctx \<and> \<not> webflash_operation_blocked ctx"
    using assms c k by (auto simp: webflash_start_uploaded_flash_def Let_def split_def split: if_splits option.splits)
  show "webflash_job_active (snd (webflash_factory_reset P ctx)) \<Longrightarrow>
      confirmed ctx ''ERASE-SETTINGS'' \<and> \<not> webflash_operation_blocked ctx"
    using assms c k by (auto simp: webflash_factory_reset_def Let_def split_def split: if_splits)
qed

lemma headers_start_job:
  assumes "\<not> webflash_job_active ctx" and "webflash_job_active (snd (webflash_handle_headers P ctx))"
  shows "(request_is ctx ''POST'' ''/api/flash'' \<and> upload_valid ctx \<and>
      confirmed ctx (webflash_expected_confirmation ctx)) \<or>
    (request_is ctx ''POST'' ''/api/factory-reset'' \<and> confirmed ctx ''ERASE-SETTINGS'')"
proof -
  let ?c = "case webflash_header_value ctx ''X-Keep-Config'' 4 of Inl _ \<Rightarrow> ctx
    | Inr keep \<Rightarrow> ctx\<lparr>keep_config := (c0 keep = CHR ''1'')\<rparr>"
  have q: "\<not> webflash_job_active ?c" "confirmed ?c = confirmed ctx" "upload_valid ?c = upload_valid ctx"
    "webflash_expected_confirmation ?c = webflash_expected_confirmation ctx"
    using assms(1) by (auto simp: webflash_job_active_def confirmed_def webflash_header_value_def
        webflash_expected_confirmation_def webflash_upload_is_firmware_def fun_eq_iff split: sum.splits)
  have f: "webflash_job_active (snd (flash_request P ctx)) \<Longrightarrow>
      upload_valid ctx \<and> confirmed ctx (webflash_expected_confirmation ctx)"
    unfolding flash_request_def using unconfirmed_active(1) [OF q(1)] q(2-4) by simp
  note k = keeps_io_active [OF pages_keep(1)] keeps_io_active [OF pages_keep(2)] keeps_io_active [OF pages_keep(3)]
    keeps_io_active [OF pages_keep(4)] keeps_io_active [OF pages_keep(5)] keeps_io_active [OF download_keeps]
  show ?thesis
    using assms f unconfirmed_active(2) [OF assms(1)]
    by (auto simp: webflash_handle_headers_def k prepare_active boot_reboot_active split: if_splits option.splits)
qed

end
