(* ===== verification/Schedule.thy ===== *)
theory Schedule
  imports Exclusive Busy
begin

text \<open>
  What is scheduled.  First, no backup is being streamed and nothing is being received when a
  job runs, or is done and the board is about to restart: such a context is calm (theory Busy), so
  nothing but the job touches the flash and the RAM.  Second, a restart that is
  pending stays pending, with its time, until the main loop carries it out.
\<close>

section \<open>No backup while a job runs\<close>

text \<open>No backup is being streamed.\<close>

definition still :: "('c, 'w) webflash_ctx \<Rightarrow> bool" where
  "still ctx \<longleftrightarrow> \<not> (stream_active ctx \<and> stream_from_flash ctx)"

definition settled :: "('c, 'w) webflash_ctx \<Rightarrow> bool" where
  "settled ctx \<longleftrightarrow> still ctx \<or> (rx_state ctx = WEBFLASH_RX_REPLIED \<and> \<not> committed ctx)"

lemma keeps_io_committed: "keeps_io a b \<Longrightarrow> committed b = committed a"
  by (simp add: keeps_io_def committed_def webflash_job_active_def)

lemma settled_io:
  assumes "keeps_io a b" "still a \<Longrightarrow> still b" "rx_state b = rx_state a \<or> rx_state b = WEBFLASH_RX_REPLIED" "settled a"
  shows "settled b"
  using assms keeps_io_committed [OF assms(1)] by (auto simp: settled_def)

lemma settled_upd [simp]:
  "settled (ctx\<lparr>world := w\<rparr>) = settled ctx" "settled (ctx\<lparr>header := s\<rparr>) = settled ctx"
  "settled (ctx\<lparr>last_activity := n\<rparr>) = settled ctx" "settled (ctx\<lparr>reply_pending := n'\<rparr>) = settled ctx"
  "settled (ctx\<lparr>output_pending := b\<rparr>) = settled ctx" "settled (ctx\<lparr>close_pending := b\<rparr>) = settled ctx"
  "settled (ctx\<lparr>now := n\<rparr>) = settled ctx" "settled (ctx\<lparr>boot_pending := b\<rparr>) = settled ctx"
  by (simp_all add: settled_def still_def committed_def webflash_job_active_def)

lemma still_upd [simp]:
  "still (ctx\<lparr>world := w\<rparr>) = still ctx" "still (ctx\<lparr>flash := c\<rparr>) = still ctx"
  "still (ctx\<lparr>job := j\<rparr>) = still ctx" "still (ctx\<lparr>io_buf := s\<rparr>) = still ctx"
  "still (ctx\<lparr>reply := r\<rparr>) = still ctx" "still (ctx\<lparr>keep_config := b\<rparr>) = still ctx"
  "still (ctx\<lparr>ram := m\<rparr>) = still ctx" "still (ctx\<lparr>upload_size := n\<rparr>) = still ctx"
  "still (ctx\<lparr>body := s'\<rparr>) = still ctx" "still (ctx\<lparr>lmb_map := l\<rparr>) = still ctx"
  "still (ctx\<lparr>completed_addr := n\<rparr>) = still ctx" "still (ctx\<lparr>completed_size := n\<rparr>) = still ctx"
  "still (ctx\<lparr>faulted := b\<rparr>) = still ctx" "still (ctx\<lparr>factory_buf := s\<rparr>) = still ctx"
  "still (ctx\<lparr>now := n\<rparr>) = still ctx" "still (ctx\<lparr>boot_pending := b\<rparr>) = still ctx"
  "still (ctx\<lparr>boot_addr := n\<rparr>) = still ctx" "still (ctx\<lparr>boot_start := n\<rparr>) = still ctx"
  "still (ctx\<lparr>upload_part := p\<rparr>) = still ctx" "still (ctx\<lparr>image_kind := k\<rparr>) = still ctx"
  "still (ctx\<lparr>content_length := n\<rparr>) = still ctx" "still (ctx\<lparr>upload_valid := b\<rparr>) = still ctx"
  "still (ctx\<lparr>upload_detail := s'\<rparr>) = still ctx" "still (ctx\<lparr>rx_state := x\<rparr>) = still ctx"
  "still (ctx\<lparr>action := act\<rparr>) = still ctx" "still (ctx\<lparr>upload_crc := n'\<rparr>) = still ctx"
  "still (set_reply ctx s') = still ctx" "still (webflash_schedule_reboot ctx) = still ctx"
  by (simp_all add: still_def set_reply_def webflash_schedule_reboot_def)

lemma still_reply [simp]:
  assumes "still ctx"
  shows "still (snd (webflash_reply P ctx status ctype ptr))" "still (webflash_error P ctx status message)"
    "still (snd (webflash_ok P ctx message))" "still (snd (webflash_check_confirmation P ctx e))"
proof -
  have r: "still (snd (webflash_reply P c status ctype ptr))" if "still c" for c status ctype ptr
    using that reply_stream [of P c status ctype ptr] by (cases "webflash_reply P c status ctype ptr") (auto simp: still_def)
  show "still (snd (webflash_reply P ctx status ctype ptr))" "still (webflash_error P ctx status message)"
    "still (snd (webflash_ok P ctx message))" "still (snd (webflash_check_confirmation P ctx e))"
    unfolding webflash_error_def webflash_ok_def webflash_check_confirmation_def Let_def
    using assms by (auto intro!: r)
qed

lemma still_abort [simp]: "still (webflash_abort_client P ctx) = still ctx"
  by (simp add: still_def)

lemma still_read [simp]: "still (snd (flash_read_io P ctx off len)) = still ctx"
  by (simp add: flash_read_io_def Let_def split_def)

lemma still_overlay: "still (snd (webflash_find_overlay P ctx)) = still ctx"
proof -
  have "still (snd (overlay_scan P ctx fin pos)) = still ctx" for fin pos
  proof (induction P ctx fin pos rule: overlay_scan.induct)
    case (1 P ctx fin pos)
    then show ?case by (subst overlay_scan.simps) (simp add: Let_def split: option.splits)
  qed
  then show ?thesis by (simp add: webflash_find_overlay_def)
qed

lemma still_start: "still (snd (webflash_start_flash_job P ctx)) = still ctx"
  by (simp add: webflash_start_flash_job_def patch_eeprom_def Let_def split_def split: option.splits)

lemma still_pages:
  assumes "still ctx"
  shows "still (snd (webflash_info P ctx))" "still (snd (webflash_job_status P ctx))"
    "still (snd (webflash_env_info P ctx))" "still (snd (webflash_eeprom_info P ctx))" "still (snd (webflash_env_reset P ctx))"
  unfolding webflash_info_def webflash_job_status_def webflash_env_info_def webflash_eeprom_info_def webflash_env_reset_def
  using assms by (simp_all only: Let_def split_def) (simp_all del: append_Cons append.simps)

lemma still_requests:
  assumes "still ctx"
  shows "still (snd (boot_ram P ctx))" "still (snd (reboot_request P ctx))"
    "still (snd (webflash_prepare_upload P ctx p))" "still (snd (webflash_prepare_body P ctx act))"
    "still (snd (webflash_factory_reset P ctx))" "still (snd (flash_request P ctx))"
proof -
  show "still (snd (boot_ram P ctx))" "still (snd (reboot_request P ctx))" "still (snd (webflash_prepare_body P ctx act))"
    using assms by (simp_all add: boot_ram_def reboot_request_def webflash_prepare_body_def Let_def split: sum.splits)
  have "still (snd (webflash_range_valid P ctx sz))" for sz using assms by (simp add: webflash_range_valid_def Let_def split_def)
  then show "still (snd (webflash_prepare_upload P ctx p))"
    using assms by (simp add: webflash_prepare_upload_def Let_def split_def split: sum.splits)
  show "still (snd (webflash_factory_reset P ctx))"
    using assms by (simp add: webflash_factory_reset_def Let_def split_def still_overlay split: sum.splits)
  have "still (snd (webflash_start_uploaded_flash P c))" if "still c" for c
    using that by (simp add: webflash_start_uploaded_flash_def Let_def split_def still_start split: option.splits)
  then show "still (snd (flash_request P ctx))"
    using assms by (simp add: flash_request_def split: sum.splits)
qed

lemma still_upload: "still ctx \<Longrightarrow> still (snd (webflash_store_upload P ctx data))"
proof -
  have f: "still (snd (upload_finish P c))" if "still c" for c
  proof (cases "upload_part c")
    case None
    then show ?thesis using that by (simp add: upload_finish_def webflash_validate_upload_def)
  next
    case (Some p)
    obtain ret c1 where v: "webflash_validate_upload c = (ret, c1)" by fastforce
    then have "still c1" "upload_part c1 = Some p"
      using validate_upload_form [OF Some v] that Some by auto
    then show ?thesis by (simp add: upload_finish_def v)
  qed
  assume "still ctx"
  then show ?thesis by (simp add: webflash_store_upload_def upload_done_def Let_def split_def f)
qed

lemma still_body: "still ctx \<Longrightarrow> still (snd (webflash_store_body P ctx data))"
proof -
  have s: "still (snd (webflash_env_save P c))" if "still c" for c
    using that by (simp add: webflash_env_save_def env_commit_def split_def Let_def split: sum.splits)
  assume "still ctx"
  then show ?thesis
    by (simp add: webflash_store_body_def webflash_handle_body_def Let_def s split: webflash_action.splits)
qed

text \<open>Only the request for a backup starts one; it leaves the job and the schedule alone, and nothing more is read from its client.\<close>

lemma download_settled:
  assumes "still ctx"
  shows "settled (snd (webflash_start_download P ctx name))"
proof (cases "webflash_operation_blocked ctx \<or> still (snd (webflash_start_download P ctx name))")
  case True
  then show ?thesis using assms by (auto simp: settled_def webflash_start_download_def)
next
  case False
  have "rx_state (snd (download_range P ctx off sz f)) = WEBFLASH_RX_REPLIED \<or> still (snd (download_range P ctx off sz f))" for off sz f
    using assms still_abort [of P] by (simp add: download_range_def Let_def split_def fill_frame(3) split: option.splits)
  then have "rx_state (snd (webflash_start_download P ctx name)) = WEBFLASH_RX_REPLIED"
    using False assms by (auto simp: webflash_start_download_def split: if_splits option.splits)
  moreover have "\<not> committed (snd (webflash_start_download P ctx name))"
    using False committed_blocked keeps_io_committed [OF download_keeps] by blast
  ultimately show ?thesis by (simp add: settled_def)
qed

lemma headers_settled:
  assumes "settled ctx" "rx_state ctx = WEBFLASH_RX_HEADERS"
  shows "settled (snd (webflash_handle_headers P ctx))"
proof -
  have "still ctx" using assms by (simp add: settled_def)
  note s = still_pages [OF this] still_requests [OF this] still_reply [OF this] download_settled [OF this]
  have q: "still c \<Longrightarrow> settled c" for c :: "('a, 'b) webflash_ctx" by (simp add: settled_def)
  show ?thesis by (simp add: webflash_handle_headers_def s q split: option.splits)
qed

interpretation settle: callbacks_keep P settled for P
proof
  fix ctx :: "('a, 'b) webflash_ctx" assume s: "settled ctx"
  show "settled (snd (webflash_stream_fill P ctx))"
    using settled_io [OF fill_frame(1) [of ctx P] _ _ s] fill_stream [of P ctx] fill_frame(3) [of P ctx]
    by (auto simp: still_def)
  show "settled (webflash_error P ctx status message)" for status message
    using settled_io [OF keeps_imp_io [OF error_keeps [of ctx P status message]] _ _ s] error_rx(1) [of P ctx status message] by simp
  show "settled (webflash_abort_client P ctx)"
    using settled_io [OF keeps_imp_io [OF abort_keeps [of ctx P]] _ _ s] by (simp add: still_def)
  show "settled (snd (webflash_try_close_client P ctx))"
    using settled_io [OF keeps_imp_io [OF close_keeps [of ctx P]] _ _ s]
    by (auto simp: still_def webflash_try_close_client_def Let_def split: option.splits prod.splits)
  show "settled (snd (webflash_accept P ctx new err))" for new err
    using s by (auto simp: webflash_accept_def settled_def still_def committed_def webflash_job_active_def Let_def split: option.splits)
  show "settled (webflash_tcp_error ctx)" by (simp add: webflash_tcp_error_def settled_def still_def)
  show "settled (snd (webflash_handle_headers P ctx))" if "rx_state ctx = WEBFLASH_RX_HEADERS"
    by (rule headers_settled [OF s that])
  have st: "still ctx" if "rx_state ctx \<noteq> WEBFLASH_RX_REPLIED" using s that by (simp add: settled_def)
  show "settled (snd (webflash_store_upload P ctx data))" if "rx_state ctx = WEBFLASH_RX_UPLOAD" for data
    using still_upload [OF st] that by (simp add: settled_def)
  show "settled (snd (webflash_store_body P ctx data))" if "rx_state ctx = WEBFLASH_RX_BODY" for data
    using still_body [OF st] that by (simp add: settled_def)
qed simp_all

lemma step_settled:
  assumes "console_step P ctx ctx'" "settled ctx"
  shows "settled ctx'"
  using assms(1)
proof cases
  case job_step
  then have "still ctx" using assms(2) by (simp add: settled_def committed_def)
  then have "still (webflash_job_step P ctx)"
    by (auto simp: webflash_job_step_def job_erase_step_def job_write_step_def job_verify_step_def webflash_job_fail_def
        Let_def split_def split: webflash_job_phase.splits option.splits)
  then show ?thesis using job_step by (simp add: settled_def)
qed (use assms(2) in \<open>simp_all add: settle.event settle.abort\<close>)

lemma reachable_settled: "reachable P ctx0 ctx \<Longrightarrow> settled ctx0 \<Longrightarrow> settled ctx"
  by (induction rule: reachable.induct) (auto intro: step_settled)

lemma setup_settled:
  assumes "webflash_setup P S (ctx_zero c w m r) arg = (0, ctx)"
  shows "settled ctx" "\<not> webflash_job_active ctx"
proof -
  from setup_0 [OF assms] obtain a l c' w' io fb where
    "ctx = (ctx_zero c w m r)\<lparr>load_addr := a, listener := Some l, flash := c', world := w', io_buf := io, factory_buf := fb\<rparr>" .
  then show "settled ctx" "\<not> webflash_job_active ctx" by (simp_all add: ctx_zero_def settled_def still_def webflash_job_active_def)
qed

text \<open>The invariant of the console and this one make a committed context calm.\<close>

lemma committed_calm:
  assumes "webflash_setup P S (ctx_zero c w m r) arg = (0, ctx0)" "read_bounded P"
    and "\<And>io. io_mem S = Some io \<Longrightarrow> length io = 65536" "\<And>fb. factory_mem S = Some fb \<Longrightarrow> length fb = 65536"
    and "reachable P ctx0 ctx" "committed ctx"
  shows "calm ctx"
proof -
  have "console_inv P ctx" using setup_inv [OF assms(1,3,4)] reachable_inv [OF assms(5,2)] by blast
  moreover have "settled ctx" using reachable_settled [OF assms(5)] setup_settled(1) [OF assms(1)] by blast
  ultimately show ?thesis using assms(6)
    by (auto simp: console_inv_def session_ok_def settled_def still_def calm_def committed_def webflash_job_active_def)
qed

section \<open>A pending restart\<close>

text \<open>While a job runs or a restart is pending, requests do not change the plan.\<close>

lemma headers_plan:
  assumes "webflash_job_active ctx \<or> reboot_pending ctx"
  shows "same_plan ctx (snd (webflash_handle_headers P ctx))"
proof -
  have b: "webflash_operation_blocked ctx" using assms by (auto simp: webflash_operation_blocked_def)
  let ?c = "case webflash_header_value ctx ''X-Keep-Config'' 4 of Inl _ \<Rightarrow> ctx
    | Inr keep \<Rightarrow> ctx\<lparr>keep_config := (c0 keep = CHR ''1'')\<rparr>"
  have "same_plan ctx ?c" "webflash_operation_blocked ?c"
    using b by (simp_all add: webflash_operation_blocked_def webflash_job_active_def split: sum.splits)
  then have "same_plan ctx (snd (flash_request P ctx))"
    unfolding flash_request_def webflash_start_uploaded_flash_def by simp
  moreover have "same_plan ctx (snd (reboot_request P ctx))" using assms by (auto simp: reboot_request_def)
  ultimately show ?thesis using b
    by (simp add: webflash_handle_headers_def same_plan_io [OF pages_keep(1)] same_plan_io [OF pages_keep(2)]
        same_plan_io [OF pages_keep(3)] same_plan_io [OF pages_keep(4)] same_plan_io [OF pages_keep(5)] same_plan_io [OF download_keeps]
        webflash_prepare_upload_def boot_ram_def webflash_factory_reset_def webflash_prepare_body_def Let_def split: option.splits)
qed

interpretation plan: callbacks_keep P "\<lambda>c. same_plan c0 c \<and> reboot_pending c0" for P c0
proof
  fix ctx :: "('a, 'b) webflash_ctx" assume p: "same_plan c0 ctx \<and> reboot_pending c0"
  then have r: "reboot_pending ctx" by (simp add: same_plan_def)
  show "same_plan c0 (snd (webflash_handle_headers P ctx)) \<and> reboot_pending c0"
    using p headers_plan same_plan_trans r by blast
  show "same_plan c0 (snd (webflash_store_upload P ctx data)) \<and> reboot_pending c0" for data
    using p store_upload_plan same_plan_trans by blast
  show "same_plan c0 (snd (webflash_store_body P ctx data)) \<and> reboot_pending c0" for data
    using p store_body_plan same_plan_trans by blast
  show "same_plan c0 (snd (webflash_accept P ctx new err)) \<and> reboot_pending c0" for new err
    using p by (auto simp: webflash_accept_def same_plan_def Let_def split: option.splits)
  show "same_plan c0 (webflash_tcp_error ctx) \<and> reboot_pending c0"
    using p by (auto simp: webflash_tcp_error_def same_plan_def)
qed simp_all

text \<open>A turn with a restart pending and no job: the board is reset when the time has come, and otherwise nothing of the plan changes
  but a boot that was tried and came back.  After a job nothing touches the flash.\<close>

definition restarting :: "('c, 'w) webflash_ctx \<Rightarrow> ('c, 'w) webflash_ctx \<Rightarrow> bool" where
  "restarting a b \<longleftrightarrow>
     reboot_pending b \<and> \<not> webflash_job_active b \<and> job b = job a \<and> reboot_start b = reboot_start a \<and> (boot_pending b \<longrightarrow> boot_pending a) \<and>
     (phase (job a) = WEBFLASH_PHASE_DONE \<and> calm a \<longrightarrow> flash b = flash a \<and> calm b)"

lemma restarting_trans: "restarting a b \<Longrightarrow> restarting b c \<Longrightarrow> restarting a c"
  by (auto simp: restarting_def)

lemma turn_job_restarting:
  assumes "restarting ctx ctx"
  shows "restarting ctx (turn_job P ctx t)" "now (turn_job P ctx t) = t_now t"
proof -
  let ?n = "ctx\<lparr>now := t_now t\<rparr>"
  let ?c = "fold (\<lambda>e ctx. handle_event P ctx e) (t_events t) ?n"
  have r: "reboot_pending ?n" "\<not> webflash_job_active ctx" using assms by (simp_all add: restarting_def)
  have p: "same_plan ?n ?c" using plan.events [of ?n ?n P "t_events t"] r(1) by simp
  then have "\<not> webflash_job_active ?c" using same_plan_active [OF p] r(2) by (simp add: webflash_job_active_def)
  then have t: "turn_job P ctx t = ?c" by (simp add: turn_job_def)
  have "flash ?c = flash ctx \<and> calm ?c" if "phase (job ctx) = WEBFLASH_PHASE_DONE" "calm ctx"
  proof -
    have "committed ?n" "calm ?n" using that r by (simp_all add: committed_def calm_def)
    from events_serve [OF this, of P "t_events t"] this show ?thesis by (simp add: serves_def busy_frame_def)
  qed
  then show "restarting ctx (turn_job P ctx t)" "now (turn_job P ctx t) = t_now t"
    unfolding t using p r \<open>\<not> webflash_job_active ?c\<close> by (auto simp: restarting_def same_plan_def)
qed

lemma main_turn_restarting:
  assumes "restarting ctx ctx" "boot_pending ctx \<Longrightarrow> t_bootm_returns t"
  shows "\<exists>c. main_turn P ctx t =
      (if WEBFLASH_REBOOT_DELAY_MS \<le> t_now t - reboot_start ctx then Reset c else Running c) \<and> restarting ctx c"
proof -
  let ?c = "turn_job P ctx t"
  note r = turn_job_restarting [OF assms(1), of P t]
  let ?d = "(webflash_abort_client P ?c)\<lparr>boot_pending := False\<rparr>"
  have d: "restarting ctx ?d" "now ?d = t_now t"
    using r abort_keeps [of ?c P] abort_serves [of ?c P] by (auto simp: restarting_def keeps_def keeps_io_def serves_def calm_def webflash_job_active_def)
  have "reboot_start ?c = reboot_start ctx" "reboot_pending ?c" "reboot_start ?d = reboot_start ctx" "reboot_pending ?d"
    "boot_pending ?c \<Longrightarrow> boot_pending ctx"
    using r(1) d(1) by (simp_all add: restarting_def)
  then show ?thesis using r d assms(2) by (auto simp: main_turn_def turn_reboot_def get_timer_def Let_def)
qed

lemma main_loop_waits:
  assumes "restarting ctx ctx" "\<forall>u\<in>set us. t_now u - reboot_start ctx < WEBFLASH_REBOOT_DELAY_MS"
    and "boot_pending ctx \<longrightarrow> (\<forall>u\<in>set us. t_bootm_returns u)"
  shows "\<exists>c. main_loop P ctx (us @ ts) = main_loop P c ts \<and> main_loop P ctx us = Running c \<and> restarting ctx c"
  using assms
proof (induction us arbitrary: ctx)
  case (Cons u us)
  obtain c where c: "main_turn P ctx u = Running c" "restarting ctx c"
    using main_turn_restarting [OF Cons.prems(1), of u P] Cons.prems(2,3) by (auto simp: not_le [symmetric])
  then have "restarting c c" "reboot_start c = reboot_start ctx" "boot_pending c \<longrightarrow> boot_pending ctx"
    by (auto simp: restarting_def)
  with Cons.IH [of c] Cons.prems(2,3) obtain d where
    "main_loop P c (us @ ts) = main_loop P d ts" "main_loop P c us = Running d" "restarting c d" by auto
  with c restarting_trans show ?case by auto
qed simp

lemma main_loop_restarts:
  assumes "restarting ctx ctx" "\<forall>u\<in>set us. t_now u - reboot_start ctx < WEBFLASH_REBOOT_DELAY_MS"
    and "WEBFLASH_REBOOT_DELAY_MS \<le> t_now t - reboot_start ctx" "boot_pending ctx \<longrightarrow> (\<forall>u\<in>set (us @ [t]). t_bootm_returns u)"
  shows "\<exists>c d. main_loop P ctx us = Running c \<and> restarting ctx c \<and> main_loop P ctx (us @ t # ts) = Reset d \<and> restarting ctx d"
proof -
  obtain c where c: "main_loop P ctx (us @ t # ts) = main_loop P c (t # ts)" "main_loop P ctx us = Running c" "restarting ctx c"
    using main_loop_waits [OF assms(1,2), of P "t # ts"] assms(4) by auto
  then have "restarting c c" "reboot_start c = reboot_start ctx" "boot_pending c \<longrightarrow> boot_pending ctx"
    by (auto simp: restarting_def)
  with main_turn_restarting [of c t P] assms(3,4) obtain d where "main_turn P c t = Reset d" "restarting c d" by auto
  with c restarting_trans show ?thesis by (intro exI [of _ c] exI [of _ d]) auto
qed

end
