(* ===== verification/SampleReset.thy ===== *)
theory SampleReset
  imports Sample Overlay Schedule
begin

text \<open>
  Runs of the sample board from its start: a client connects and asks, in one packet, for a
  factory reset, which begins a job, or for a reboot.
\<close>

section \<open>The first packet\<close>

text \<open>Headers that come in one piece and are complete with their last byte are handled once.\<close>

lemma consume_headers:
  assumes "rx_state ctx = WEBFLASH_RX_HEADERS" "bs \<noteq> []" "length (header ctx) + length bs < WEBFLASH_HEADER_SIZE"
    and "\<forall>n. 0 < n \<and> n < length bs \<longrightarrow> \<not> header_complete (header ctx @ map char_of_byte (take n bs))"
    and "header_complete (header ctx @ map char_of_byte bs)"
  shows "snd (webflash_consume P ctx bs) = snd (webflash_handle_headers P (ctx\<lparr>header := header ctx @ map char_of_byte bs\<rparr>))"
  using assms
proof (induction bs arbitrary: ctx)
  case (Cons b bs)
  let ?c = "ctx\<lparr>header := header ctx @ [char_of_byte b]\<rparr>"
  show ?case
  proof (cases "bs = []")
    case True
    then show ?thesis using Cons.prems by (simp add: Let_def)
  next
    case False
    have "\<not> header_complete (header ctx @ [char_of_byte b])" using Cons.prems(4) False by (auto dest: spec [of _ 1])
    then have "webflash_consume P ctx (b # bs) = webflash_consume P ?c bs" using Cons.prems(1,3) by (simp add: Let_def)
    moreover have "\<forall>n. 0 < n \<and> n < length bs \<longrightarrow> \<not> header_complete (header ?c @ map char_of_byte (take n bs))"
    proof (intro allI impI)
      fix n assume "0 < n \<and> n < length bs"
      with Cons.prems(4) [rule_format, of "Suc n"] show "\<not> header_complete (header ?c @ map char_of_byte (take n bs))" by simp
    qed
    ultimately show ?thesis using Cons.IH [of ?c] Cons.prems False by simp
  qed
qed simp

text \<open>A board with a root file system of 0x201000 bytes, and its first two events: a client, and a request.\<close>

definition lab_rootfs :: spi_nor where
  "lab_rootfs = lab_nor\<lparr>array := rootfs_with [0, 0x10, 0x20, 0, 0, 0, 0, 0]\<rparr>"

definition lab_booted :: "(spi_nor, unit) webflash_ctx" where
  "lab_booted = lab_start\<lparr>flash := lab_rootfs\<rparr>"

definition lab_asked :: "string \<Rightarrow> (spi_nor, unit) webflash_ctx" where
  "lab_asked request = handle_event (lab 0) (handle_event (lab 0) lab_booted (Ev_accept (Some 7) ERR_OK))
     (Ev_recv 7 (Some [bytes_of request]) ERR_OK)"

lemma lab_booted_setup:
  "webflash_setup (lab room) (lab_startup\<lparr>probe_dev := Some lab_rootfs\<rparr>) (ctx_zero lab_nor () lab_lmb (\<lambda>a. 0)) None = (0, lab_booted)"
proof -
  have "webflash_apply_default_network (lab room) () = (0, ())"
    by (simp add: webflash_apply_default_network_def apply_default_def lab_def)
  moreover have "sf_sector_size (lab room) lab_rootfs = sf_sector_size (lab room) lab_nor" "sf_size (lab room) lab_rootfs = sf_size (lab room) lab_nor"
    by (simp_all add: lab_rootfs_def lab_def)
  ultimately show ?thesis
    by (simp add: webflash_setup_def webflash_init_flash_def webflash_start_listener_def lab_startup_def lab_booted_def lab_start_def
        env_get_hex_def lab_layout ctx_zero_def Let_def) (simp add: lab_def)
qed

lemma lab_asked_reachable: "reachable (lab 0) lab_booted (lab_asked request)"
  unfolding lab_asked_def by (rule step [OF step [OF start event] event])

definition one_request :: "string \<Rightarrow> bool" where
  "one_request request \<longleftrightarrow> length request < WEBFLASH_HEADER_SIZE \<and> request \<noteq> [] \<and> header_complete request \<and>
     list_all (\<lambda>n. \<not> header_complete (take n request)) [1..<length request]"

lemma lab_asked:
  assumes "one_request request"
  obtains b where "lab_asked request = snd (webflash_handle_headers (lab 0) b)" "header b = request" "flash b = lab_rootfs"
    "length (io_buf b) = 65536" "\<not> webflash_operation_blocked b" "job b = job_zero" "now b = 0"
proof -
  let ?a = "handle_event (lab 0) lab_booted (Ev_accept (Some 7) ERR_OK)"
  let ?b = "?a\<lparr>last_activity := get_timer ?a 0, world := tcp_recved (lab 0) (world ?a) 7 (length (bytes_of request))\<rparr>"
  have b: "rx_state ?b = WEBFLASH_RX_HEADERS" "header ?b = []" "client ?b = Some 7" "flash ?b = lab_rootfs" "length (io_buf ?b) = 65536"
    "\<not> webflash_operation_blocked (?b\<lparr>header := request\<rparr>)" "job ?b = job_zero" "now ?b = 0"
    by (simp_all add: webflash_accept_def lab_booted_def lab_start_def ctx_zero_def Let_def webflash_operation_blocked_def webflash_job_active_def)
  have r: "\<forall>n. 0 < n \<and> n < length (bytes_of request) \<longrightarrow> \<not> header_complete (map char_of_byte (take n (bytes_of request)))"
    "map char_of_byte (bytes_of request) = request" "length (bytes_of request) = length request" "bytes_of request \<noteq> []"
    using assms by (auto simp: one_request_def list_all_iff take_map [symmetric] bytes_of_def o_def)
  have "lab_asked request = snd (webflash_consume (lab 0) ?b (bytes_of request))"
    using b(3) by (simp add: lab_asked_def webflash_recv_def Let_def)
  also have "\<dots> = snd (webflash_handle_headers (lab 0) (?b\<lparr>header := request\<rparr>))"
    using consume_headers [of ?b "bytes_of request" "lab 0"] b(1,2) r assms by (simp add: one_request_def)
  finally show thesis using that [of "?b\<lparr>header := request\<rparr>"] b(4-8) by simp
qed

section \<open>A factory reset\<close>

definition lab_reset_request :: string where
  "lab_reset_request = ''POST /api/factory-reset HTTP/1.0'' @ CRLF @ ''X-Safeboot-Confirm: ERASE-SETTINGS'' @ CRLF @ CRLF"

lemma lab_reset_path: "webflash_path_is lab_reset_request (length lab_reset_request) ''POST'' ''/api/factory-reset''"
  "list_all (\<lambda>(m, p). \<not> webflash_path_is lab_reset_request (length lab_reset_request) m p)
      ([(''GET'', ''/''), (''GET'', ''/index.html''), (''GET'', ''/api/info''), (''GET'', ''/api/eeprom''),
        (''GET'', ''/api/job''), (''GET'', ''/api/env''), (''GET'', ''/api/backup/uboot''),
        (''GET'', ''/api/backup/environment''), (''GET'', ''/api/backup/factory''), (''GET'', ''/api/backup/firmware''),
        (''GET'', ''/api/backup/fullflash''), (''POST'', ''/api/upload/firmware''), (''POST'', ''/api/upload/uboot''),
        (''POST'', ''/api/upload/environment''), (''POST'', ''/api/upload/factory''), (''POST'', ''/api/upload/eeprom''),
        (''POST'', ''/api/upload/ram''), (''POST'', ''/api/boot-ram''), (''POST'', ''/api/flash'')])"
  "one_request lab_reset_request"
  unfolding lab_reset_request_def by code_simp+

lemma lab_resetting_active: "webflash_job_active (lab_asked lab_reset_request)"
proof -
  obtain c where c: "lab_asked lab_reset_request = snd (webflash_handle_headers (lab 0) c)" "header c = lab_reset_request"
    "flash c = lab_rootfs" "length (io_buf c) = 65536" "\<not> webflash_operation_blocked c" by (rule lab_asked [OF lab_reset_path(3)])
  have "webflash_handle_headers (lab 0) c = webflash_factory_reset (lab 0) c"
    using lab_reset_path(1,2) c(2) by (simp add: webflash_handle_headers_def backup_target_def upload_target_def)
  then have r: "lab_asked lab_reset_request = snd (webflash_factory_reset (lab 0) c)" using c(1) by simp
  have h: "webflash_header_value c ''X-Safeboot-Confirm'' 40 = Inr ''ERASE-SETTINGS''"
    unfolding webflash_header_value_def c(2) lab_reset_request_def by code_simp
  have k: "webflash_check_confirmation (lab 0) c ''ERASE-SETTINGS'' = (0, c)"
    by (simp only: webflash_check_confirmation_def h Let_def) (simp add: strcmp_0_iff)
  have o: "overlay_at 65536 (rootfs_with [0, 0x10, 0x20, 0, 0, 0, 0, 0]) 0x2000000 0x50000 = Some 0x260000" unfolding rootfs_at by code_simp
  have "spi_ok lab_rootfs" "0x2000000 \<le> mtd_size lab_rootfs" "erasesize lab_rootfs = 65536"
    "array lab_rootfs = rootfs_with [0, 0x10, 0x20, 0, 0, 0, 0, 0]"
    using lab_nor_quiet(2) by (simp_all add: lab_rootfs_def spi_ok_def spi_mid_def spi_geometry_def)
  with o find_overlay_search [of c "lab 0"] c(3,4) have "fst (webflash_find_overlay (lab 0) c) = Inr 0x260000"
    by (simp add: rootfs_offsets_Cons del: upt_rec_numeral)
  then obtain d where d: "webflash_find_overlay (lab 0) c = (Inr 0x260000, d)" by (cases "webflash_find_overlay (lab 0) c") simp
  have act: "webflash_job_active (snd (webflash_reply P (set_reply e s) st ct (Reply_buf 0)))" if "phase (job e) = WEBFLASH_PHASE_ERASING"
    for P :: "(spi_nor, unit) platform" and e s st ct
    using same_plan_active [OF same_plan_reply(4) [OF same_plan_refl [of e]]] that by (simp add: webflash_job_active_def)
  show ?thesis unfolding r webflash_factory_reset_def using c(5) k d act by (simp add: Let_def)
qed

section \<open>A reboot\<close>

definition lab_reboot_request :: string where
  "lab_reboot_request = ''POST /api/reboot HTTP/1.0'' @ CRLF @ CRLF"

lemma lab_reboot_path: "webflash_path_is lab_reboot_request (length lab_reboot_request) ''POST'' ''/api/reboot''"
  "list_all (\<lambda>(m, p). \<not> webflash_path_is lab_reboot_request (length lab_reboot_request) m p)
      ([(''GET'', ''/''), (''GET'', ''/index.html''), (''GET'', ''/api/info''), (''GET'', ''/api/eeprom''),
        (''GET'', ''/api/job''), (''GET'', ''/api/env''), (''GET'', ''/api/backup/uboot''),
        (''GET'', ''/api/backup/environment''), (''GET'', ''/api/backup/factory''), (''GET'', ''/api/backup/firmware''),
        (''GET'', ''/api/backup/fullflash''), (''POST'', ''/api/upload/firmware''), (''POST'', ''/api/upload/uboot''),
        (''POST'', ''/api/upload/environment''), (''POST'', ''/api/upload/factory''), (''POST'', ''/api/upload/eeprom''),
        (''POST'', ''/api/upload/ram''), (''POST'', ''/api/boot-ram''), (''POST'', ''/api/flash''), (''POST'', ''/api/factory-reset''),
        (''POST'', ''/api/env''), (''POST'', ''/api/env/reset'')])"
  "one_request lab_reboot_request"
  unfolding lab_reboot_request_def by code_simp+

lemma lab_rebooting:
  "reboot_pending (lab_asked lab_reboot_request)" "reboot_start (lab_asked lab_reboot_request) = 0"
  "\<not> boot_pending (lab_asked lab_reboot_request)"
proof -
  obtain c where c: "lab_asked lab_reboot_request = snd (webflash_handle_headers (lab 0) c)" "header c = lab_reboot_request"
    "\<not> webflash_operation_blocked c" "job c = job_zero" "now c = 0" by (rule lab_asked [OF lab_reboot_path(3)])
  have "webflash_handle_headers (lab 0) c = reboot_request (lab 0) c"
    using lab_reboot_path(1,2) c(2) by (simp add: webflash_handle_headers_def backup_target_def upload_target_def)
  also have "\<dots> = webflash_ok (lab 0) (webflash_schedule_reboot c) ''device will reboot shortly''"
    using c(3,4) by (simp add: reboot_request_def webflash_operation_blocked_def)
  finally have "same_plan (webflash_schedule_reboot c) (lab_asked lab_reboot_request)" using c(1) by simp
  then show "reboot_pending (lab_asked lab_reboot_request)" "reboot_start (lab_asked lab_reboot_request) = 0"
    "\<not> boot_pending (lab_asked lab_reboot_request)"
    using c(3,5) by (simp_all add: same_plan_def webflash_schedule_reboot_def get_timer_def webflash_operation_blocked_def)
qed

end
