(* ===== verification/JobFacts.thy ===== *)
theory JobFacts
  imports WebflashJob
begin

text \<open>
  Figures of a job: the progress it reports, and the chunks it works in.
\<close>

section \<open>Progress\<close>

lemma unat_scaled:
  assumes "unat k \<le> 100"
  shows "unat (scaled x k tot) = unat x * unat k div unat tot"
proof (cases "tot = 0")
  case False
  have "unat x * unat k < 2 ^ 64"
    using mult_mono [of "unat x" "2 ^ 32" "unat k" 100] u32_unat_lt [of x] assms by simp
  then have "unat (ucast x * k) = unat x * unat k"
    by (simp add: unat_word_ariths ucast_u32_u64)
  with False show ?thesis by (simp add: scaled_def unat_div ucast_u32_u64)
qed (simp add: scaled_def)

lemma scaled_le:
  assumes "unat k \<le> 100" "unat x \<le> unat tot"
  shows "unat (scaled x k tot) \<le> unat k"
proof -
  have "unat x * unat k \<le> unat k * unat tot" using assms(2) by (simp add: mult.commute)
  then have "unat x * unat k div unat tot \<le> unat k * unat tot div unat tot" by (rule div_le_mono)
  also have "\<dots> \<le> unat k" by (cases "unat tot = 0") simp_all
  finally have "unat x * unat k div unat tot \<le> unat k" .
  with unat_scaled [OF assms(1)] show ?thesis by simp
qed

lemma ucast_small: "unat (x :: u64) < 2 ^ 32 \<Longrightarrow> unat (ucast x :: u32) = unat x"
  by (simp add: unsigned_ucast_eq unsigned_take_bit_eq take_bit_nat_eq_self)

lemma offset_scaled:
  assumes "unat k \<le> 100" "unat b \<le> 100" "unat x \<le> unat tot"
  shows "unat (ucast (b + scaled x k tot) :: u32) = unat b + unat x * unat k div unat tot"
    and "unat b + unat x * unat k div unat tot \<le> unat b + unat k"
proof -
  note s = scaled_le [OF assms(1,3)] unat_scaled [OF assms(1), of x tot]
  have "unat (b + scaled x k tot) = unat b + unat (scaled x k tot)"
    using s assms by (intro unat_add_lem [THEN iffD1]) simp
  with s assms show "unat (ucast (b + scaled x k tot) :: u32) = unat b + unat x * unat k div unat tot"
    "unat b + unat x * unat k div unat tot \<le> unat b + unat k"
    by (simp_all add: ucast_small)
qed

text \<open>The progress figure of a job that has not gone past its end is a percentage, and each phase of a flash
  job has its own part of the scale: erasing 0 to 35, writing 35 to 75, verifying 75 to 100.\<close>

theorem job_progress_bounds:
  assumes "processed j \<le> (if phase j = WEBFLASH_PHASE_ERASING then erase_size j else write_size j)"
    and "mode j = WEBFLASH_JOB_ERASE_SETTINGS \<Longrightarrow> phase j \<notin> {WEBFLASH_PHASE_WRITING, WEBFLASH_PHASE_VERIFYING}"
  shows "unat (webflash_job_progress j) \<le> 100 \<and>
    (mode j = WEBFLASH_JOB_FLASH \<longrightarrow>
      (phase j = WEBFLASH_PHASE_ERASING \<longrightarrow> unat (webflash_job_progress j) \<le> 35) \<and>
      (phase j = WEBFLASH_PHASE_WRITING \<longrightarrow> unat (webflash_job_progress j) \<in> {35..75}) \<and>
      (phase j = WEBFLASH_PHASE_VERIFYING \<longrightarrow> unat (webflash_job_progress j) \<in> {75..100}) \<and>
      (phase j = WEBFLASH_PHASE_DONE \<longrightarrow> unat (webflash_job_progress j) = 100))"
proof -
  have z: "scaled x k tot = 0 + scaled x k tot" for x k tot by simp
  note e = offset_scaled [where b = 0, simplified, of _ "processed j" "erase_size j"]
  note w = offset_scaled [where x = "processed j" and tot = "write_size j"]
  show ?thesis
    using assms e(1) [of 100] e(2) [of 100] e(1) [of 35] e(2) [of 35] w(1) [of 40 35] w(2) [of 40 35] w(1) [of 25 75] w(2) [of 25 75]
    by (cases "phase j") (auto simp: webflash_job_progress_def u32_le_iff split: if_splits)
qed

theorem job_progress_bounds_witness:
  "unat (webflash_job_progress (job_zero\<lparr>mode := WEBFLASH_JOB_FLASH, phase := WEBFLASH_PHASE_WRITING, write_size := 0x1fb0000,
     processed := 0x1000000\<rparr>)) \<in> {35..75}"
  using job_progress_bounds [of "job_zero\<lparr>mode := WEBFLASH_JOB_FLASH, phase := WEBFLASH_PHASE_WRITING, write_size := 0x1fb0000,
     processed := 0x1000000\<rparr>"] by (simp add: job_zero_def)

section \<open>Chunks\<close>

text \<open>C29: A chunk makes progress and never goes past the end; a chunk to erase is whole sectors whenever the rest
  is, for every sector size, and a chunk to copy fits the I/O buffer.\<close>

theorem job_chunk_bounds:
  assumes "remaining \<noteq> 0" "sector \<noteq> 0"
  shows "0 < unat (webflash_job_chunk sector remaining erase) \<and>
    unat (webflash_job_chunk sector remaining erase) \<le> unat remaining \<and>
    (\<not> erase \<longrightarrow> unat (webflash_job_chunk sector remaining erase) \<le> unat WEBFLASH_IO_SIZE) \<and>
    (erase \<and> unat sector dvd unat remaining \<longrightarrow>
       unat sector dvd unat (webflash_job_chunk sector remaining erase) \<and>
       unat (webflash_job_chunk sector remaining erase) \<le> max (unat sector) (unat WEBFLASH_IO_SIZE))"
proof -
  have pos: "0 < unat remaining" "0 < unat sector" using assms by (simp_all add: unat_gt_0)
  have rd: "unat (rounddown x sector) = unat x - unat x mod unat sector" for x
    unfolding rounddown_def by (subst unat_sub_no_wrap) (simp_all add: u32_le_iff unat_mod)
  have dv: "unat sector dvd unat (rounddown x sector)" for x
    unfolding rd by (simp add: minus_mod_eq_mult_div)
  have le: "unat sector \<le> unat remaining" if "unat sector dvd unat remaining"
    using that pos by (simp add: dvd_imp_le)
  show ?thesis
  proof (cases erase)
    case False
    then show ?thesis using pos by (simp add: webflash_job_chunk_def unat_min)
  next
    case True
    define c where "c = rounddown (min remaining WEBFLASH_IO_SIZE) sector"
    have c: "unat c \<le> min (unat remaining) 65536" "unat sector dvd unat c"
      using dv diff_le_self [of "min (unat remaining) 65536" "min (unat remaining) 65536 mod unat sector"]
      by (simp_all add: c_def rd unat_min del: diff_le_self)
    have "webflash_job_chunk sector remaining erase =
      (if WEBFLASH_IO_SIZE < sector \<or> c = 0 then min remaining sector else c)"
      using True by (simp add: webflash_job_chunk_def c_def Let_def)
    then consider "webflash_job_chunk sector remaining erase = min remaining sector" |
      "webflash_job_chunk sector remaining erase = c" "c \<noteq> 0" by (auto split: if_splits)
    then show ?thesis
    proof cases
      case 1
      show ?thesis unfolding 1 unat_min using pos le True by (auto simp: min_def)
    next
      case 2
      show ?thesis unfolding 2(1) using c True 2(2) by (auto simp: unat_gt_0)
    qed
  qed
qed

theorem job_chunk_bounds_witness: "0 < unat (webflash_job_chunk 4096 200704 True) \<and> (4096 :: nat) dvd unat (webflash_job_chunk 4096 200704 True)"
  using job_chunk_bounds [of 200704 4096 True] by simp

end
