(* ===== verification/Layout.thy ===== *)
theory Layout
  imports WebflashServer
begin

text \<open>
  The partition table: it tiles the flash, every name finds its own entry, and the layout
  check of the start accepts it for every sector size that divides 64 KiB.
\<close>

definition extent :: "webflash_partition \<Rightarrow> nat list" where
  "extent p = [unat (p_offset p)..<unat (p_offset p) + unat (p_size p)]"

text \<open>C31: The partition table is well formed.  The partitions, in their order, are the whole 32 MiB flash without
  gap or overlap, each starts and ends on a 64 KiB border, each is found by its name, the
  EEPROM window lies inside the factory partition, and the layout check accepts them for every
  sector size that divides 64 KiB.\<close>

theorem partition_table_tiles:
  "concat (map extent webflash_partitions) = [0..<0x2000000] \<and>
   (\<forall>p\<in>set webflash_partitions. 65536 dvd unat (p_offset p) \<and> 65536 dvd unat (p_size p) \<and>
      webflash_partition_find (p_name p) = Some p) \<and>
   (\<exists>p. webflash_partition_find ''factory'' = Some p \<and> set (extent webflash_eeprom_partition) \<subseteq> set (extent p)) \<and>
   (\<forall>sector. unat sector dvd 65536 \<longrightarrow> layout_ok sector)"
proof (intro conjI)
  have u: "[0..<0x2000000] = [0..<0x30000] @ [0x30000..<0x40000] @ [0x40000..<0x50000] @ [0x50000..<0x2000000 :: nat]"
    using upt_add_eq_append [of 0 "0x30000" "0x1fd0000"] upt_add_eq_append [of "0x30000" "0x40000" "0x1fc0000"]
      upt_add_eq_append [of "0x40000" "0x50000" "0x1fb0000"] by (simp del: upt_rec_numeral)
  show "concat (map extent webflash_partitions) = [0..<0x2000000]"
    unfolding u by (simp add: webflash_partitions_def extent_def del: upt_rec_numeral)
  show "\<forall>p\<in>set webflash_partitions. 65536 dvd unat (p_offset p) \<and> 65536 dvd unat (p_size p) \<and>
      webflash_partition_find (p_name p) = Some p"
    by (simp add: webflash_partitions_def webflash_partition_find_def strcmp_0_iff)
  show "\<exists>p. webflash_partition_find ''factory'' = Some p \<and> set (extent webflash_eeprom_partition) \<subseteq> set (extent p)"
    by (simp add: webflash_partition_find_def webflash_partitions_def strcmp_0_iff webflash_eeprom_partition_def extent_def
        del: upt_rec_numeral)
  show "\<forall>sector. unat sector dvd 65536 \<longrightarrow> layout_ok sector"
  proof (intro allI impI)
    fix sector :: u32 assume s: "unat sector dvd 65536"
    have m: "x mod sector = 0" if "unat x = k * 65536" for x :: u32 and k
      using dvd_mult [OF s, of k] that by (simp add: word_unat_eq_iff unat_mod dvd_imp_mod_0)
    show "layout_ok sector"
      using m [of 0 0] m [of "0x30000" 3] m [of "0x10000" 1] m [of "0x40000" 4] m [of "0x50000" 5] m [of "0x1fb0000" "0x1fb"]
      by (simp add: layout_ok_def)
  qed
qed

theorem partition_table_tiles_witness: "layout_ok 4096 \<and> concat (map extent webflash_partitions) = [0..<0x2000000]"
proof -
  have "unat (4096 :: u32) dvd 65536" by simp
  with partition_table_tiles show ?thesis by blast
qed

end
