(* ===== verification/LmbSet.thy ===== *)
theory LmbSet
  imports Lmb
begin

text \<open>
  The lists of lib/lmb.c as sets.  A sorted list of disjoint regions stands for the addresses
  each kind of reservation covers; adding a region is then the union with its addresses, for
  all the ways the code merges, extends and inserts.  The proof needs that no two neighbours
  with the same flags touch.  Without it a reservation can be lost, as the last section shows
  on a run of the code.
\<close>

section \<open>Regions as intervals\<close>

definition lo :: "lmb_region \<Rightarrow> nat" where "lo r = unat (rbase r)"
definition hi :: "lmb_region \<Rightarrow> nat" where "hi r = unat (rbase r) + unat (rsize r)"

definition region_ok :: "lmb_region \<Rightarrow> bool" where
  "region_ok r \<longleftrightarrow> rsize r \<noteq> 0 \<and> hi r < 2 ^ 32"

definition regions_ok :: "lmb_region list \<Rightarrow> bool" where
  "regions_ok rs \<longleftrightarrow> list_all region_ok rs \<and> sorted_wrt (\<lambda>a b. hi a \<le> lo b) rs"

text \<open>The addresses reserved with given flags.\<close>

definition cover :: "lmb_region list \<Rightarrow> u32 \<Rightarrow> nat set" where
  "cover rs f = (\<Union>r\<in>{r \<in> set rs. rflags r = f}. {lo r..<hi r})"

text \<open>No two neighbours that could be one region.\<close>

fun no_touch :: "lmb_region list \<Rightarrow> bool" where
  "no_touch (a # b # rs) \<longleftrightarrow> \<not> (rflags a = rflags b \<and> hi a = lo b) \<and> no_touch (b # rs)"
| "no_touch _ \<longleftrightarrow> True"

lemma lo_less_hi: "region_ok r \<Longrightarrow> lo r < hi r"
  by (simp add: region_ok_def lo_def hi_def unat_gt_0)

lemma cover_simps [simp]:
  "cover [] f = {}"
  "cover (r # rs) f = (if rflags r = f then {lo r..<hi r} else {}) \<union> cover rs f"
  "cover (rs @ rs') f = cover rs f \<union> cover rs' f"
  by (auto simp: cover_def)

lemma region_end:
  assumes "region_ok r"
  shows "unat (rbase r + rsize r) = hi r" and "unat (rbase r + rsize r - 1) = hi r - 1"
proof -
  show e: "unat (rbase r + rsize r) = hi r"
    using assms by (simp add: region_ok_def hi_def unat_add_no_wrap)
  have "1 \<le> rbase r + rsize r" using e lo_less_hi [OF assms] by (simp add: u32_le_iff)
  from unat_sub_no_wrap [OF this] e show "unat (rbase r + rsize r - 1) = hi r - 1" by simp
qed

lemma overlap_iff:
  assumes "region_ok a" "region_ok b"
  shows "lmb_addrs_overlap (rbase a) (rsize a) (rbase b) (rsize b) \<longleftrightarrow> lo a < hi b \<and> lo b < hi a"
  using region_end(2) [OF assms(1)] region_end(2) [OF assms(2)] lo_less_hi [OF assms(1)] lo_less_hi [OF assms(2)]
  by (auto simp: lmb_addrs_overlap_def u32_le_iff lo_def Let_def)

lemma adjacent_iff:
  assumes "region_ok a" "region_ok b"
  shows "0 < lmb_addrs_adjacent (rbase a) (rsize a) (rbase b) (rsize b) \<longleftrightarrow> hi a = lo b"
    and "lmb_addrs_adjacent (rbase a) (rsize a) (rbase b) (rsize b) < 0 \<longleftrightarrow> hi a \<noteq> lo b \<and> hi b = lo a"
  using region_end(1) [OF assms(1)] region_end(1) [OF assms(2)]
  by (auto simp: lmb_addrs_adjacent_def word_unat_eq_iff lo_def)

lemma regions_ok_append:
  "regions_ok (xs @ ys) \<longleftrightarrow> regions_ok xs \<and> regions_ok ys \<and> (\<forall>x\<in>set xs. \<forall>y\<in>set ys. hi x \<le> lo y)"
  by (auto simp: regions_ok_def sorted_wrt_append)

lemma regions_ok_Cons:
  "regions_ok (x # ys) \<longleftrightarrow> region_ok x \<and> regions_ok ys \<and> (\<forall>y\<in>set ys. hi x \<le> lo y)"
  by (auto simp: regions_ok_def)

lemma regions_ok_Nil [simp]: "regions_ok []"
  by (simp add: regions_ok_def)

lemmas regions_ok_simps = regions_ok_append regions_ok_Cons

lemma regions_okD: "regions_ok rs \<Longrightarrow> r \<in> set rs \<Longrightarrow> region_ok r"
  by (simp add: regions_ok_def list_all_iff)

section \<open>Merging\<close>

lemma remove_region [simp]: "lmb_remove_region (pre @ m # q # rest) (Suc (length pre)) = pre @ m # rest"
  by (simp add: lmb_remove_region_def)

lemma remove_regions:
  "((\<lambda>rgn. lmb_remove_region rgn (Suc (length pre))) ^^ length ov) (pre @ m # ov @ rest) = pre @ m # rest"
proof (induction ov)
  case (Cons q ov)
  then show ?case by (simp add: funpow_Suc_right del: funpow.simps)
qed simp

lemma resize_count_none:
  "\<forall>r\<in>set rest. \<not> lmb_addrs_overlap base sz (rbase r) (rsize r) \<Longrightarrow>
     resize_count base sz rest idx n e = Some (n, e)"
  by (induction rest arbitrary: idx) auto

lemma resize_count_prefix:
  "\<forall>r\<in>set ov. lmb_addrs_overlap base sz (rbase r) (rsize r) \<and> rflags r = LMB_NONE \<Longrightarrow>
   \<forall>r\<in>set rest. \<not> lmb_addrs_overlap base sz (rbase r) (rsize r) \<Longrightarrow>
     resize_count base sz (ov @ rest) idx n e = Some (n + length ov, if ov = [] then e else idx + length ov - 1)"
  by (induction ov arbitrary: idx n e) (auto simp: resize_count_none)

text \<open>
  The regions a request \<open>q\<close> overlaps, from the first one \<open>r\<close> on, are merged with it.  The
  request is new, or \<open>r\<close> itself after it has grown over its successors.
\<close>

lemma dropWhile_above: "regions_ok post \<Longrightarrow> \<forall>p\<in>set (dropWhile (\<lambda>p. lo p < k) post). k \<le> lo p"
proof (induction post)
  case (Cons p post)
  from Cons.prems have ok: "region_ok p" "regions_ok post" "\<forall>y\<in>set post. hi p \<le> lo y"
    unfolding regions_ok_Cons by blast+
  note IH = Cons.IH [OF ok(2)]
  have "k \<le> lo y" if "k \<le> lo p" "y \<in> set post" for y
  proof -
    have "hi p \<le> lo y" using ok(3) that(2) by blast
    then show ?thesis using that(1) lo_less_hi [OF ok(1)] by linarith
  qed
  then show ?case using IH by (cases "lo p < k") (simp_all add: not_less)
qed simp

lemma resize_ok:
  assumes ok: "region_ok q" "region_ok r" "regions_ok post"
    and r: "lo q < hi r" "lo r < hi q" "rflags r = LMB_NONE"
    and above: "\<forall>p\<in>set post. lo q < hi p" "\<forall>p\<in>set post. lo r \<le> lo p"
      "hi r \<le> hi q \<or> (\<forall>p\<in>set post. hi r \<le> lo p)"
    and none: "\<forall>p\<in>set post. lo p < hi q \<longrightarrow> rflags p = LMB_NONE"
  obtains m rest where
    "lmb_resize_regions (pre @ r # post) (length pre) (rbase q) (rsize q) = Some (pre @ m # rest)"
    "rflags m = LMB_NONE" "lo m = min (lo q) (lo r)" "regions_ok (m # rest)"
    "\<And>f. cover (m # rest) f = cover (r # post) f \<union> (if f = LMB_NONE then {lo q..<hi q} else {})"
proof -
  define ov where "ov = takeWhile (\<lambda>p. lo p < hi q) post"
  define rest where "rest = dropWhile (\<lambda>p. lo p < hi q) post"
  define l where "l = last (r # ov)"
  have post: "post = ov @ rest" by (simp add: ov_def rest_def)
  have ov: "\<forall>p\<in>set ov. lo p < hi q" by (auto simp: ov_def dest: set_takeWhileD)
  have rest: "\<forall>p\<in>set rest. hi q \<le> lo p" unfolding rest_def by (rule dropWhile_above [OF ok(3)])
  have okp: "\<forall>p\<in>set (r # post). region_ok p" using ok by (auto dest: regions_okD)
  have hit: "\<forall>p\<in>set (r # ov). lmb_addrs_overlap (rbase q) (rsize q) (rbase p) (rsize p) \<and> rflags p = LMB_NONE"
    using ov above(1) r none okp by (auto simp: overlap_iff [OF ok(1)] post)
  have miss: "\<forall>p\<in>set rest. \<not> lmb_addrs_overlap (rbase q) (rsize q) (rbase p) (rsize p)"
    using rest okp by (fastforce simp: overlap_iff [OF ok(1)] post)
  have cnt: "resize_count (rbase q) (rsize q) (drop (length pre) (pre @ r # post)) (length pre) 0 (length pre) =
      Some (Suc (length ov), length pre + length ov)"
    using resize_count_prefix [OF hit miss, of "length pre" 0 "length pre"] by (simp add: post)
  have nth: "(pre @ r # post) ! (length pre + length ov) = l"
    by (cases ov rule: rev_cases) (simp_all add: post l_def nth_append)
  have l: "l \<in> set (r # ov)" "region_ok l" using okp by (auto simp: l_def post split: if_splits)
  let ?mb = "min (rbase q) (rbase r)" and ?me = "max (rbase l + rsize l) (rbase q + rsize q)"
  have mb: "unat ?mb = min (lo q) (lo r)" by (simp add: unat_min lo_def)
  have me: "unat ?me = max (hi l) (hi q)"
    using region_end(1) [OF l(2)] region_end(1) [OF ok(1)] by (simp add: max_def u32_le_iff)
  have le: "?mb \<le> ?me" unfolding u32_le_iff mb me using lo_less_hi [OF ok(1)] by linarith
  define m where "m = r\<lparr>rbase := ?mb, rsize := ?me - ?mb\<rparr>"
  have lm: "lo m = min (lo q) (lo r)" using mb by (simp add: m_def lo_def)
  have hm: "hi m = max (hi l) (hi q)"
    using unat_sub_no_wrap [OF le] le me mb by (simp add: m_def hi_def u32_le_iff)
  have "lo m < hi m" unfolding lm hm using lo_less_hi [OF ok(1)] by linarith
  moreover have "hi m < 2 ^ 32" using hm ok(1) l(2) by (simp add: region_ok_def)
  ultimately have okm: "region_ok m" by (auto simp: region_ok_def lo_def hi_def)
  have res: "lmb_resize_regions (pre @ r # post) (length pre) (rbase q) (rsize q) = Some (pre @ m # rest)"
    unfolding lmb_resize_regions_def cnt option.case prod.case Let_def nth
    using remove_regions [where pre = pre and ov = ov and m = m and rest = rest] by (simp add: m_def post)
  have "hi l \<le> lo p" if "p \<in> set rest" for p
  proof (cases "l = r")
    case True
    then show ?thesis using above(3) rest that by (auto simp: post intro: le_trans)
  next
    case False
    then have "l \<in> set ov" using l(1) by simp
    then show ?thesis using ok(3) that by (simp add: post regions_ok_append)
  qed
  then have sorted: "regions_ok (m # rest)"
    using okm ok(3) rest by (simp add: regions_ok_Cons hm post regions_ok_append)
  have span: "{lo m..<hi m} = {lo r..<hi r} \<union> (\<Union>p\<in>set ov. {lo p..<hi p}) \<union> {lo q..<hi q}" (is "?L = ?R")
  proof (rule antisym)
    have "x \<in> {lo l..<hi l}" if "hi q \<le> x" "x < hi l" for x
      using l(1) ov r(2) that by auto
    then show "?L \<subseteq> ?R" using l(1) r(1) by (fastforce simp: lm hm)
    have ovl: "hi p \<le> hi l" if "p \<in> set ov" for p
    proof (cases ov rule: rev_cases)
      case (snoc xs x)
      then have "l = x" by (simp add: l_def)
      then show ?thesis using ok(3) that snoc lo_less_hi [OF l(2)]
        by (auto simp: post regions_ok_simps intro: le_trans less_imp_le)
    qed (use that in simp)
    have rl: "hi r \<le> max (hi l) (hi q)"
    proof (cases "l = r \<or> hi r \<le> hi q")
      case False
      then have "hi r \<le> lo l" using above(3) l(1) by (auto simp: post)
      then show ?thesis using lo_less_hi [OF l(2)] by linarith
    qed auto
    have sub: "{x..<y} \<subseteq> {lo m..<hi m}" if "lo m \<le> x" "y \<le> hi m" for x y using that by auto
    have "lo m \<le> lo p \<and> hi p \<le> hi m" if "p \<in> set ov" for p
      using ovl [OF that] above(2) that by (simp add: lm hm post min.coboundedI2 max.coboundedI1)
    then show "?R \<subseteq> ?L" using rl by (intro Un_least UN_least sub) (simp_all add: lm hm)
  qed
  have "cover (m # rest) f = cover (r # post) f \<union> (if f = LMB_NONE then {lo q..<hi q} else {})" for f
  proof -
    have "cover ov f = (if f = LMB_NONE then \<Union>p\<in>set ov. {lo p..<hi p} else {})"
      using hit by (auto simp: cover_def)
    then show ?thesis using span r(3) by (auto simp: post m_def)
  qed
  with that [OF res _ lm sorted] r(3) show thesis by (simp add: m_def)
qed

text \<open>Two neighbours that touch become one.\<close>

lemma coalesce_ok:
  assumes "regions_ok (pre @ a # b # rest)" "hi a = lo b" "rflags a = rflags b"
  shows "regions_ok (lmb_coalesce_regions (pre @ a # b # rest) (length pre) (length pre + 1)) \<and>
    cover (lmb_coalesce_regions (pre @ a # b # rest) (length pre) (length pre + 1)) = cover (pre @ a # b # rest)"
proof -
  let ?m = "a\<lparr>rsize := rsize a + rsize b\<rparr>"
  have c: "lmb_coalesce_regions (pre @ a # b # rest) (length pre) (length pre + 1) = pre @ ?m # rest"
    by (simp add: lmb_coalesce_regions_def nth_append)
  have ok: "region_ok a" "region_ok b" using assms(1) by (simp_all add: regions_ok_simps)
  then have lt: "lo a < hi a" "lo b < hi b" "hi b < 2 ^ 32" by (simp_all add: lo_less_hi region_ok_def)
  have sum: "unat (rsize a + rsize b) = unat (rsize a) + unat (rsize b)"
    using lt assms(2) by (intro unat_add_no_wrap) (simp add: lo_def hi_def)
  then have m: "lo ?m = lo a" "hi ?m = hi b" using assms(2) by (simp_all add: lo_def hi_def)
  have "rsize a + rsize b \<noteq> 0" using sum lt(1) by (auto simp: u32_eq_0_iff lo_def hi_def)
  then have "region_ok ?m" using m lt by (simp add: region_ok_def)
  then have "regions_ok (pre @ ?m # rest)" using assms(1) m by (auto simp: regions_ok_simps)
  moreover have "{lo a..<hi b} = {lo a..<hi a} \<union> {lo b..<hi b}" using lt assms(2) by auto
  then have "cover (pre @ ?m # rest) f = cover (pre @ a # b # rest) f" for f using assms(3) m by auto
  ultimately show ?thesis unfolding c by (auto simp: fun_eq_iff)
qed

section \<open>Adding a region\<close>

text \<open>The scan stops at a region the request touches from below, extends, or overlaps.\<close>

definition hit :: "lmb_region \<Rightarrow> lmb_region \<Rightarrow> bool" where
  "hit q r \<longleftrightarrow> hi q = lo r \<or> (hi r = lo q \<and> rflags r = rflags q) \<or> (lo q < hi r \<and> lo r < hi q)"

lemma scan_skip:
  assumes "region_ok q" "\<forall>p\<in>set pre. region_ok p \<and> \<not> hit q p"
  shows "add_scan (ds @ pre @ post) (rbase q) (rsize q) (rflags q) (length ds) =
    add_scan (ds @ pre @ post) (rbase q) (rsize q) (rflags q) (length ds + length pre)"
  using assms(2)
proof (induction pre arbitrary: ds)
  case (Cons p pre)
  have ok: "region_ok p" and n: "\<not> hit q p" using Cons.prems by simp_all
  have "add_scan (ds @ (p # pre) @ post) (rbase q) (rsize q) (rflags q) (length ds) =
      add_scan (ds @ (p # pre) @ post) (rbase q) (rsize q) (rflags q) (Suc (length ds))"
    using n by (subst add_scan.simps)
      (auto simp: Let_def nth_append hit_def adjacent_iff [OF assms(1) ok] overlap_iff [OF assms(1) ok])
  with Cons.IH [of "ds @ [p]"] Cons.prems show ?case by simp
qed simp

lemma scan_miss:
  assumes "region_ok q" "\<forall>p\<in>set rs. region_ok p \<and> \<not> hit q p"
  shows "add_scan rs (rbase q) (rsize q) (rflags q) 0 = Some (rs, length rs, 0)"
  using scan_skip [OF assms, of "[]" "[]"] by (simp add: add_scan.simps)

lemma scan_hit:
  assumes "region_ok q" "\<forall>p\<in>set pre. region_ok p \<and> \<not> hit q p" "region_ok r" "hit q r"
  shows "add_scan (pre @ r # post) (rbase q) (rsize q) (rflags q) 0 =
    (if hi q = lo r
     then if rflags q \<noteq> rflags r then Some (pre @ r # post, length pre, 0)
          else Some (pre @ r\<lparr>rbase := rbase r - rsize q, rsize := rsize r + rsize q\<rparr> # post, length pre, 1)
     else if hi r = lo q then Some (pre @ r\<lparr>rsize := rsize r + rsize q\<rparr> # post, length pre, 1)
     else case lmb_resize_regions (pre @ r # post) (length pre) (rbase q) (rsize q) of
            None \<Rightarrow> None | Some rgn \<Rightarrow> Some (rgn, length pre, 1))"
proof -
  have "add_scan (pre @ r # post) (rbase q) (rsize q) (rflags q) 0 =
      add_scan (pre @ r # post) (rbase q) (rsize q) (rflags q) (length pre)"
    using scan_skip [OF assms(1,2), of "[]" "r # post"] by simp
  then show ?thesis using assms(4)
    by (subst (asm) (2) add_scan.simps)
      (auto simp: Let_def nth_append hit_def adjacent_iff [OF assms(1,3)] overlap_iff [OF assms(1,3)])
qed

text \<open>Regions before a hit lie below the request.\<close>

lemma below_hit:
  assumes "regions_ok (pre @ r # post)" "region_ok q" "\<forall>p\<in>set pre. \<not> hit q p" "hit q r" "p \<in> set pre"
  shows "hi p \<le> lo q"
proof -
  have "hi p \<le> lo r" "region_ok p" "region_ok r" using assms(1,5) by (auto simp: regions_ok_simps dest: regions_okD)
  moreover have "\<not> hit q p" using assms(3,5) by blast
  moreover have "lo p < hi p" "lo r < hi r" "lo q < hi q" using calculation assms(2) lo_less_hi by blast+
  ultimately show ?thesis using assms(4) by (auto simp: hit_def)
qed

lemma dropWhile_disjoint:
  "regions_ok xs \<Longrightarrow> \<forall>p\<in>set xs. hi p \<le> lo q \<or> hi q \<le> lo p \<Longrightarrow>
     \<forall>p\<in>set (dropWhile (\<lambda>p. hi p \<le> lo q) xs). hi q \<le> lo p"
proof (induction xs)
  case (Cons x xs)
  from Cons.prems(1) have ok: "region_ok x" "regions_ok xs" "\<forall>y\<in>set xs. hi x \<le> lo y"
    unfolding regions_ok_Cons by blast+
  have "hi q \<le> lo y" if "hi q \<le> lo x" "y \<in> set xs" for y
  proof -
    have "hi x \<le> lo y" using ok(3) that(2) by blast
    then show ?thesis using that(1) lo_less_hi [OF ok(1)] by linarith
  qed
  then show ?case using Cons.IH [OF ok(2)] Cons.prems(2) by (cases "hi x \<le> lo q") simp_all
qed simp

lemma insert_region_split:
  assumes "regions_ok rs" "region_ok q" "\<forall>p\<in>set rs. hi p \<le> lo q \<or> hi q \<le> lo p"
  shows "regions_ok (insert_region rs q (length rs)) \<and>
    (\<forall>f. cover (insert_region rs q (length rs)) f = cover rs f \<union> (if f = rflags q then {lo q..<hi q} else {}))"
proof -
  have *: "insert_region (xs @ ys) q (length xs) =
      takeWhile (\<lambda>p. hi p \<le> lo q) xs @ q # dropWhile (\<lambda>p. hi p \<le> lo q) xs @ ys"
    if "regions_ok xs" "\<forall>p\<in>set xs. hi p \<le> lo q \<or> hi q \<le> lo p" for xs ys
    using that
  proof (induction xs arbitrary: ys rule: rev_induct)
    case (snoc x xs)
    have x: "region_ok x" "\<forall>p\<in>set xs. hi p \<le> lo x" "regions_ok xs" using snoc.prems by (auto simp: regions_ok_simps)
    have lt: "lo x < hi x" "lo q < hi q" using x assms(2) lo_less_hi by blast+
    show ?case
    proof (cases "hi x \<le> lo q")
      case True
      have "\<forall>p\<in>set xs. hi p \<le> lo q" using x(2) lt True by fastforce
      with True lt show ?thesis by (simp add: nth_append u32_less_iff lo_def [symmetric] takeWhile_append2 dropWhile_append2)
    next
      case False
      with snoc.prems have "hi q \<le> lo x" by simp
      with lt snoc.IH [of "x # ys"] x(3) snoc.prems(2) False show ?thesis
        by (simp add: nth_append u32_less_iff lo_def [symmetric] takeWhile_tail dropWhile_append)
    qed
  qed simp
  define tw where "tw = takeWhile (\<lambda>p. hi p \<le> lo q) rs"
  define dw where "dw = dropWhile (\<lambda>p. hi p \<le> lo q) rs"
  have rs: "rs = tw @ dw" by (simp add: tw_def dw_def)
  have "\<forall>p\<in>set tw. hi p \<le> lo q" by (auto simp: tw_def dest: set_takeWhileD)
  moreover have "\<forall>p\<in>set dw. hi q \<le> lo p" unfolding dw_def by (rule dropWhile_disjoint [OF assms(1,3)])
  ultimately have "regions_ok (tw @ q # dw)" using assms(1,2) by (fastforce simp: rs regions_ok_simps)
  moreover have "insert_region rs q (length rs) = tw @ q # dw"
    using * [OF assms(1,3), of "[]"] by (simp add: tw_def dw_def)
  ultimately show ?thesis by (auto simp: rs)
qed

lemma fixup_ok:
  assumes "regions_ok (pre @ m # rest)"
  shows "\<exists>rgn n'. add_fixup (pre @ m # rest) (length pre) n = Some (rgn, n') \<and> n \<le> n' \<and> regions_ok rgn \<and>
    cover rgn = cover (pre @ m # rest)"
proof (cases rest)
  case Nil
  then show ?thesis using assms by (simp add: add_fixup_def)
next
  case (Cons b bs)
  have ok: "region_ok m" "region_ok b" "hi m \<le> lo b" using assms Cons by (simp_all add: regions_ok_simps)
  have lt: "lo m < hi m" "lo b < hi b" using ok lo_less_hi by blast+
  have no: "\<not> lmb_addrs_overlap (rbase m) (rsize m) (rbase b) (rsize b)" using ok by (simp add: overlap_iff)
  have adj: "lmb_addrs_adjacent (rbase m) (rsize m) (rbase b) (rsize b) \<noteq> 0 \<longleftrightarrow> hi m = lo b"
    using adjacent_iff [OF ok(1,2)] lt ok(3) by linarith
  have chk: "lmb_regions_check (pre @ m # rest) (length pre) (length pre + 1) =
      (if rflags m = rflags b \<and> hi m = lo b then LMB_RGN_ADJACENT else 0)"
    using no adj Cons by (auto simp: lmb_regions_check_def nth_append Let_def)
  show ?thesis
  proof (cases "rflags m = rflags b \<and> hi m = lo b")
    case True
    with coalesce_ok [of pre m b bs] assms Cons chk show ?thesis
      by (simp add: add_fixup_def LMB_RGN_ADJACENT_def)
  next
    case False
    with assms Cons chk show ?thesis by (simp add: add_fixup_def LMB_RGN_ADJACENT_def LMB_RGN_OVERLAP_def)
  qed
qed

text \<open>A region that has grown upwards takes in the successors it now covers.\<close>

lemma fixup_grown:
  assumes ok: "regions_ok pre" "region_ok m" "regions_ok post" "\<forall>p\<in>set pre. hi p \<le> lo m"
    and above: "\<forall>p\<in>set post. lo m \<le> lo p"
    and none: "\<forall>p\<in>set post. lo p < hi m \<longrightarrow> rflags p = LMB_NONE \<and> rflags m = LMB_NONE"
  shows "\<exists>rgn n'. add_fixup (pre @ m # post) (length pre) n = Some (rgn, n') \<and> n \<le> n' \<and> regions_ok rgn \<and>
    cover rgn = cover (pre @ m # post)"
proof (cases "\<exists>b bs. post = b # bs \<and> lo b < hi m")
  case False
  have "hi m \<le> lo p" if p: "p \<in> set post" for p
  proof -
    obtain b bs where b: "post = b # bs" using p by (cases post) auto
    with False have "hi m \<le> lo b" by simp
    moreover have "region_ok b" "p = b \<or> hi b \<le> lo p" using ok(3) p b by (auto simp: regions_ok_Cons)
    ultimately show ?thesis using lo_less_hi [of b] by auto
  qed
  then have "regions_ok (pre @ m # post)" using ok above lo_less_hi [OF ok(2)] by (fastforce simp: regions_ok_simps)
  then show ?thesis by (rule fixup_ok)
next
  case True
  then obtain b bs where b: "post = b # bs" "lo b < hi m" by blast
  have lt: "lo m < hi m" "lo b < hi b" and okb: "region_ok b"
    using ok b lo_less_hi by (auto simp: regions_ok_Cons)
  have fl: "rflags m = LMB_NONE" "rflags b = LMB_NONE" using none b by auto
  have chk: "lmb_regions_check (pre @ m # post) (length pre) (length pre + 1) = LMB_RGN_OVERLAP"
    using b fl above lt by (simp add: lmb_regions_check_def nth_append overlap_iff [OF ok(2) okb])
  have up: "\<forall>p\<in>set post. lo m < hi p" using above ok(3) by (auto dest!: regions_okD lo_less_hi intro: le_less_trans)
  have nn: "\<forall>p\<in>set post. lo p < hi m \<longrightarrow> rflags p = LMB_NONE" using none by blast
  obtain m' rest where r: "lmb_resize_regions (pre @ m # post) (length pre) (rbase m) (rsize m) = Some (pre @ m' # rest)"
    "lo m' = min (lo m) (lo m)" "regions_ok (m' # rest)"
    "\<And>f. cover (m' # rest) f = cover (m # post) f \<union> (if f = LMB_NONE then {lo m..<hi m} else {})"
    using resize_ok [OF ok(2,2,3) lt(1,1) fl(1) up above disjI1 [OF le_refl] nn, where pre = pre] by metis
  have "cover (pre @ m' # rest) f = cover (pre @ m # post) f" for f using r(4) [of f] fl(1) by auto
  moreover have "hi p \<le> lo y" if "p \<in> set pre" "y \<in> set (m' # rest)" for p y
    using that ok(4) r(2,3) lo_less_hi [of m'] by (fastforce simp: regions_ok_Cons)
  then have "regions_ok (pre @ m' # rest)" using ok(1) r(3) unfolding regions_ok_append by blast
  ultimately show ?thesis using b chk r(1)
    by (simp add: add_fixup_def LMB_RGN_ADJACENT_def LMB_RGN_OVERLAP_def nth_append fun_eq_iff)
qed

definition fits :: "lmb_region \<Rightarrow> lmb_region list \<Rightarrow> bool" where
  "fits q rs \<longleftrightarrow>
     (\<forall>p\<in>set rs. rflags p \<noteq> LMB_NONE \<or> rflags q \<noteq> LMB_NONE \<longrightarrow> hi p \<le> lo q \<or> hi q \<le> lo p)"

text \<open>What the scan and the fix-up leave: the request merged in, or nothing changed and room for it.\<close>

definition merged :: "lmb_region \<Rightarrow> lmb_region list \<Rightarrow> lmb_region list \<Rightarrow> nat \<Rightarrow> bool" where
  "merged q rs rgn n \<longleftrightarrow>
     (if n = 0 then rgn = rs \<and> (\<forall>p\<in>set rs. hi p \<le> lo q \<or> hi q \<le> lo p)
      else regions_ok rgn \<and> (\<forall>f. cover rgn f = cover rs f \<union> (if f = rflags q then {lo q..<hi q} else {})))"

lemma no_touch_nth: "no_touch (pre @ a # b # rest) \<Longrightarrow> \<not> (rflags a = rflags b \<and> hi a = lo b)"
  by (induction pre rule: no_touch.induct) auto

definition add_merge :: "lmb_region \<Rightarrow> lmb_region list \<Rightarrow> (lmb_region list \<times> nat) option" where
  "add_merge q rs =
     (case add_scan rs (rbase q) (rsize q) (rflags q) 0 of
        None \<Rightarrow> None
      | Some (rgn, i, n) \<Rightarrow> add_fixup rgn i n)"

lemma mergedI:
  assumes "add_scan rs (rbase q) (rsize q) (rflags q) 0 = Some (rgn, i, 1)"
    and "\<exists>rgn' n'. add_fixup rgn i 1 = Some (rgn', n') \<and> 1 \<le> n' \<and> regions_ok rgn' \<and> cover rgn' = cover rgn"
    and "\<And>f. cover rgn f = cover rs f \<union> (if f = rflags q then {lo q..<hi q} else {})"
  shows "\<exists>rgn n. add_merge q rs = Some (rgn, n) \<and> merged q rs rgn n"
proof -
  obtain rgn' n' where f: "add_fixup rgn i 1 = Some (rgn', n')" "1 \<le> n'" "regions_ok rgn'" "cover rgn' = cover rgn"
    using assms(2) by blast
  have "merged q rs rgn' n'" using f assms(3) by (simp add: merged_def)
  with f(1) assms(1) show ?thesis by (intro exI [of _ rgn'] exI [of _ n']) (simp add: add_merge_def)
qed

lemma fixup_none:
  assumes "regions_ok (pre @ r # post)" "no_touch (pre @ r # post)"
  shows "add_fixup (pre @ r # post) (length pre) 0 = Some (pre @ r # post, 0)"
proof (cases post)
  case Nil
  then show ?thesis by (simp add: add_fixup_def)
next
  case (Cons b bs)
  then have "region_ok r" "region_ok b" "hi r \<le> lo b" using assms(1) by (simp_all add: regions_ok_simps)
  then have "lmb_regions_check (pre @ r # post) (length pre) (length pre + 1) = 0"
    using no_touch_nth [of pre r b bs] assms(2) Cons adjacent_iff [of r b] lo_less_hi [of b] lo_less_hi [of r]
    by (auto simp: lmb_regions_check_def nth_append Let_def overlap_iff)
  then show ?thesis by (simp add: add_fixup_def LMB_RGN_ADJACENT_def LMB_RGN_OVERLAP_def)
qed

text \<open>A request clear of all regions whose flags none of them has is merged with none.\<close>

lemma add_merge_none:
  assumes "regions_ok rs" "region_ok q" "no_touch rs" "\<forall>p\<in>set rs. (hi p \<le> lo q \<or> hi q \<le> lo p) \<and> rflags p \<noteq> rflags q"
  shows "add_merge q rs = Some (rs, 0)"
proof (cases "\<exists>p\<in>set rs. hit q p")
  case False
  then have "\<forall>p\<in>set rs. region_ok p \<and> \<not> hit q p" using assms(1) by (auto dest: regions_okD)
  from scan_miss [OF assms(2) this] show ?thesis by (auto simp: add_merge_def add_fixup_def)
next
  case True
  then obtain pre r post where rs: "rs = pre @ r # post" and h: "hit q r" and pre: "\<forall>p\<in>set pre. \<not> hit q p"
    using split_list_first_prop [OF True] by blast
  have ok: "region_ok r" "\<forall>p\<in>set pre. region_ok p \<and> \<not> hit q p" using assms(1) pre rs by (auto dest: regions_okD)
  have "hi q = lo r" "rflags q \<noteq> rflags r" using h assms(4) rs by (auto simp: hit_def)
  with scan_hit [OF assms(2) ok(2,1) h, of post] fixup_none [of pre r post] assms(1,3) show ?thesis
    by (simp add: rs add_merge_def)
qed

lemma add_merge_ok:
  assumes ok: "regions_ok rs" "region_ok q" and "no_touch rs" and fit: "fits q rs"
  shows "\<exists>rgn n. add_merge q rs = Some (rgn, n) \<and> merged q rs rgn n"
proof (cases "\<exists>p\<in>set rs. hit q p")
  case False
  have "\<forall>p\<in>set rs. region_ok p \<and> \<not> hit q p" using False ok(1) by (auto dest: regions_okD)
  from scan_miss [OF ok(2) this] have "add_merge q rs = Some (rs, 0)" by (auto simp: add_merge_def add_fixup_def)
  moreover have "merged q rs rs 0" using False by (auto simp: hit_def merged_def)
  ultimately show ?thesis by blast
next
  case True
  then obtain pre r post where rs: "rs = pre @ r # post" and h: "hit q r" and pre: "\<forall>p\<in>set pre. \<not> hit q p"
    using split_list_first_prop [OF True] by blast
  have okr: "region_ok r" "regions_ok pre" "regions_ok post" "\<forall>p\<in>set post. hi r \<le> lo p"
    "\<forall>p\<in>set pre. hi p \<le> lo r" "\<forall>p\<in>set pre. \<forall>y\<in>set post. hi p \<le> lo y"
    using ok(1) by (simp_all add: rs regions_ok_simps)
  have lt: "lo r < hi r" "lo q < hi q" "hi q < 2 ^ 32" "hi r < 2 ^ 32"
    using okr(1) ok(2) lo_less_hi by (auto simp: region_ok_def)
  have low: "\<forall>p\<in>set pre. hi p \<le> lo q" using below_hit [OF _ ok(2) pre h] ok(1) by (auto simp: rs)
  have skip: "\<forall>p\<in>set pre. region_ok p \<and> \<not> hit q p" using pre okr(2) by (auto dest: regions_okD)
  have high: "\<forall>p\<in>set post. lo r \<le> lo p" "\<forall>p\<in>set post. lo p < hi p"
    using okr(3,4) lt(1) lo_less_hi by (auto dest: regions_okD intro: le_trans less_imp_le)
  note scan = scan_hit [OF ok(2) skip okr(1) h, of post, folded rs]
  consider (block) "hi q = lo r" "rflags q \<noteq> rflags r" | (up) "hi q = lo r" "rflags q = rflags r"
    | (down) "hi q \<noteq> lo r" "hi r = lo q" | (over) "hi q \<noteq> lo r" "hi r \<noteq> lo q" by blast
  then show ?thesis
  proof cases
    case block
    have "add_fixup rs (length pre) 0 = Some (rs, 0)" using fixup_none ok(1) assms(3) rs by blast
    then have "add_merge q rs = Some (rs, 0)" using scan block by (simp add: add_merge_def)
    moreover have "hi q \<le> lo p" if "p \<in> set post" for p using that high(1) block by simp
    then have "merged q rs rs 0" using low block by (auto simp: merged_def rs)
    ultimately show ?thesis by blast
  next
    case up
    let ?m = "r\<lparr>rbase := rbase r - rsize q, rsize := rsize r + rsize q\<rparr>"
    have "unat (rsize r + rsize q) = unat (rsize r) + unat (rsize q)"
      using lt up by (intro unat_add_no_wrap) (simp add: lo_def hi_def)
    moreover have "unat (rbase r - rsize q) = lo q"
      using up by (subst unat_sub_no_wrap) (simp_all add: lo_def hi_def u32_le_iff)
    ultimately have m: "lo ?m = lo q" "hi ?m = hi r" "rsize r + rsize q \<noteq> 0"
      using up lt by (auto simp: lo_def hi_def u32_eq_0_iff)
    have "region_ok ?m" using m lt by (simp add: region_ok_def)
    then have s: "regions_ok (pre @ ?m # post)" using okr low high m lt by (auto simp: regions_ok_simps)
    have iv: "{lo q..<hi r} = {lo r..<hi r} \<union> {lo q..<hi q}" using up lt by auto
    show ?thesis
    proof (rule mergedI [OF _ fixup_ok [OF s]])
      show "cover (pre @ ?m # post) f = cover rs f \<union> (if f = rflags q then {lo q..<hi q} else {})" for f
        using m iv up by (auto simp: rs)
    qed (use scan up in simp)
  next
    case down
    then have fl: "rflags r = rflags q" using h by (auto simp: hit_def)
    let ?m = "r\<lparr>rsize := rsize r + rsize q\<rparr>"
    have "unat (rsize r + rsize q) = unat (rsize r) + unat (rsize q)"
      using lt down by (intro unat_add_no_wrap) (simp add: lo_def hi_def)
    then have m: "lo ?m = lo r" "hi ?m = hi q" "rsize r + rsize q \<noteq> 0"
      using down lt by (auto simp: lo_def hi_def u32_eq_0_iff)
    have okm: "region_ok ?m" using m lt by (simp add: region_ok_def)
    have none: "rflags p = LMB_NONE \<and> rflags r = LMB_NONE" if "p \<in> set post" "lo p < hi q" for p
    proof -
      have "\<not> (hi p \<le> lo q \<or> hi q \<le> lo p)" using that down okr(4) high(2) by fastforce
      then show ?thesis using fit that(1) fl by (auto simp: fits_def rs)
    qed
    have iv: "{lo r..<hi q} = {lo r..<hi r} \<union> {lo q..<hi q}" using down lt by auto
    show ?thesis
    proof (rule mergedI [OF _ fixup_grown])
      show "cover (pre @ ?m # post) f = cover rs f \<union> (if f = rflags q then {lo q..<hi q} else {})" for f
        using m iv fl by (auto simp: rs)
    qed (use scan down okr okm high none m in auto)
  next
    case over
    with h have ov: "lo q < hi r" "lo r < hi q" by (auto simp: hit_def)
    then have fl: "rflags r = LMB_NONE" "rflags q = LMB_NONE" using fit lt by (auto simp: fits_def rs)
    have up: "\<forall>p\<in>set post. lo q < hi p" using ov okr(4) high(2) by fastforce
    have none: "\<forall>p\<in>set post. lo p < hi q \<longrightarrow> rflags p = LMB_NONE"
      using fit up by (fastforce simp: fits_def rs)
    obtain m rest where r: "lmb_resize_regions (pre @ r # post) (length pre) (rbase q) (rsize q) = Some (pre @ m # rest)"
      "lo m = min (lo q) (lo r)" "regions_ok (m # rest)"
      "\<And>f. cover (m # rest) f = cover (r # post) f \<union> (if f = LMB_NONE then {lo q..<hi q} else {})"
      using resize_ok [OF ok(2) okr(1,3) ov fl(1) up high(1) disjI2 [OF okr(4)] none, where pre = pre] by metis
    have "hi p \<le> lo y" if "p \<in> set pre" "y \<in> set (m # rest)" for p y
      using that low okr(5) r(2,3) lo_less_hi [of m] by (fastforce simp: regions_ok_Cons)
    then have s: "regions_ok (pre @ m # rest)" using okr(2) r(3) unfolding regions_ok_append by blast
    show ?thesis
    proof (rule mergedI [OF _ fixup_ok [OF s]])
      show "cover (pre @ m # rest) f = cover rs f \<union> (if f = rflags q then {lo q..<hi q} else {})" for f
        using r(4) [of f] fl by (auto simp: rs)
    qed (use scan over r(1) in \<open>simp add: rs\<close>)
  qed
qed

lemma add_region_merge:
  assumes "lmb_add_region_flags lst (rbase q) (rsize q) (rflags q) = (0, lst')" "add_merge q (al_data lst) = Some (rgn, n)"
  shows "al_data lst' = (if n \<noteq> 0 then rgn else insert_region rgn q (length rgn))"
proof -
  have q: "\<lparr>rbase = rbase q, rsize = rsize q, rflags = rflags q\<rparr> = q" by simp
  show ?thesis using assms
    by (auto simp: lmb_add_region_flags_def add_merge_def q alist_expand_by_def Let_def
        split: option.splits if_splits prod.splits list.splits bool.splits)
qed

lemma add_region_ok:
  assumes "regions_ok (al_data lst)" "region_ok q" "no_touch (al_data lst)" "fits q (al_data lst)"
    and "lmb_add_region_flags lst (rbase q) (rsize q) (rflags q) = (0, lst')"
  shows "regions_ok (al_data lst')"
    and "cover (al_data lst') f = cover (al_data lst) f \<union> (if f = rflags q then {lo q..<hi q} else {})"
proof -
  obtain rgn n where m: "add_merge q (al_data lst) = Some (rgn, n)" "merged q (al_data lst) rgn n"
    using add_merge_ok [OF assms(1-4)] by blast
  note d = add_region_merge [OF assms(5) m(1)]
  note i = insert_region_split [OF assms(1,2)]
  show "regions_ok (al_data lst')"
    "cover (al_data lst') f = cover (al_data lst) f \<union> (if f = rflags q then {lo q..<hi q} else {})"
    using m(2) d i by (auto simp: merged_def split: if_splits)
qed

section \<open>Reserving\<close>

lemma overlap_find_None:
  "overlap_find rs base sz flags False i = None \<Longrightarrow> r \<in> set rs \<Longrightarrow> lmb_addrs_overlap base sz (rbase r) (rsize r) \<Longrightarrow>
     flags = LMB_NONE \<and> rflags r = LMB_NONE"
  by (induction rs arbitrary: i) (auto split: if_splits)

lemma reserve_fits:
  assumes "regions_ok (al_data lst)" "region_ok q"
    and "lmb_overlap_checks lst (rbase q) (rsize q) (rflags q) False = None"
  shows "fits q (al_data lst)"
  using overlap_find_None [OF assms(3) [unfolded lmb_overlap_checks_def]] assms(1,2)
  by (fastforce simp: fits_def overlap_iff not_le dest: regions_okD)

lemma reserve_ok:
  assumes "regions_ok (al_data (used_mem m))" "region_ok q" "no_touch (al_data (used_mem m))"
    and "lmb_reserve m (rbase q) (rsize q) (rflags q) = (0, m')"
  shows "regions_ok (al_data (used_mem m')) \<and> available_mem m' = available_mem m \<and> fits q (al_data (used_mem m)) \<and>
    (\<forall>f. cover (al_data (used_mem m')) f =
       cover (al_data (used_mem m)) f \<union> (if f = rflags q then {lo q..<hi q} else {}))"
proof -
  obtain lst where l: "lmb_overlap_checks (used_mem m) (rbase q) (rsize q) (rflags q) False = None"
    "lmb_add_region_flags (used_mem m) (rbase q) (rsize q) (rflags q) = (0, lst)" "m' = m\<lparr>used_mem := lst\<rparr>"
    using assms(4) by (auto simp: lmb_reserve_def lmb_map_update_notify_def Let_def split: option.splits prod.splits if_splits)
  note f = reserve_fits [OF assms(1,2) l(1)]
  from add_region_ok [OF assms(1,2,3) f l(2)] f l(3) show ?thesis by simp
qed

lemma reserve_form: "region_ok \<lparr>rbase = base, rsize = sz, rflags = flags\<rparr> \<longleftrightarrow> sz \<noteq> 0 \<and> unat base + unat sz < 2 ^ 32"
  by (simp add: region_ok_def hi_def)

text \<open>C13: A reservation is a union.  On a sorted list of disjoint regions with no two that touch, a
  reservation that succeeds makes exactly its own addresses reserved with its flags, whichever
  regions the code extends, merges, swallows or inserts, and the list stays sorted and disjoint.\<close>

theorem lmb_reserve_is_union:
  assumes "regions_ok (al_data (used_mem m))" "no_touch (al_data (used_mem m))"
    and "sz \<noteq> 0" "unat base + unat sz < 2 ^ 32" "lmb_reserve m base sz flags = (0, m')"
  shows "regions_ok (al_data (used_mem m')) \<and> available_mem m' = available_mem m \<and>
    (\<forall>f. cover (al_data (used_mem m')) f = cover (al_data (used_mem m)) f \<union>
       (if f = flags then {unat base..<unat base + unat sz} else {}))"
  using reserve_ok [OF assms(1) _ assms(2), of "\<lparr>rbase = base, rsize = sz, rflags = flags\<rparr>" m'] assms(3-5)
  by (auto simp: reserve_form lo_def hi_def)

text \<open>A map with three reserved regions.\<close>

definition three_regions :: lmb where
  "three_regions =
     \<lparr>available_mem = \<lparr>al_data = [\<lparr>rbase = 0, rsize = 1000, rflags = LMB_NONE\<rparr>], al_alloc = 4, al_fail = False,
        al_malloc = []\<rparr>,
      used_mem = \<lparr>al_data = [\<lparr>rbase = 100, rsize = 10, rflags = LMB_NONE\<rparr>, \<lparr>rbase = 120, rsize = 10, rflags = LMB_NONE\<rparr>,
        \<lparr>rbase = 140, rsize = 10, rflags = LMB_NONE\<rparr>], al_alloc = 4, al_fail = False, al_malloc = []\<rparr>\<rparr>"

lemma three_regions_ok: "regions_ok (al_data (used_mem three_regions))" "no_touch (al_data (used_mem three_regions))"
  by (simp_all add: three_regions_def regions_ok_def region_ok_def lo_def hi_def)

lemma reserve_105: "fst (lmb_reserve three_regions 105 20 LMB_NONE) = 0"
  by code_simp

theorem lmb_reserve_is_union_witness:
  "fst (lmb_reserve three_regions 105 20 LMB_NONE) = 0 \<and>
   cover (al_data (used_mem (snd (lmb_reserve three_regions 105 20 LMB_NONE)))) LMB_NONE = {100..<130} \<union> {140..<150}"
proof -
  obtain m' where m: "lmb_reserve three_regions 105 20 LMB_NONE = (0, m')"
    using reserve_105 by (cases "lmb_reserve three_regions 105 20 LMB_NONE") simp
  from lmb_reserve_is_union [OF three_regions_ok _ _ m] m
  have "cover (al_data (used_mem m')) LMB_NONE = cover (al_data (used_mem three_regions)) LMB_NONE \<union> {105..<125}" by simp
  also have "\<dots> = {100..<130} \<union> {140..<150}" by (auto simp: three_regions_def lo_def hi_def)
  finally show ?thesis using m by simp
qed

lemma read_check_ok:
  assumes "regions_ok (al_data (used_mem m))" "no_touch (al_data (used_mem m))"
    and "len \<noteq> 0" "unat addr + unat len < 2 ^ 32" "lmb_read_check m addr len = (0, m')" "f \<noteq> LMB_NONE"
  shows "cover (al_data (used_mem m)) f \<inter> {unat addr..<unat addr + unat len} = {}"
    and "cover (al_data (used_mem m')) f = cover (al_data (used_mem m)) f"
proof -
  let ?q = "\<lparr>rbase = addr, rsize = len, rflags = LMB_NONE\<rparr>"
  have "lmb_reserve m (rbase ?q) (rsize ?q) (rflags ?q) = (0, m')"
    using assms(3,5)
    by (auto simp: lmb_read_check_def lmb_alloc_mem_addr_def lmb_alloc_addr_def Let_def
        split: option.splits if_splits)
  from reserve_ok [OF assms(1) _ assms(2) this] assms(3,4,6)
  have "fits ?q (al_data (used_mem m))" "cover (al_data (used_mem m')) f = cover (al_data (used_mem m)) f"
    by (simp_all add: reserve_form)
  moreover from this(1) have "cover (al_data (used_mem m)) f \<inter> {unat addr..<unat addr + unat len} = {}"
    using assms(6) by (fastforce simp: fits_def cover_def lo_def hi_def)
  ultimately show "cover (al_data (used_mem m)) f \<inter> {unat addr..<unat addr + unat len} = {}"
    "cover (al_data (used_mem m')) f = cover (al_data (used_mem m)) f" by blast+
qed

section \<open>Where the lists go wrong\<close>

lemma overlap_find_no_overlap:
  "\<forall>r\<in>set rs. \<not> lmb_addrs_overlap base sz (rbase r) (rsize r) \<Longrightarrow> overlap_find rs base sz flags al i = None"
  by (induction rs arbitrary: i) auto

text \<open>C34: A reservation is lost.  When two neighbours with the same flags touch (which the merge over a gap
  leaves behind), every reservation with other flags that ends where the lower one begins, and is
  clear of the regions below, is answered with success although it is not recorded: the merge of
  the two neighbours is taken for its own, and no address of it is reserved afterwards.\<close>

theorem lmb_reserve_can_be_lost:
  assumes "al_data (used_mem m) = pre @ a # b # post" "regions_ok (al_data (used_mem m))" "\<not> al_fail (used_mem m)"
    and "rflags a = rflags b" "hi a = lo b" "flags \<noteq> rflags a" "sz \<noteq> 0" "unat base + unat sz = lo a"
    and "\<forall>p\<in>set pre. hi p < unat base \<or> hi p = unat base \<and> rflags p \<noteq> flags"
  shows "\<exists>m'. lmb_reserve m base sz flags = (0, m') \<and> al_data (used_mem m') = pre @ a\<lparr>rsize := rsize a + rsize b\<rparr> # post \<and>
    (\<forall>f. cover (al_data (used_mem m')) f = cover (al_data (used_mem m)) f \<and>
       cover (al_data (used_mem m')) f \<inter> {unat base..<unat base + unat sz} = {})"
proof -
  let ?rs = "al_data (used_mem m)" and ?new = "pre @ a\<lparr>rsize := rsize a + rsize b\<rparr> # post"
  define q where "q = \<lparr>rbase = base, rsize = sz, rflags = flags\<rparr>"
  have q: "rbase q = base" "rsize q = sz" "rflags q = flags" "lo q = unat base" "hi q = lo a"
    using assms(8) by (simp_all add: q_def lo_def hi_def)
  have ok: "region_ok a" "region_ok b" "\<forall>p\<in>set pre. region_ok p" "\<forall>p\<in>set (b # post). hi a \<le> lo p" "regions_ok (pre @ a # b # post)"
    using assms(1,2) by (auto simp: regions_ok_simps dest: regions_okD)
  have okq: "region_ok q" using lo_less_hi [OF ok(1)] ok(1) assms(7) q(2,5) by (simp add: region_ok_def)
  have pre: "\<forall>p\<in>set pre. region_ok p \<and> \<not> hit q p"
    using assms(9) ok(3) lo_less_hi [OF okq] lo_less_hi by (fastforce simp: hit_def q)
  have scan: "add_scan ?rs base sz flags 0 = Some (?rs, length pre, 0)"
    using scan_hit [OF okq pre ok(1), of "b # post"] assms(1,6) q by (simp add: hit_def)
  have "lmb_regions_check ?rs (length pre) (length pre + 1) = LMB_RGN_ADJACENT"
    using assms(1,4,5) adjacent_iff(1) [OF ok(1,2)] overlap_iff [OF ok(1,2)]
    by (simp add: lmb_regions_check_def nth_append Let_def)
  then have fu: "add_fixup ?rs (length pre) 0 = Some (?new, 1)"
    using assms(1) by (simp add: add_fixup_def lmb_coalesce_regions_def nth_append list_update_append LMB_RGN_ADJACENT_def)
  have apart: "hi r \<le> lo q \<or> hi q \<le> lo r" if "r \<in> set ?rs" for r
    using that assms(1,9) ok(4) q lo_less_hi [OF ok(1)] by (auto intro: le_trans less_imp_le)
  then have "\<forall>r\<in>set ?rs. \<not> lmb_addrs_overlap base sz (rbase r) (rsize r)"
    using overlap_iff [OF okq] regions_okD [OF assms(2)] unfolding q by fastforce
  then have none: "lmb_overlap_checks (used_mem m) base sz flags False = None"
    unfolding lmb_overlap_checks_def by (rule overlap_find_no_overlap)
  define m' where "m' = m\<lparr>used_mem := (used_mem m)\<lparr>al_data := ?new\<rparr>\<rparr>"
  have "lmb_reserve m base sz flags = (0, m')"
    using none scan fu assms(3) by (simp add: lmb_reserve_def lmb_add_region_flags_def alist_err_def lmb_map_update_notify_def m'_def)
  moreover have "cover ?new f = cover ?rs f" for f
    using coalesce_ok [OF ok(5) assms(5,4)] assms(1) by (simp add: lmb_coalesce_regions_def nth_append list_update_append)
  moreover have "cover ?rs f \<inter> {unat base..<unat base + unat sz} = {}" for f
    using apart q(4,5) assms(8) by (fastforce simp: cover_def)
  ultimately show ?thesis by (intro exI [of _ m']) (simp add: m'_def)
qed

text \<open>The state this needs comes from reserving the gaps of \<open>three_regions\<close>.\<close>

theorem lmb_reserve_can_be_lost_witness:
  "\<exists>m'. lmb_reserve (snd (lmb_reserve three_regions 110 30 LMB_NONE)) 90 10 LMB_NOMAP = (0, m') \<and>
     fst (lmb_reserve three_regions 110 30 LMB_NONE) = 0 \<and> (\<forall>f. cover (al_data (used_mem m')) f \<inter> {90..<100} = {})"
proof -
  let ?m = "snd (lmb_reserve three_regions 110 30 LMB_NONE)"
  let ?a = "\<lparr>rbase = 100, rsize = 40, rflags = LMB_NONE\<rparr>" and ?b = "\<lparr>rbase = 140, rsize = 10, rflags = LMB_NONE\<rparr>"
  have m: "al_data (used_mem ?m) = [] @ ?a # ?b # []" "\<not> al_fail (used_mem ?m)" "fst (lmb_reserve three_regions 110 30 LMB_NONE) = 0"
    by code_simp+
  have "regions_ok (al_data (used_mem ?m))" unfolding m by (simp add: regions_ok_def region_ok_def lo_def hi_def)
  from lmb_reserve_can_be_lost [OF m(1) this m(2), of LMB_NOMAP 10 90] m(3) show ?thesis by (auto simp: lo_def hi_def)
qed

text \<open>A fixed-address request is accepted although it starts below the memory it names: only its last byte
  is compared with the region.\<close>

theorem lmb_alloc_addr_below_memory:
  "let m = three_regions\<lparr>available_mem := (available_mem three_regions)\<lparr>al_data := [\<lparr>rbase = 200, rsize = 100, rflags = LMB_NONE\<rparr>]\<rparr>\<rparr>
   in fst (lmb_read_check m 180 40) = 0"
  by code_simp

end
