(* ===== verification/Uploads.thy ===== *)
theory Uploads
  imports Console LmbSet
begin

text \<open>
  Uploads and the RAM they go to: the range an upload is accepted for is RAM that nobody has
  protected, its pieces are stored nowhere else, and when the last one has arrived the RAM
  holds the concatenation of the pieces.
\<close>

section \<open>Storing into RAM\<close>

lemma ram_store_same:
  assumes "i < length data" "length data \<le> 2 ^ 32"
  shows "ram_store m addr data (addr + of_nat i) = data ! i"
proof -
  have "unat (of_nat i :: u32) = i" using assms by (simp add: unsigned_of_nat take_bit_nat_eq_self)
  then show ?thesis using assms(1) by (simp add: ram_store_def)
qed

lemma ram_store_other: "length data \<le> unat (a - addr) \<Longrightarrow> ram_store m addr data a = m a"
  by (simp add: ram_store_def)

lemma ram_store_append:
  assumes "length xs + length ys \<le> 2 ^ 32" "length xs < 2 ^ 32"
  shows "ram_store (ram_store m addr xs) (addr + of_nat (length xs)) ys = ram_store m addr (xs @ ys)"
proof
  fix a
  let ?k = "unat (a - addr)" and ?n = "length xs"
  have n: "unat (of_nat ?n :: u32) = ?n" using assms(2) by (simp add: unsigned_of_nat take_bit_nat_eq_self)
  have eq: "a - (addr + of_nat ?n) = (a - addr) - of_nat ?n" by simp
  show "ram_store (ram_store m addr xs) (addr + of_nat ?n) ys a = ram_store m addr (xs @ ys) a"
  proof (cases "?n \<le> ?k")
    case True
    then have "unat (a - (addr + of_nat ?n)) = ?k - ?n"
      unfolding eq using n by (subst unat_sub_no_wrap) (simp_all add: u32_le_iff)
    with True show ?thesis by (auto simp: ram_store_def nth_append)
  next
    case False
    then have lt: "a - addr < of_nat ?n" using n by (simp add: u32_less_iff)
    have "unat (a - (addr + of_nat ?n)) = 2 ^ 32 + ?k - ?n"
    proof -
      define d where "d = a - addr"
      have "unat (d - of_nat ?n) = 2 ^ 32 + unat d - ?n"
        using unat_sub_if' [of d "of_nat ?n"] n False by (simp add: d_def [symmetric])
      then show ?thesis unfolding eq d_def .
    qed
    then have "length ys \<le> unat (a - (addr + of_nat ?n))" using assms(1) by simp
    then show ?thesis using False by (simp add: ram_store_def nth_append)
  qed
qed

section \<open>The range of an upload\<close>

lemma range_valid_ok:
  assumes "webflash_range_valid P ctx sz = (True, ctx')" "regions_ok (al_data (used_mem (lmb_map ctx)))"
    "no_touch (al_data (used_mem (lmb_map ctx)))" "sz \<noteq> 0" "f \<noteq> LMB_NONE"
  shows "unat (ram_base P) \<le> unat (load_addr ctx)"
    and "unat (load_addr ctx) + unat sz \<le> unat (ram_base P) + unat (ram_size P)"
    and "unat (load_addr ctx) + unat sz < 2 ^ 32"
    and "cover (al_data (used_mem (lmb_map ctx))) f \<inter> {unat (load_addr ctx)..<unat (load_addr ctx) + unat sz} = {}"
proof -
  have c: "\<not> load_addr ctx + sz < load_addr ctx" "\<not> ram_base P + ram_size P < ram_base P"
    "ram_base P \<le> load_addr ctx" "load_addr ctx + sz \<le> ram_base P + ram_size P"
    and r: "lmb_read_check (lmb_map ctx) (load_addr ctx) sz = (0, lmb_map ctx')"
    using assms(1) by (auto simp: webflash_range_valid_def Let_def not_less split: if_splits prod.splits)
  have s: "unat (load_addr ctx + sz) = unat (load_addr ctx) + unat sz"
    using c(1) u32_add_le_self [of "load_addr ctx" sz] unat_add_no_wrap [of "load_addr ctx" sz] by (simp add: not_less)
  have e: "unat (ram_base P + ram_size P) = unat (ram_base P) + unat (ram_size P)"
    using c(2) u32_add_le_self [of "ram_base P" "ram_size P"] unat_add_no_wrap [of "ram_base P" "ram_size P"]
    by (simp add: not_less)
  show "unat (ram_base P) \<le> unat (load_addr ctx)"
    "unat (load_addr ctx) + unat sz \<le> unat (ram_base P) + unat (ram_size P)"
    using c(3,4) s e by (simp_all add: u32_le_iff)
  show lt: "unat (load_addr ctx) + unat sz < 2 ^ 32" using u32_unat_lt [of "load_addr ctx + sz"] unfolding s .
  show "cover (al_data (used_mem (lmb_map ctx))) f \<inter> {unat (load_addr ctx)..<unat (load_addr ctx) + unat sz} = {}"
    by (rule read_check_ok(1) [OF assms(2,3,4) lt r assms(5)])
qed

text \<open>C9: Where an upload may go.  When the headers of an upload are accepted, its announced length is not
  zero, at most the size of the partition, and for a protected partition exactly that; the
  addresses it will be stored at lie in RAM, do not wrap, and none of them is reserved with
  flags other than \<open>LMB_NONE\<close>.\<close>

theorem upload_range_checked:
  assumes "webflash_prepare_upload P ctx p = (0, ctx')" "regions_ok (al_data (used_mem (lmb_map ctx)))"
    "no_touch (al_data (used_mem (lmb_map ctx)))" "f \<noteq> LMB_NONE"
  shows "rx_state ctx' = WEBFLASH_RX_UPLOAD \<and> upload_part ctx' = Some p \<and> upload_size ctx' = 0 \<and>
    0 < content_length ctx' \<and> content_length ctx' \<le> p_size p \<and>
    (has_flag p WEBFLASH_PART_PROTECTED \<longrightarrow> content_length ctx' = p_size p) \<and>
    unat (ram_base P) \<le> unat (load_addr ctx') \<and>
    unat (load_addr ctx') + unat (content_length ctx') \<le> unat (ram_base P) + unat (ram_size P) \<and>
    unat (load_addr ctx') + unat (content_length ctx') < 2 ^ 32 \<and>
    cover (al_data (used_mem (lmb_map ctx))) f \<inter>
      {unat (load_addr ctx')..<unat (load_addr ctx') + unat (content_length ctx')} = {}"
proof -
  obtain sz c where sz: "sz \<noteq> 0" "sz \<le> p_size p" "has_flag p WEBFLASH_PART_PROTECTED \<longrightarrow> sz = p_size p"
    and r: "webflash_range_valid P ctx sz = (True, c)"
    and c': "ctx' = c\<lparr>job := job_zero, upload_part := Some p, image_kind := WEBFLASH_IMAGE_FOREIGN, content_length := sz,
      upload_size := 0, completed_size := 0, upload_valid := False, upload_detail := [], rx_state := WEBFLASH_RX_UPLOAD\<rparr>"
    using assms(1) by (auto simp: webflash_prepare_upload_def Let_def not_less
        split: if_splits sum.splits prod.splits)
  have "load_addr c = load_addr ctx" using r by (auto simp: webflash_range_valid_def Let_def split: if_splits prod.splits)
  with c' sz range_valid_ok [OF r assms(2,3) sz(1) assms(4)] show ?thesis
    by (simp add: word_gt_0)
qed

section \<open>Pieces\<close>

text \<open>The context with \<open>xs\<close> received so far.\<close>

definition stored :: "('c, 'w) webflash_ctx \<Rightarrow> byte list \<Rightarrow> ('c, 'w) webflash_ctx" where
  "stored ctx xs = ctx\<lparr>ram := ram_store (ram ctx) (load_addr ctx) xs, upload_size := of_nat (length xs)\<rparr>"

lemma stored_fields [simp]:
  "client (stored ctx xs) = client ctx" "rx_state (stored ctx xs) = rx_state ctx"
  "content_length (stored ctx xs) = content_length ctx" "load_addr (stored ctx xs) = load_addr ctx"
  "upload_part (stored ctx xs) = upload_part ctx" "upload_valid (stored ctx xs) = upload_valid ctx" "upload_size (stored ctx xs) = of_nat (length xs)"
  "ram (stored ctx xs) = ram_store (ram ctx) (load_addr ctx) xs"
  by (simp_all add: stored_def)

lemma stored_Nil: "upload_size ctx = 0 \<Longrightarrow> stored ctx [] = ctx"
  by (simp add: stored_def ram_store_def)

lemma store_piece:
  assumes "length xs + length d \<le> unat (content_length ctx)"
  shows "webflash_store_upload P (stored ctx xs) d =
    (if length xs + length d < unat (content_length ctx) then (0, stored ctx (xs @ d))
     else upload_done P (stored ctx (xs @ d)))"
proof -
  have lt: "length xs + length d < 2 ^ 32" using assms u32_unat_lt [of "content_length ctx"] by linarith
  have u: "unat (of_nat k :: u32) = k" if "k < 2 ^ 32" for k
    using that by (simp add: unsigned_of_nat take_bit_nat_eq_self)
  have n: "unat (of_nat (length xs) :: u32) = length xs" by (rule u) (use lt in simp)
  have n2: "unat (of_nat (length (xs @ d)) :: u32) = length (xs @ d)" by (rule u) (use lt in simp)
  have rem: "unat (content_length ctx - of_nat (length xs)) = unat (content_length ctx) - length xs"
    using assms n by (subst unat_sub_no_wrap) (simp_all add: u32_le_iff)
  have st: "(stored ctx xs)\<lparr>ram := ram_store (ram (stored ctx xs)) (load_addr ctx + of_nat (length xs)) d,
      upload_size := of_nat (length xs) + of_nat (length d)\<rparr> = stored ctx (xs @ d)"
    using lt ram_store_append [of xs d "ram ctx" "load_addr ctx"] by (simp add: stored_def)
  have eq: "of_nat (length (xs @ d)) = content_length ctx \<longleftrightarrow> length xs + length d = unat (content_length ctx)"
    unfolding word_unat_eq_iff n2 by simp
  show ?thesis
    using assms rem st eq unfolding webflash_store_upload_def Let_def stored_fields by auto
qed

lemma recv_pieces:
  assumes "client ctx = Some pcb" "rx_state ctx = WEBFLASH_RX_UPLOAD"
    and "ds \<noteq> []" "\<forall>d\<in>set ds. d \<noteq> []" "length xs + length (concat ds) = unat (content_length ctx)"
  shows "recv_chain P (stored ctx xs) ds = snd (upload_done P (stored ctx (xs @ concat ds)))"
  using assms(3-5)
proof (induction ds arbitrary: xs)
  case (Cons d ds)
  have "webflash_consume P (stored ctx xs) d = webflash_store_upload P (stored ctx xs) d"
    using Cons.prems(2) assms(2) by (cases d) auto
  also have "\<dots> = (if length xs + length d < unat (content_length ctx) then (0, stored ctx (xs @ d))
      else upload_done P (stored ctx (xs @ d)))"
    using Cons.prems(3) by (intro store_piece) simp
  finally have c: "webflash_consume P (stored ctx xs) d = \<dots>" .
  show ?case
  proof (cases "ds = []")
    case True
    with c Cons.prems(3) assms(1) show ?thesis by (simp add: Let_def)
  next
    case False
    then have "0 < length (concat ds)" using Cons.prems(2) by (cases ds) auto
    then have "length xs + length d < unat (content_length ctx)" using Cons.prems(3) by (simp only: concat.simps length_append)
    with c False assms(1) Cons.IH [of "xs @ d"] Cons.prems show ?thesis by (simp add: Let_def)
  qed
qed simp

text \<open>Whether the environment has taken the address and the size of the upload.\<close>

definition upload_recorded :: "('c, 'w) platform \<Rightarrow> ('c, 'w) webflash_ctx \<Rightarrow> ulong \<Rightarrow> ulong \<Rightarrow> bool" where
  "upload_recorded P ctx addr sz \<longleftrightarrow>
     (let (r1, w) = env_set_hex P (world ctx) ''fileaddr'' addr in r1 = 0 \<and> fst (env_set_hex P w ''filesize'' sz) = 0)"

lemma finish_result:
  assumes "upload_part u = Some p"
  shows "let c = snd (upload_finish P u)
    in completed_addr c = completed_addr u \<and> completed_size c = completed_size u \<and> ram c = ram u \<and>
       upload_crc c = crc32 0 0 (upload_bytes c) \<and> (upload_valid c \<longrightarrow> fst (webflash_validate_upload c) = 0)"
proof -
  obtain ret c1 where v: "webflash_validate_upload u = (ret, c1)" by fastforce
  from validate_upload_form [OF assms v] obtain k dt where c1: "c1 = u\<lparr>upload_crc := crc32 0 0 (upload_bytes u),
      image_kind := k, upload_detail := dt, upload_valid := (ret = 0)\<rparr>" by blast
  define c where "c = snd (upload_finish P u)"
  have "c = snd (webflash_reply P (set_reply c1 (upload_reply c1 p ret))
      (if ret \<noteq> 0 then ''422 Unprocessable Content'' else ''200 OK'') ''application/json'' (Reply_buf 0))"
    unfolding c_def upload_finish_def v using c1 assms by simp
  then have k: "keeps_io c1 c"
    using talks_simps(4) [of c1 P "upload_reply c1 p ret"] by (simp only: talks_def keeps_def)
  then have f: "completed_addr c = completed_addr u" "completed_size c = completed_size u" "ram c = ram u"
    "upload_crc c = crc32 0 0 (upload_bytes u)" "upload_part c = upload_part u" "upload_valid c \<longrightarrow> ret = 0"
    by (auto simp: keeps_io_def c1)
  with v show ?thesis
    unfolding c_def [symmetric] Let_def using upload_bytes_cong [OF f(1-3)] validate_cong [OF f(5,1-3)] by simp
qed

lemma upload_done_result:
  assumes "upload_part ctx = Some p" "\<not> upload_valid ctx"
  shows "let c = snd (upload_done P ctx)
    in completed_addr c = load_addr ctx \<and> completed_size c = upload_size ctx \<and> ram c = ram ctx \<and>
       (if upload_recorded P ctx (load_addr ctx) (upload_size ctx)
        then upload_crc c = crc32 0 0 (upload_bytes c) \<and> (upload_valid c \<longrightarrow> fst (webflash_validate_upload c) = 0)
        else \<not> upload_valid c)"
proof -
  let ?u = "\<lambda>w. ctx\<lparr>completed_addr := load_addr ctx, completed_size := upload_size ctx, world := w\<rparr>"
  show ?thesis
  proof (cases "upload_recorded P ctx (load_addr ctx) (upload_size ctx)")
    case True
    then obtain w where "upload_done P ctx = upload_finish P (?u w)"
      by (auto simp: upload_done_def upload_recorded_def Let_def split_def)
    then show ?thesis using finish_result [of "?u w" p P] assms(1) True by (simp add: Let_def)
  next
    case False
    define r where "r = env_set_hex P (world ctx) ''fileaddr'' (load_addr ctx)"
    define w where "w = (if fst r \<noteq> 0 then snd r else snd (env_set_hex P (snd r) ''filesize'' (upload_size ctx)))"
    have "snd (upload_done P ctx) = webflash_error P (?u w) ''500 Internal Server Error'' ''update upload env failed''"
      using False by (simp add: upload_done_def upload_recorded_def Let_def split_def r_def w_def)
    then show ?thesis using False assms(2)
        error_keeps [of "?u w" P "''500 Internal Server Error''" "''update upload env failed''"]
      by (auto simp: Let_def keeps_def keeps_io_def)
  qed
qed

text \<open>C8: An upload arrives whole.  However the network cuts the body into pieces, when they add up to the
  announced length the upload in RAM is their concatenation, at the load address, and no other
  RAM has changed.  If the environment takes its address and size, its checksum is kept and it is
  marked valid only if the validation accepts it; if the environment refuses them, the upload is
  not marked valid.\<close>

theorem upload_reassembles:
  assumes "client ctx = Some pcb" "rx_state ctx = WEBFLASH_RX_UPLOAD" "upload_part ctx = Some p" "upload_size ctx = 0"
    and "\<not> upload_valid ctx" and "ds \<noteq> []" "\<forall>d\<in>set ds. d \<noteq> []" "length (concat ds) = unat (content_length ctx)"
  shows "let c = recv_chain P ctx ds
    in completed_addr c = load_addr ctx \<and> completed_size c = content_length ctx \<and> upload_bytes c = concat ds \<and>
       (\<forall>a. length (concat ds) \<le> unat (a - load_addr ctx) \<longrightarrow> ram c a = ram ctx a) \<and>
       (if upload_recorded P ctx (load_addr ctx) (content_length ctx)
        then upload_crc c = crc32 0 0 (concat ds) \<and> (upload_valid c \<longrightarrow> fst (webflash_validate_upload c) = 0)
        else \<not> upload_valid c)"
proof -
  let ?s = "stored ctx (concat ds)"
  have r: "recv_chain P ctx ds = snd (upload_done P ?s)"
    using recv_pieces [OF assms(1,2,6,7), of "[]" P] assms(8) stored_Nil [OF assms(4)] by simp
  have len: "of_nat (length (concat ds)) = content_length ctx" unfolding assms(8) by simp
  have lt: "length (concat ds) < 2 ^ 32" unfolding assms(8) by (rule u32_unat_lt)
  have "upload_recorded P ?s = upload_recorded P ctx" by (simp add: upload_recorded_def stored_def fun_eq_iff)
  with upload_done_result [of ?s p P, folded r] assms(3,5) len obtain c where c: "c = recv_chain P ctx ds"
    "completed_addr c = load_addr ctx" "completed_size c = content_length ctx"
    "ram c = ram_store (ram ctx) (load_addr ctx) (concat ds)"
    "if upload_recorded P ctx (load_addr ctx) (content_length ctx)
     then upload_crc c = crc32 0 0 (upload_bytes c) \<and> (upload_valid c \<longrightarrow> fst (webflash_validate_upload c) = 0)
     else \<not> upload_valid c"
    by (simp add: Let_def)
  have "upload_bytes c = concat ds"
    using lt ram_store_same [of _ "concat ds" "ram ctx" "load_addr ctx"]
    by (intro nth_equalityI) (simp_all add: upload_bytes_def c(2,3,4) assms(8) map_sysmem_def)
  with c(2-5) show ?thesis unfolding c(1) [symmetric] Let_def by (auto simp: ram_store_other split: if_splits)
qed

end
