(* ===== verification/Forms.thy ===== *)
theory Forms
  imports WebflashHttp
begin

text \<open>
  Headers and forms as the browser writes them: printing a list of fields and looking one up
  with the functions of the console is a lookup in the list.  Header names are matched
  without regard to case, form values come back percent-decoded.
\<close>

section \<open>Searching in concatenated text\<close>

lemma memcmp_head: "memcmp (c # s) (d # t) (Suc n) = 0 \<longleftrightarrow> c = d \<and> memcmp s t n = 0"
  by (simp add: Let_def)

lemma strstr_CRLF:
  assumes "CR \<notin> set s" "NUL \<notin> set s"
  shows "strstr (s @ CR # LF # t) CRLF = Some (CR # LF # t)"
proof -
  have "strnstr_loop (s @ CR # LF # t) CRLF 2 (length s + Suc (Suc k)) = Some (CR # LF # t)" for k
    using assms(1)
  proof (induction s)
    case (Cons a s)
    then have "memcmp (a # s @ CR # LF # t) CRLF 2 \<noteq> 0"
      using memcmp_head [of a "s @ CR # LF # t" CR "[LF]" 1] by (auto simp: numeral_2_eq_2 simp del: memcmp.simps)
    with Cons show ?case by simp
  qed (simp add: memcmp_0_iff)
  then have "strnstr_loop (s @ CR # LF # t) CRLF 2 (length s + Suc (Suc (strlen t))) = Some (CR # LF # t)" .
  moreover have "strlen (s @ CR # LF # t) = length s + Suc (Suc (strlen t))" using assms(2) by (induction s) auto
  moreover have "strlen CRLF = 2" by simp
  ultimately show ?thesis by (simp only: strstr_def)
qed

lemma strncmp_CRLF: "strncmp s CRLF 2 = 0 \<longleftrightarrow> prefix CRLF s"
  using strncmp_prefix [of CRLF s] by (simp add: numeral_2_eq_2 del: strncmp.simps)

lemma memchr_at: "c \<notin> set s \<Longrightarrow> length s < n \<Longrightarrow> memchr (s @ c # t) c n = Some (c # t)"
proof (induction s arbitrary: n)
  case Nil
  then show ?case by (cases n) auto
next
  case (Cons a s)
  then show ?case by (cases n) auto
qed

lemma strchr_at: "c \<notin> set s \<Longrightarrow> NUL \<notin> set s \<Longrightarrow> strchr (s @ c # t) c = Some (c # t)"
  by (induction s) auto

lemma strchr_none: "c \<notin> set s \<Longrightarrow> c \<noteq> NUL \<Longrightarrow> strchr s c = None"
  by (induction s) auto

lemma strncasecmp_iff:
  "NUL \<notin> set a \<Longrightarrow> NUL \<notin> set n \<Longrightarrow> length a = length n \<Longrightarrow>
     strncasecmp (a @ t) n (length n) = 0 \<longleftrightarrow> map tolower a = map tolower n"
proof (induction n arbitrary: a)
  case (Cons d n)
  then obtain c b where a: "a = c # b" by (cases a) auto
  with Cons show ?case by (auto simp: Let_def)
qed simp

section \<open>Headers\<close>

definition header_field :: "string \<times> string \<Rightarrow> string" where
  "header_field = (\<lambda>(n, v). n @ CHR '':'' # v @ CRLF)"

definition header_text :: "(string \<times> string) list \<Rightarrow> string" where
  "header_text hs = concat (map header_field hs) @ CRLF"

definition field_ok :: "string \<times> string \<Rightarrow> bool" where
  "field_ok = (\<lambda>(n, v). {NUL, CR, CHR '':''} \<inter> set n = {} \<and> {NUL, CR} \<inter> set v = {})"

definition unblank :: "string \<Rightarrow> string" where
  "unblank v = dropWhile (\<lambda>c. c = CHR '' '' \<or> c = TAB) v"

text \<open>The first field whose name agrees up to case.\<close>

fun header_lookup :: "(string \<times> string) list \<Rightarrow> string \<Rightarrow> string option" where
  "header_lookup [] name = None"
| "header_lookup ((n, v) # hs) name =
     (if map tolower n = map tolower name then Some (unblank v) else header_lookup hs name)"

definition sized :: "nat \<Rightarrow> string option \<Rightarrow> int + string" where
  "sized sz r = (case r of None \<Rightarrow> Inl (- ENOENT) | Some v \<Rightarrow> if sz \<le> length v then Inl (- E2BIG) else Inr v)"

lemma header_search_field:
  assumes "field_ok (n, v)" "NUL \<notin> set name"
  shows "header_search (header_field (n, v) @ rest) name sz =
    (if map tolower n = map tolower name then sized sz (Some (unblank v)) else header_search rest name sz)"
proof -
  let ?line = "header_field (n, v) @ rest"
  have f: "CR \<notin> set (n @ CHR '':'' # v)" "NUL \<notin> set (n @ CHR '':'' # v)" "CHR '':'' \<notin> set n" "NUL \<notin> set n"
    using assms(1) by (auto simp: field_ok_def)
  have line: "?line = (n @ CHR '':'' # v) @ CR # LF # rest" by (simp add: header_field_def)
  have st: "strstr ?line CRLF = Some (CR # LF # rest)" unfolding line by (rule strstr_CRLF [OF f(1,2)])
  have c: "memchr ?line (CHR '':'') (length n + Suc (length v)) = Some (CHR '':'' # v @ CR # LF # rest)"
    using memchr_at [of "CHR '':''" n "length n + Suc (length v)" "v @ CR # LF # rest"] f(3)
    by (simp add: header_field_def)
  have hd: "c0 ?line \<noteq> NUL" using f by (cases n) (auto simp: header_field_def)
  have "\<not> prefix CRLF ?line" using f by (cases n) (auto simp: header_field_def)
  then have hd2: "strncmp ?line CRLF 2 \<noteq> 0" by (simp add: strncmp_CRLF)
  have m: "length n = length name \<and> strncasecmp ?line name (length name) = 0 \<longleftrightarrow> map tolower n = map tolower name"
    using strncasecmp_iff [OF f(4) assms(2), of "CHR '':'' # v @ CRLF @ rest"] map_eq_imp_length_eq [of tolower n tolower name]
    by (auto simp: header_field_def)
  have v: "take (length v) (drop (Suc (length name)) ?line) = v" if "length n = length name"
    using that by (simp add: header_field_def that [symmetric])
  have d: "length ?line - length (CR # LF # rest) = length n + Suc (length v)"
    "length ?line - length (CHR '':'' # v @ CR # LF # rest) = length n" by (simp_all add: header_field_def)
  show ?thesis
    unfolding header_search.simps [of ?line] using hd hd2 st c m v d assms(2)
    by (auto simp: sized_def unblank_def Let_def)
qed

lemma header_search_text:
  assumes "\<forall>f\<in>set hs. field_ok f" "NUL \<notin> set name"
  shows "header_search (header_text hs) name sz = sized sz (header_lookup hs name)"
  using assms(1)
proof (induction hs)
  case Nil
  then show ?case by (simp add: header_text_def header_search.simps [of CRLF] sized_def strncmp_CRLF)
next
  case (Cons f hs)
  obtain n v where f: "f = (n, v)" by fastforce
  with Cons header_search_field [of n v name "header_text hs" sz] assms(2) show ?case
    by (simp add: header_text_def)
qed

lemma header_value_text:
  assumes "header ctx = line @ CRLF @ header_text hs" "{CR, NUL} \<inter> set line = {}"
    and "\<forall>f\<in>set hs. field_ok f" "NUL \<notin> set name"
  shows "webflash_header_value ctx name sz = sized sz (header_lookup hs name)"
  using assms strstr_CRLF [of line "header_text hs"] header_search_text [OF assms(3,4), of sz]
  by (simp add: webflash_header_value_def)

text \<open>C32: Looking a header up is a lookup in the list of fields the client has sent, up to case and the blanks
  before the value: absent fields and values that do not fit the buffer are told apart.\<close>

theorem header_value_lookup:
  assumes "header ctx = line @ CRLF @ header_text hs" "{CR, NUL} \<inter> set line = {}"
    and "\<forall>f\<in>set hs. field_ok f" "NUL \<notin> set name"
  shows "webflash_header_value ctx name sz =
    (case header_lookup hs name of
       None \<Rightarrow> Inl (- ENOENT)
     | Some v \<Rightarrow> if sz \<le> length v then Inl (- E2BIG) else Inr v)"
  using header_value_text [OF assms] by (simp add: sized_def)

section \<open>Content-Length\<close>

lemma number_length: "n < 10 ^ k \<Longrightarrow> 0 < k \<Longrightarrow> length (number 10 n) \<le> k"
proof (induction k arbitrary: n)
  case (Suc k)
  show ?case
  proof (cases "n < 10")
    case True
    then show ?thesis by (subst number.simps) simp
  next
    case False
    with Suc.prems have "0 < k" by (cases k) auto
    moreover have "n div 10 < 10 ^ k" using Suc.prems by (simp add: less_mult_imp_div_less mult.commute)
    ultimately have "length (number 10 (n div 10)) \<le> k" using Suc.IH by simp
    with False show ?thesis by (subst number.simps) simp
  qed
qed simp

lemma number_digit_bounds: "c \<in> set (number 10 n) \<Longrightarrow> decode_digit c < 10"
  using number_digits [of 10 n] by simp

lemma unblank_number: "unblank (CHR '' '' # number 10 n) = number 10 n"
proof -
  obtain c s where s: "number 10 n = c # s" using number_ne [of 10 n] by (cases "number 10 n") auto
  then have "decode_digit c < 10" using number_digit_bounds [of c n] by simp
  moreover have "decode_digit (CHR '' '') = 256" "decode_digit TAB = 256" by code_simp+
  ultimately have "c \<noteq> CHR '' ''" "c \<noteq> TAB" by auto
  then show ?thesis by (simp add: s unblank_def)
qed

lemma content_length_text:
  assumes "webflash_header_value ctx ''Content-Length'' 32 = sized 32 (Some (number 10 n))" "n < 2 ^ 32"
  shows "webflash_get_content_length ctx = Inr (of_nat n)"
proof -
  have "length (number 10 n) \<le> 10" using assms(2) by (intro number_length) simp_all
  then have "webflash_header_value ctx ''Content-Length'' 32 = Inr (number 10 n)"
    using assms(1) by (simp add: sized_def)
  then show ?thesis using strtoul_number [of "[]" n] by (simp add: webflash_get_content_length_def fmt_u_def Let_def number_ne [symmetric])
qed

text \<open>An announced length is read back: a request whose first \<open>Content-Length\<close> field, in any case, holds the
  decimal digits of a number below 2^32 has that number as its length.\<close>

theorem content_length_roundtrip:
  assumes "header ctx = line @ CRLF @ header_text (before @ (name, CHR '' '' # fmt_u n) # after)"
    and "{CR, NUL} \<inter> set line = {}" "\<forall>f\<in>set before \<union> set after. field_ok f" "n < 2 ^ 32"
    and "map tolower name = map tolower ''Content-Length''"
    and "\<forall>f\<in>set before. map tolower (fst f) \<noteq> map tolower ''Content-Length''"
  shows "\<exists>l. webflash_get_content_length ctx = Inr l \<and> unat l = n"
proof -
  have n: "c \<notin> set (number 10 n)" if "10 \<le> decode_digit c" for c using number_digit_bounds [of c n] that by fastforce
  have "NUL \<notin> set (number 10 n)" "CR \<notin> set (number 10 n)" by (rule n; code_simp)+
  moreover have "{NUL, CR, CHR '':''} \<inter> set name = {}"
  proof -
    have "set (map tolower name) = set (map tolower ''Content-Length'')" using assms(5) by simp
    then have "tolower c \<in> set (map tolower ''Content-Length'')" if "c \<in> set name" for c using that by auto
    moreover have "\<forall>c\<in>{NUL, CR, CHR '':''}. tolower c \<notin> set (map tolower ''Content-Length'')" by code_simp
    ultimately show ?thesis by blast
  qed
  ultimately have ok: "\<forall>f\<in>set (before @ (name, CHR '' '' # fmt_u n) # after). field_ok f"
    using assms(3) by (auto simp: field_ok_def fmt_u_def)
  have "header_lookup (before @ (name, CHR '' '' # fmt_u n) # after) ''Content-Length'' = Some (number 10 n)"
    using assms(5,6) by (induction before) (auto simp: fmt_u_def unblank_number)
  then have "webflash_header_value ctx ''Content-Length'' 32 = sized 32 (Some (number 10 n))"
    using header_value_text [OF assms(1,2) ok, of "''Content-Length''" 32] by simp
  from content_length_text [OF this assms(4)] assms(4) show ?thesis
    by (simp add: unsigned_of_nat take_bit_nat_eq_self)
qed

section \<open>Forms\<close>

definition hex_digit :: "nat \<Rightarrow> char" where
  "hex_digit d = char_of (if d < 10 then 48 + d else 55 + d)"

text \<open>
  A browser keeps the characters it likes, writes a blank as \<open>+\<close> and escapes the rest.
\<close>

fun percent_encode :: "(char \<Rightarrow> bool) \<Rightarrow> string \<Rightarrow> string" where
  "percent_encode keep [] = []"
| "percent_encode keep (c # cs) =
     (if keep c then [c] else if c = CHR '' '' then ''+''
      else [CHR ''%'', hex_digit (of_char c div 16), hex_digit (of_char c mod 16)]) @ percent_encode keep cs"

lemma hex_digit_facts:
  assumes "d < 16"
  shows "hex_to_bin (hex_digit d) = int d"
    and "of_char (hex_digit d) \<noteq> (of_char c :: nat) \<Longrightarrow> hex_digit d \<noteq> c"
    and "hex_digit d \<notin> {NUL, CHR ''&'', CHR ''='', CHR ''+'', CHR ''%''}"
proof -
  have n: "of_char (hex_digit d) = (if d < 10 then 48 + d else 55 + d)" using assms by (simp add: hex_digit_def)
  show "hex_to_bin (hex_digit d) = int d"
    using assms by (cases "d < 10") (simp_all add: hex_to_bin_def hex_digit_def tolower_def isupper_def Let_def)
  show ne: "hex_digit d \<noteq> c" if "of_char (hex_digit d) \<noteq> (of_char c :: nat)" for c using that by auto
  have "\<forall>c\<in>{NUL, CHR ''&'', CHR ''='', CHR ''+'', CHR ''%''}. of_char (hex_digit d) \<noteq> (of_char c :: nat)"
    unfolding n by simp
  with ne show "hex_digit d \<notin> {NUL, CHR ''&'', CHR ''='', CHR ''+'', CHR ''%''}" by blast
qed

lemma percent_decode_escape:
  assumes "h < 16" "l < 16"
  shows "webflash_percent_decode (CHR ''%'' # hex_digit h # hex_digit l # s) =
    map_sum id (Cons (char_of (16 * h + l))) (webflash_percent_decode s)"
proof -
  have "nat (int h * 16 + int l) = 16 * h + l" by linarith
  then show ?thesis
    using hex_digit_facts(1,3) [OF assms(1)] hex_digit_facts(1,3) [OF assms(2)] by (simp add: Let_def)
qed

lemma percent_decode_encode:
  assumes "\<And>c. keep c \<Longrightarrow> c \<notin> {NUL, CHR ''+'', CHR ''%''}"
  shows "webflash_percent_decode (percent_encode keep s) = Inr s"
proof (induction s)
  case (Cons c s)
  have lt: "of_char c div 16 < (16 :: nat)" "of_char c mod 16 < (16 :: nat)"
    using nat_of_char_less_256 [of c] by (simp_all add: less_mult_imp_div_less del: nat_of_char_less_256)
  consider "keep c" | "\<not> keep c" "c = CHR '' ''" | "\<not> keep c" "c \<noteq> CHR '' ''" by blast
  then show ?case
  proof cases
    case 1
    with assms [of c] Cons show ?thesis by simp
  next
    case 2
    with Cons show ?thesis by simp
  next
    case 3
    have "char_of (16 * (of_char c div 16) + of_char c mod (16 :: nat)) = c" by simp
    with 3 Cons percent_decode_escape [OF lt, of "percent_encode keep s"] show ?thesis
      by (simp del: webflash_percent_decode.simps)
  qed
qed simp

text \<open>What an encoder leaves alone must not mean anything in a form.\<close>

definition form_safe :: "(char \<Rightarrow> bool) \<Rightarrow> bool" where
  "form_safe keep \<longleftrightarrow> (\<forall>c\<in>{NUL, CHR ''+'', CHR ''%'', CHR ''&'', CHR ''=''}. \<not> keep c)"

definition form_field :: "(char \<Rightarrow> bool) \<Rightarrow> string \<times> string \<Rightarrow> string" where
  "form_field keep = (\<lambda>(k, v). k @ CHR ''='' # percent_encode keep v)"

fun form_text :: "(char \<Rightarrow> bool) \<Rightarrow> (string \<times> string) list \<Rightarrow> string" where
  "form_text keep [] = []"
| "form_text keep [f] = form_field keep f"
| "form_text keep (f # fs) = form_field keep f @ CHR ''&'' # form_text keep fs"

definition key_ok :: "string \<Rightarrow> bool" where
  "key_ok k \<longleftrightarrow> {NUL, CHR ''&'', CHR ''=''} \<inter> set k = {}"

lemma percent_encode_chars:
  "form_safe keep \<Longrightarrow> {NUL, CHR ''&'', CHR ''=''} \<inter> set (percent_encode keep v) = {}"
proof (induction v)
  case (Cons c v)
  have lt: "of_char c div 16 < (16 :: nat)" "of_char c mod 16 < (16 :: nat)"
    using nat_of_char_less_256 [of c] by (simp_all add: less_mult_imp_div_less del: nat_of_char_less_256)
  have "keep c \<Longrightarrow> c \<notin> {NUL, CHR ''&'', CHR ''=''}" using Cons.prems by (auto simp: form_safe_def)
  with Cons hex_digit_facts(3) [OF lt(1)] hex_digit_facts(3) [OF lt(2)] show ?case by auto
qed simp

definition form_result :: "(char \<Rightarrow> bool) \<Rightarrow> nat \<Rightarrow> string \<Rightarrow> int + string" where
  "form_result keep sz v = (if sz \<le> length (percent_encode keep v) then Inl (- E2BIG) else Inr v)"

lemma form_field_match:
  assumes "key_ok k" "key_ok key" "length (percent_encode keep v) = m"
  shows "(case memchr (form_field keep (k, v) @ rest) (CHR ''='') (length k + Suc m) of
      None \<Rightarrow> False
    | Some eq \<Rightarrow> length (form_field keep (k, v) @ rest) - length eq = strlen key \<and>
        memcmp (form_field keep (k, v) @ rest) key (strlen key) = 0) \<longleftrightarrow> k = key"
proof -
  let ?f = "form_field keep (k, v) @ rest"
  have "memchr ?f (CHR ''='') (length k + Suc m) = Some (CHR ''='' # percent_encode keep v @ rest)"
    using memchr_at [of "CHR ''=''" k "length k + Suc m" "percent_encode keep v @ rest"] assms(1)
    by (simp add: form_field_def key_ok_def)
  moreover have "memcmp ?f key (length key) = 0 \<longleftrightarrow> k = key" if "length k = length key"
  proof -
    have "memcmp ?f key (length key) = 0 \<longleftrightarrow> take (length key) ?f = take (length key) key"
      by (rule memcmp_0_iff) (use that in \<open>simp_all add: form_field_def\<close>)
    then show ?thesis by (simp add: form_field_def that [symmetric])
  qed
  ultimately show ?thesis using assms(2) by (auto simp: form_field_def key_ok_def)
qed

lemma form_search_field:
  assumes "key_ok k" "key_ok key" "form_safe keep"
  shows "form_search (form_field keep (k, v)) key sz = (if k = key then form_result keep sz v else Inl (- ENOENT))" (is ?one)
    and "form_search (form_field keep (k, v) @ CHR ''&'' # rest) key sz =
      (if k = key then form_result keep sz v else form_search rest key sz)" (is ?more)
proof -
  define m where "m = length (percent_encode keep v)"
  have f: "{NUL, CHR ''&''} \<inter> set (form_field keep (k, v)) = {}" "length (form_field keep (k, v)) = length k + Suc m"
    using assms(1) percent_encode_chars [OF assms(3), of v] by (auto simp: form_field_def key_ok_def m_def)
  have hd: "c0 (form_field keep (k, v) @ r) \<noteq> NUL" for r
    using assms(1) by (cases k) (auto simp: form_field_def key_ok_def)
  have v: "webflash_percent_decode (take (length k + Suc m - length k - 1) (drop (length k + 1) (form_field keep (k, v) @ r))) = Inr v" for r
    using percent_decode_encode [of keep v] assms(3) by (auto simp: form_field_def m_def form_safe_def)
  have r: "form_result keep sz v = (if sz \<le> m then Inl (- E2BIG) else Inr v)" by (simp add: form_result_def m_def)
  have k: "strlen key = length key" using assms(2) by (simp add: key_ok_def)
  have n1: "strchr (form_field keep (k, v)) (CHR ''&'') = None" "strlen (form_field keep (k, v)) = length k + Suc m"
    using f by (simp_all add: strchr_none)
  have n2: "strchr (form_field keep (k, v) @ CHR ''&'' # rest) (CHR ''&'') = Some (CHR ''&'' # rest)"
    using f(1) by (intro strchr_at) auto
  note m = form_field_match [OF assms(1,2) m_def [symmetric]]
  define f1 where "f1 = form_field keep (k, v)"
  define f2 where "f2 = form_field keep (k, v) @ CHR ''&'' # rest"
  show ?one
    using hd [of "[]"] n1 m [of "[]"] v [of "[]"] k f(2) unfolding r append_Nil2 f1_def [symmetric] form_search.simps [of f1]
    by (cases "k = key") (simp_all add: Let_def)
  show ?more
    using hd [of "CHR ''&'' # rest"] n2 m [of "CHR ''&'' # rest"] v [of "CHR ''&'' # rest"] k f(2)
    unfolding r f2_def [symmetric] form_search.simps [of f2]
    by (cases "k = key") (simp_all add: Let_def f2_def)
qed

lemma form_value_text:
  assumes "\<forall>f\<in>set fs. key_ok (fst f)" "key_ok key" "form_safe keep"
  shows "webflash_form_value (form_text keep fs) key sz =
    (case map_of fs key of None \<Rightarrow> Inl (- ENOENT) | Some v \<Rightarrow> form_result keep sz v)"
  unfolding webflash_form_value_def using assms
proof (induction keep fs rule: form_text.induct [case_names nil one more])
  case (nil keep)
  then show ?case by (simp add: form_search.simps [of "[]"])
next
  case (one keep f)
  then show ?case using form_search_field(1) [of "fst f" key keep "snd f" sz] by simp
next
  case (more keep f g fs)
  then show ?case using form_search_field(2) [of "fst f" key keep "snd f" "form_text keep (g # fs)" sz] by simp
qed

text \<open>C33: A submitted form is read back.  Whatever characters the browser escapes, as long as it escapes those
  that have a meaning, looking a key up in the encoded body is a lookup in the list of fields:
  the value comes back decoded, or the caller learns that the key is absent or that the
  encoded value does not fit the buffer.\<close>

theorem form_value_roundtrip:
  assumes "\<forall>f\<in>set fs. key_ok (fst f)" "key_ok key" "form_safe keep"
  shows "webflash_form_value (form_text keep fs) key sz =
    (case map_of fs key of
       None \<Rightarrow> Inl (- ENOENT)
     | Some v \<Rightarrow> if sz \<le> length (percent_encode keep v) then Inl (- E2BIG) else Inr v)"
  unfolding form_value_text [OF assms] form_result_def ..

definition unreserved :: "char \<Rightarrow> bool" where
  "unreserved c \<longleftrightarrow> c \<in> set ''abcdefghijklmnopqrstuvwxyz0123456789.-_''"

theorem form_value_roundtrip_witness:
  "form_text unreserved [(''ipaddr'', ''10.0.0.1''), (''note'', ''a&b=c d'')] = ''ipaddr=10.0.0.1&note=a%26b%3Dc+d'' \<and>
   webflash_form_value (form_text unreserved [(''ipaddr'', ''10.0.0.1''), (''note'', ''a&b=c d'')]) ''note'' 24 = Inr ''a&b=c d''"
proof -
  let ?fs = "[(''ipaddr'', ''10.0.0.1''), (''note'', ''a&b=c d'')]"
  have k: "\<forall>f\<in>set ?fs. key_ok (fst f)" "key_ok ''note''" by (simp_all add: key_ok_def)
  have s: "form_safe unreserved" by (simp add: form_safe_def unreserved_def)
  have t: "form_text unreserved ?fs = ''ipaddr=10.0.0.1&note=a%26b%3Dc+d''" by code_simp
  have l: "length (percent_encode unreserved ''a&b=c d'') = 11" by code_simp
  show ?thesis using form_value_roundtrip [OF k s, of 24] t l by simp
qed

end
