(* ===== verification/Streams.thy ===== *)
theory Streams
  imports FlashRun
begin

text \<open>
  What the client gets.  The interface to TCP is a platform with a log of the payloads
  \<open>tcp_write\<close> has accepted; what is logged together with what is still to be streamed never
  changes while the stream is filled, so the client receives exactly the announced bytes.
\<close>

section \<open>What is sent and what is left\<close>

text \<open>The bytes the stream has still to send, for a flash that reads as \<open>view\<close>.\<close>

definition to_send :: "('c \<Rightarrow> nat \<Rightarrow> byte) \<Rightarrow> ('c, 'w) platform \<Rightarrow> ('c, 'w) webflash_ctx \<Rightarrow> byte list" where
  "to_send view P ctx =
     (if stream_from_flash ctx then mem_bytes (view (flash ctx)) (unat (stream_offset ctx)) (unat (stream_remaining ctx))
      else mem_read P ctx (stream_memory ctx) (unat (stream_remaining ctx)))"

definition transcript ::
    "('c \<Rightarrow> nat \<Rightarrow> byte) \<Rightarrow> ('w \<Rightarrow> byte list) \<Rightarrow> ('c, 'w) platform \<Rightarrow> ('c, 'w) webflash_ctx \<Rightarrow> byte list" where
  "transcript view log P ctx = log (world ctx) @ to_send view P ctx"

text \<open>Why filling stops: everything is handed over, nobody is there, or TCP has no room.\<close>

definition stalled :: "('c, 'w) platform \<Rightarrow> ('c, 'w) webflash_ctx \<Rightarrow> bool" where
  "stalled P ctx \<longleftrightarrow>
     stream_remaining ctx = 0 \<or> client ctx = None \<or>
     (\<exists>pcb. client ctx = Some pcb \<and> (tcp_sndbuf P (world ctx) pcb = 0 \<or>
        (\<exists>w bs. tcp_write P w pcb bs = (ERR_MEM, world ctx))))"

section \<open>The interface\<close>

locale logged_platform = flash_platform ops view ok capacity sector P
  for ops :: "'c dm_spi_flash_ops" and view :: "'c \<Rightarrow> nat \<Rightarrow> byte" and ok :: "'c \<Rightarrow> bool"
    and capacity sector :: "'c \<Rightarrow> nat" and P :: "('c, 'w) platform" +
  fixes log :: "'w \<Rightarrow> byte list"
  assumes write_logs: "tcp_write P w pcb bs = (err, w') \<Longrightarrow> log w' = log w @ (if err = ERR_OK then bs else [])"
    and output_logs: "tcp_output P w pcb = (err, w') \<Longrightarrow> log w' = log w"
    and addressable: "ok c \<Longrightarrow> capacity c \<le> 2 ^ 32"
begin

text \<open>The source of the stream is long enough, and the I/O buffer holds a chunk.\<close>

definition stream_ready :: "('c, 'w) webflash_ctx \<Rightarrow> bool" where
  "stream_ready ctx \<longleftrightarrow>
     ok (flash ctx) \<and> 1024 \<le> length (io_buf ctx) \<and>
     (if stream_from_flash ctx then unat (stream_offset ctx) + unat (stream_remaining ctx) \<le> capacity (flash ctx)
      else length (to_send view P ctx) = unat (stream_remaining ctx))"

end

lemma mem_read_split:
  "length (mem_read P ctx m (n + k)) = n + k \<Longrightarrow>
     mem_read P ctx m (n + k) = mem_read P ctx m n @ mem_read P ctx (mem_add m n) k"
  by (cases m) (simp_all add: take_add bytes_of_def, simp_all add: add.commute)

lemma mem_read_cong: "reply a = reply b \<Longrightarrow> factory_buf a = factory_buf b \<Longrightarrow> mem_read P a m n = mem_read P b m n"
  by (cases m) simp_all

lemma stream_loop_active: "stream_active (snd (stream_loop P ctx)) = stream_active ctx"
proof (induction P ctx rule: stream_loop.induct)
  case (1 P ctx)
  have "stream_turn P ctx = Inl r \<Longrightarrow> stream_active (snd r) = stream_active ctx"
    "stream_turn P ctx = Inr c \<Longrightarrow> stream_active c = stream_active ctx" for r c
    by (auto simp: stream_turn_def flash_read_io_def Let_def split: if_splits option.splits prod.splits)
  with 1 show ?case by (subst stream_loop.simps) (auto split: sum.splits)
qed

context logged_platform
begin

text \<open>A payload taken from the stream is what the stream has to send next.\<close>

definition payload :: "('c, 'w) webflash_ctx \<Rightarrow> nat \<Rightarrow> byte list" where
  "payload ctx n = (if stream_from_flash ctx then mem_bytes (view (flash ctx)) (unat (stream_offset ctx)) n
     else mem_read P ctx (stream_memory ctx) n)"

definition advance :: "('c, 'w) webflash_ctx \<Rightarrow> u16 \<Rightarrow> ('c, 'w) webflash_ctx" where
  "advance ctx len =
     (if stream_from_flash ctx then ctx\<lparr>stream_offset := stream_offset ctx + ucast len\<rparr>
      else ctx\<lparr>stream_memory := mem_add (stream_memory ctx) (unat len)\<rparr>)
        \<lparr>stream_remaining := stream_remaining ctx - ucast len\<rparr>"

lemma advance_ok:
  assumes "stream_ready ctx" "unat len \<le> unat (stream_remaining ctx)"
  shows "to_send view P ctx = payload ctx (unat len) @ to_send view P (advance ctx len)" "stream_ready (advance ctx len)"
proof -
  define k where "k = unat (stream_remaining ctx) - unat len"
  have rk: "unat (stream_remaining ctx) = unat len + k" using assms(2) by (simp add: k_def)
  have r: "unat (stream_remaining ctx - ucast len) = k"
    unfolding k_def using assms(2) by (subst unat_sub_no_wrap) (simp_all add: u32_le_iff)
  have "to_send view P ctx = payload ctx (unat len) @ to_send view P (advance ctx len) \<and> stream_ready (advance ctx len)"
  proof (cases "stream_from_flash ctx")
    case True
    have cap: "unat (stream_offset ctx) + (unat len + k) \<le> capacity (flash ctx)" "ok (flash ctx)"
      using assms(1) True rk by (simp_all add: stream_ready_def)
    have off: "unat (stream_offset ctx + ucast len) = unat (stream_offset ctx) + unat len" if "k \<noteq> 0"
      using cap(1) addressable [OF cap(2)] that by (subst unat_add_no_wrap) simp_all
    have le: "unat (stream_offset ctx + ucast len) \<le> unat (stream_offset ctx) + unat len"
      by (simp add: unat_word_ariths)
    have s: "to_send view P (advance ctx len) = mem_bytes (view (flash ctx)) (unat (stream_offset ctx) + unat len) k"
      using True off r by (cases "k = 0") (simp_all add: to_send_def advance_def)
    have "stream_ready (advance ctx len)"
      using assms(1) True off r cap le by (cases "k = 0") (simp_all add: stream_ready_def advance_def)
    moreover have "to_send view P ctx = payload ctx (unat len) @ to_send view P (advance ctx len)"
      unfolding s using True rk by (simp add: to_send_def payload_def mem_bytes_add)
    ultimately show ?thesis by blast
  next
    case False
    have len: "length (mem_read P ctx (stream_memory ctx) (unat len + k)) = unat len + k"
      using assms(1) False rk by (simp add: stream_ready_def to_send_def)
    have s: "to_send view P (advance ctx len) = mem_read P ctx (mem_add (stream_memory ctx) (unat len)) k"
    proof -
      have "to_send view P (advance ctx len) = mem_read P (advance ctx len) (mem_add (stream_memory ctx) (unat len)) k"
        using False r by (simp add: to_send_def advance_def)
      also have "\<dots> = mem_read P ctx (mem_add (stream_memory ctx) (unat len)) k"
        by (rule mem_read_cong) (simp_all add: advance_def)
      finally show ?thesis .
    qed
    have eq: "to_send view P ctx = payload ctx (unat len) @ to_send view P (advance ctx len)"
      unfolding s using mem_read_split [OF len] False rk by (simp add: to_send_def payload_def)
    have "length (payload ctx (unat len)) \<le> unat len" using False by (cases "stream_memory ctx") (simp_all add: payload_def)
    moreover have "length (to_send view P (advance ctx len)) \<le> k" unfolding s by (cases "stream_memory ctx") simp_all
    ultimately have "length (to_send view P (advance ctx len)) = k"
      using arg_cong [OF eq, of length] len False rk by (simp add: to_send_def)
    moreover have "\<not> stream_from_flash (advance ctx len)" "unat (stream_remaining (advance ctx len)) = k"
      using False r by (simp_all add: advance_def)
    ultimately have "stream_ready (advance ctx len)"
      using assms(1) False unfolding stream_ready_def by (simp add: advance_def)
    with eq show ?thesis by blast
  qed
  then show "to_send view P ctx = payload ctx (unat len) @ to_send view P (advance ctx len)" "stream_ready (advance ctx len)" by blast+
qed

lemma ready_frame:
  assumes "flash b = flash a" "io_buf b = io_buf a" "stream_from_flash b = stream_from_flash a"
    "stream_offset b = stream_offset a" "stream_remaining b = stream_remaining a" "stream_memory b = stream_memory a"
    "reply b = reply a" "factory_buf b = factory_buf a"
  shows "to_send view P b = to_send view P a" "stream_ready b = stream_ready a"
  using assms mem_read_cong [of b a P] by (simp_all add: to_send_def stream_ready_def)

lemma fetch_payload:
  assumes "stream_ready ctx" "unat (len :: u16) \<le> unat (stream_remaining ctx)" "unat len \<le> 1024"
  obtains c1 where
    "(if stream_from_flash ctx then flash_read_io P ctx (stream_offset ctx) (ucast len) else (0, ctx)) = (0, c1)"
    "(if stream_from_flash c1 then take (unat len) (io_buf c1) else mem_read P c1 (stream_memory c1) (unat len)) =
      payload ctx (unat len)"
    "transcript view log P c1 = transcript view log P ctx" "stream_ready c1" "payload c1 (unat len) = payload ctx (unat len)"
    "world c1 = world ctx" "client c1 = client ctx" "stream_remaining c1 = stream_remaining ctx"
proof (cases "stream_from_flash ctx")
  case False
  then show ?thesis using that [of ctx] assms(1) by (simp add: payload_def)
next
  case True
  have cap: "ok (flash ctx)" "unat (stream_offset ctx) + unat (ucast len :: u32) \<le> capacity (flash ctx)"
    "unat (ucast len :: u32) = unat len"
    using assms(1,2) True by (simp_all add: stream_ready_def)
  from read_ok [OF cap(1,2)] obtain c' where
    r: "sf_read (sf_ops P) (flash ctx) (stream_offset ctx) (ucast len) =
        (0, mem_bytes (view (flash ctx)) (unat (stream_offset ctx)) (unat len), c')"
      "view c' = view (flash ctx)" "ok c'" "capacity c' = capacity (flash ctx)"
    unfolding platform_ops cap(3) by blast
  let ?c = "ctx\<lparr>flash := c', io_buf := buf_put (io_buf ctx) (mem_bytes (view (flash ctx)) (unat (stream_offset ctx)) (unat len))\<rparr>"
  show ?thesis
    by (rule that [of ?c])
      (use True r assms(1,3) in \<open>simp_all add: flash_read_io_def payload_def transcript_def to_send_def stream_ready_def\<close>)
qed

text \<open>
  A turn that goes on has handed over the next payload; one that leaves the loop has handed
  over nothing.
\<close>

lemma stream_turn_outcome:
  assumes "stream_ready ctx"
  shows "case stream_turn P ctx of
      Inl (ret, ctx') \<Rightarrow> transcript view log P ctx' = transcript view log P ctx \<and> stream_ready ctx' \<and>
        (ret = 0 \<longrightarrow> stalled P ctx')
    | Inr ctx' \<Rightarrow> transcript view log P ctx' = transcript view log P ctx \<and> stream_ready ctx'"
proof -
  consider "stream_remaining ctx = 0" | "stream_remaining ctx \<noteq> 0" "client ctx = None"
    | pcb where "stream_remaining ctx \<noteq> 0" "client ctx = Some pcb" "tcp_sndbuf P (world ctx) pcb = 0"
    | pcb where "stream_remaining ctx \<noteq> 0" "client ctx = Some pcb" "tcp_sndbuf P (world ctx) pcb \<noteq> 0" by blast
  then show ?thesis
  proof cases
    case 1
    with assms show ?thesis by (simp add: stream_turn_def stalled_def)
  next
    case 2
    with assms ready_frame [of "ctx\<lparr>faulted := True\<rparr>" ctx] show ?thesis by (simp add: stream_turn_def transcript_def stalled_def)
  next
    case 3
    with assms show ?thesis by (simp add: stream_turn_def stalled_def)
  next
    case (4 pcb)
    define len where "len = stream_len (stream_remaining ctx) (tcp_sndbuf P (world ctx) pcb)"
    have len: "unat len \<le> unat (stream_remaining ctx)" "unat len \<le> 1024"
      using stream_len_bounds [OF 4(1,3)] by (simp_all add: len_def)
    obtain c1 where r: "(if stream_from_flash ctx then flash_read_io P ctx (stream_offset ctx) (ucast len) else (0, ctx)) = (0, c1)"
      and c1: "(if stream_from_flash c1 then take (unat len) (io_buf c1) else mem_read P c1 (stream_memory c1) (unat len)) =
          payload ctx (unat len)"
        "transcript view log P c1 = transcript view log P ctx" "stream_ready c1" "payload c1 (unat len) = payload ctx (unat len)"
        "world c1 = world ctx" "client c1 = client ctx" "stream_remaining c1 = stream_remaining ctx"
      by (rule fetch_payload [OF assms len])
    obtain err w where w: "tcp_write P (world ctx) pcb (payload ctx (unat len)) = (err, w)" by fastforce
    define c2 where "c2 = c1\<lparr>world := w\<rparr>"
    have f2: "to_send view P c2 = to_send view P c1" "stream_ready c2" using ready_frame [of c2 c1] c1(3) by (simp_all add: c2_def)
    have p2: "payload c2 n = payload c1 n" for n using mem_read_cong [of c2 c1 P] by (simp add: payload_def c2_def)
    have adv: "(if stream_from_flash c2 then c2\<lparr>stream_offset := stream_offset c2 + ucast len\<rparr>
        else c2\<lparr>stream_memory := mem_add (stream_memory c2) (unat len)\<rparr>)\<lparr>stream_remaining := stream_remaining c2 - ucast len\<rparr> =
        advance c2 len" by (simp add: advance_def)
    have turn: "stream_turn P ctx = (if err = ERR_MEM then Inl (0, c2) else if err \<noteq> ERR_OK then Inl (- EIO, c2) else Inr (advance c2 len))"
      unfolding stream_turn_def using 4 r c1(1,5,7) w
      by (simp add: Let_def len_def [symmetric] c2_def advance_def)
    have lw: "log w = log (world c1) @ (if err = ERR_OK then payload c1 (unat len) else [])"
      using write_logs [OF w] c1(4,5) by simp
    have le: "unat len \<le> unat (stream_remaining c2)" using len(1) c1(7) by (simp add: c2_def)
    note a = advance_ok [OF f2(2) le]
    have aw: "world (advance c2 len) = w" by (simp add: advance_def c2_def)
    have "transcript view log P (advance c2 len) = transcript view log P ctx" if "err = ERR_OK"
      using a(1) f2(1) p2 lw that c1(2) aw by (simp add: transcript_def)
    moreover have "transcript view log P c2 = transcript view log P ctx" if "err \<noteq> ERR_OK"
      using f2(1) lw that c1(2) by (simp add: transcript_def c2_def)
    moreover have "client c2 = Some pcb" "world c2 = w" using 4(2) c1(6) by (simp_all add: c2_def)
    ultimately show ?thesis unfolding turn stalled_def using w f2(2) a(2) by auto
  qed
qed

lemma stream_loop_outcome:
  assumes "stream_ready ctx" "stream_loop P ctx = (ret, ctx')"
  shows "transcript view log P ctx' = transcript view log P ctx \<and> stream_ready ctx' \<and> (ret = 0 \<longrightarrow> stalled P ctx')"
  using assms
proof (induction "unat (stream_remaining ctx)" arbitrary: ctx rule: less_induct)
  case less
  note o = stream_turn_outcome [OF less.prems(1)]
  show ?case
  proof (cases "stream_turn P ctx")
    case (Inl r)
    then have "r = (ret, ctx')" using less.prems(2) by (simp add: stream_loop.simps [of P ctx])
    with o Inl show ?thesis by simp
  next
    case (Inr c)
    with less.prems(2) have "stream_loop P c = (ret, ctx')" by (simp add: stream_loop.simps [of P ctx])
    with less.hyps [OF stream_turn_remaining [OF Inr]] o Inr show ?thesis by simp
  qed
qed

lemma stream_fill_outcome:
  assumes "stream_ready ctx" "webflash_stream_fill P ctx = (ret, ctx')"
  shows "transcript view log P ctx' = transcript view log P ctx \<and> stream_ready ctx' \<and>
    (ret = 0 \<longrightarrow> stalled P ctx' \<and> (stream_active ctx \<longrightarrow> stream_active ctx' = (stream_remaining ctx' \<noteq> 0)))"
proof -
  obtain r c where l: "stream_loop P ctx = (r, c)" by fastforce
  note o = stream_loop_outcome [OF assms(1) l]
  have act: "stream_active c = stream_active ctx" using stream_loop_active [of P ctx] l by simp
  have c': "ret = r" "ctx' = (if r = 0 \<and> stream_remaining c = 0 then c\<lparr>stream_active := False\<rparr> else c)"
    using assms(2) l by (auto simp: webflash_stream_fill_def split: if_splits)
  have "to_send view P ctx' = to_send view P c" "stream_ready ctx' = stream_ready c" "world ctx' = world c" "stalled P ctx' = stalled P c"
    "stream_remaining ctx' = stream_remaining c"
    using ready_frame [of ctx' c] unfolding c'(2) by (simp_all add: stalled_def)
  with o act c' show ?thesis by (auto simp: transcript_def)
qed

text \<open>A reply and a backup start a transcript: their header, then their text or the flash.\<close>

lemma reply_outcome:
  assumes "webflash_reply P ctx status ctype text = (0, ctx')" "ok (flash ctx)" "1024 \<le> length (io_buf ctx)"
    and "text = Reply_buf 0 \<or> text = Index_html 0"
  shows "transcript view log P ctx' = log (world ctx) @
      bytes_of (reply_header status ctype (strlen (mem_string P ctx text)) @ cstr (mem_string P ctx text)) \<and> stream_ready ctx'"
proof -
  let ?s = "mem_string P ctx text"
  define len where "len = strlen ?s"
  define hdr where "hdr = reply_header status ctype len"
  obtain pcb w ret c2 w2 where
    c: "client ctx = Some pcb" "tcp_write P (world ctx) pcb (bytes_of hdr) = (ERR_OK, w)" "len \<le> 65535"
    and f: "webflash_stream_fill P (ctx\<lparr>world := w, rx_state := WEBFLASH_RX_REPLIED, reply_pending := of_nat (length hdr + len),
        output_pending := False, close_pending := False, stream_memory := text, stream_remaining := of_nat len,
        stream_from_flash := False, stream_active := (len \<noteq> 0)\<rparr>) = (ret, c2)" (is "webflash_stream_fill P ?c = _")
    and o: "log w2 = log (world c2)" "ctx' = c2\<lparr>world := w2\<rparr> \<or> ctx' = c2\<lparr>world := w2, output_pending := True\<rparr>"
    using assms(1) output_logs
    by (fastforce simp: webflash_reply_def len_def [symmetric] hdr_def [symmetric] Let_def
        split: option.splits if_splits prod.splits)
  have u: "unat (of_nat len :: u32) = len" using c(3) by (simp add: unsigned_of_nat take_bit_nat_eq_self)
  have tk: "take (strlen s) s = cstr s" for s by (induction s) auto
  have m: "mem_read P ?c text len = bytes_of (cstr ?s)" using assms(4) tk by (auto simp: len_def)
  have s: "to_send view P ?c = bytes_of (cstr ?s)" using u m by (simp add: to_send_def)
  have "stream_ready ?c" using assms(2,3) s u by (simp add: stream_ready_def len_def strlen_cstr)
  from stream_fill_outcome [OF this f] have t: "transcript view log P c2 = log w @ bytes_of (cstr ?s)" "stream_ready c2"
    using s by (simp_all add: transcript_def)
  have "to_send view P ctx' = to_send view P c2" "stream_ready ctx' = stream_ready c2" "log (world ctx') = log (world c2)"
    using ready_frame [of ctx' c2] o by auto
  with t write_logs [OF c(2)] show ?thesis by (simp add: transcript_def hdr_def len_def bytes_of_def)
qed

lemma download_outcome:
  assumes "download_range P ctx off sz filename = (0, ctx')" "client ctx \<noteq> None" "ok (flash ctx)" "1024 \<le> length (io_buf ctx)"
    and "unat off + unat sz \<le> capacity (flash ctx)"
  shows "transcript view log P ctx' = log (world ctx) @ bytes_of (download_header filename (unat sz)) @
      mem_bytes (view (flash ctx)) (unat off) (unat sz) \<and> stream_ready ctx'"
proof -
  define hdr where "hdr = download_header filename (unat sz)"
  obtain pcb w ret c2 w2 where
    c: "client ctx = Some pcb" "tcp_write P (world ctx) pcb (bytes_of hdr) = (ERR_OK, w)"
    and f: "webflash_stream_fill P (ctx\<lparr>world := w, rx_state := WEBFLASH_RX_REPLIED, reply_pending := of_nat (length hdr) + sz,
        stream_offset := off, stream_remaining := sz, stream_memory := Null, stream_from_flash := True, stream_active := True,
        output_pending := False, close_pending := False\<rparr>) = (ret, c2)" (is "webflash_stream_fill P ?c = _")
    and o: "log w2 = log (world c2)" "ctx' = c2\<lparr>world := w2\<rparr> \<or> ctx' = c2\<lparr>world := w2, output_pending := True\<rparr>"
    using assms(1,2) output_logs
    by (fastforce simp: download_range_def hdr_def [symmetric] Let_def split: option.splits if_splits prod.splits)
  have s: "to_send view P ?c = mem_bytes (view (flash ctx)) (unat off) (unat sz)" by (simp add: to_send_def)
  have "stream_ready ?c" using assms(3-5) by (simp add: stream_ready_def)
  from stream_fill_outcome [OF this f] have
    t: "transcript view log P c2 = log w @ mem_bytes (view (flash ctx)) (unat off) (unat sz)" "stream_ready c2"
    using s by (simp_all add: transcript_def)
  have "to_send view P ctx' = to_send view P c2" "stream_ready ctx' = stream_ready c2" "log (world ctx') = log (world c2)"
    using ready_frame [of ctx' c2] o by auto
  with t write_logs [OF c(2)] show ?thesis by (simp add: transcript_def hdr_def)
qed

end

section \<open>Every platform with a log\<close>

text \<open>
  Any platform, beside whose world a list keeps the payloads that \<open>tcp_write\<close> has accepted.
\<close>

definition recorded :: "('c, 'w) platform \<Rightarrow> ('c, 'w \<times> byte list) platform" where
  "recorded P =
     \<lparr>sf_ops = sf_ops P, sf_size = sf_size P, sf_sector_size = sf_sector_size P,
      tcp_sndbuf = (\<lambda>(w, l) pcb. tcp_sndbuf P w pcb),
      tcp_write = (\<lambda>(w, l) pcb bs. let (err, w) = tcp_write P w pcb bs in (err, w, if err = ERR_OK then l @ bs else l)),
      tcp_output = (\<lambda>(w, l) pcb. let (err, w) = tcp_output P w pcb in (err, w, l)),
      tcp_close = (\<lambda>(w, l) pcb. let (err, w) = tcp_close P w pcb in (err, w, l)),
      tcp_abort = (\<lambda>(w, l) pcb. (tcp_abort P w pcb, l)), tcp_recved = (\<lambda>(w, l) pcb n. (tcp_recved P w pcb n, l)),
      tcp_arg = (\<lambda>(w, l) pcb b. (tcp_arg P w pcb b, l)), tcp_recv = (\<lambda>(w, l) pcb b. (tcp_recv P w pcb b, l)),
      tcp_sent = (\<lambda>(w, l) pcb b. (tcp_sent P w pcb b, l)), tcp_err = (\<lambda>(w, l) pcb b. (tcp_err P w pcb b, l)),
      tcp_poll = (\<lambda>(w, l) pcb b n. (tcp_poll P w pcb b n, l)), tcp_accept = (\<lambda>(w, l) pcb b. (tcp_accept P w pcb b, l)),
      tcp_setprio_min = (\<lambda>(w, l) pcb. (tcp_setprio_min P w pcb, l)),
      tcp_nagle_disable = (\<lambda>(w, l) pcb. (tcp_nagle_disable P w pcb, l)),
      tcp_new = (\<lambda>(w, l). let (r, w) = tcp_new P w in (r, w, l)),
      tcp_bind = (\<lambda>(w, l) pcb port. let (err, w) = tcp_bind P w pcb port in (err, w, l)),
      tcp_listen_with_backlog = (\<lambda>(w, l) pcb n. let (r, w) = tcp_listen_with_backlog P w pcb n in (r, w, l)),
      env_get = (\<lambda>(w, l) k. env_get P w k),
      env_set = (\<lambda>(w, l) k v. let (r, w) = env_set P w k v in (r, w, l)),
      env_save = (\<lambda>(w, l) c. let (r, w, c) = env_save P w c in (r, (w, l), c)),
      env_set_default = (\<lambda>(w, l). (env_set_default P w, l)), ram_base = ram_base P, ram_size = ram_size P,
      webflash_index_html = webflash_index_html P, version_string = version_string P\<rparr>"

interpretation rec: logged_platform spi_flash_std_ops array spi_ok mtd_size erasesize "recorded (with_spi_nor P)" snd for P
proof
  show "sf_ops (recorded (with_spi_nor P)) = spi_flash_std_ops" by (simp add: recorded_def with_spi_nor_def)
  show "unat (sf_sector_size (recorded (with_spi_nor P)) c) = erasesize c" if "spi_ok c" for c
    using spi_sector [OF that, of P] by (simp add: recorded_def)
  show "mtd_size c \<le> 2 ^ 32" if "spi_ok c" for c using that by (simp add: spi_ok_def spi_mid_def spi_geometry_def)
qed (auto simp: recorded_def split: prod.splits if_splits)

lemma fill_without_client:
  "client ctx = None \<Longrightarrow> stream_remaining ctx \<noteq> 0 \<Longrightarrow> webflash_stream_fill P ctx = (0, ctx\<lparr>faulted := True\<rparr>)"
  by (simp add: webflash_stream_fill_def stream_loop.simps [of P ctx] stream_turn_def)

text \<open>C23: Streaming neither loses, repeats nor reorders a byte.  Filling TCP's send buffer from the flash or from
  memory keeps what has been handed over followed by what is left to send, whatever TCP accepts
  or refuses.  With a client, when it returns 0 it has stopped because nothing is left, TCP has no room, or
  TCP refused a piece for lack of memory; without a client and with bytes left it asks a null
  connection for its send buffer.\<close>

theorem stream_fill_delivers:
  assumes "webflash_stream_fill (recorded (with_spi_nor P)) ctx = (ret, ctx')" "spi_ok (flash ctx)" "1024 \<le> length (io_buf ctx)"
    and "stream_from_flash ctx \<Longrightarrow> unat (stream_offset ctx) + unat (stream_remaining ctx) \<le> mtd_size (flash ctx)"
    and "\<not> stream_from_flash ctx \<Longrightarrow>
      length (to_send array (recorded (with_spi_nor P)) ctx) = unat (stream_remaining ctx)"
  shows "snd (world ctx') @ to_send array (recorded (with_spi_nor P)) ctx' =
      snd (world ctx) @ to_send array (recorded (with_spi_nor P)) ctx \<and>
    (case client ctx of
       None \<Rightarrow> stream_remaining ctx = 0 \<or> faulted ctx'
     | Some pcb \<Rightarrow> ret \<noteq> 0 \<or> stream_remaining ctx' = 0 \<or> tcp_sndbuf (recorded (with_spi_nor P)) (world ctx') pcb = 0 \<or>
         (\<exists>w bs. tcp_write (recorded (with_spi_nor P)) w pcb bs = (ERR_MEM, world ctx')))"
proof -
  have "rec.stream_ready P ctx" using assms(2-5) by (simp add: rec.stream_ready_def)
  from rec.stream_fill_outcome [OF this assms(1)]
  have t: "snd (world ctx') @ to_send array (recorded (with_spi_nor P)) ctx' = snd (world ctx) @ to_send array (recorded (with_spi_nor P)) ctx"
    and s: "ret = 0 \<Longrightarrow> stalled (recorded (with_spi_nor P)) ctx'" by (simp_all add: transcript_def)
  have c: "client ctx' = client ctx" using fill_frame(5) [of "recorded (with_spi_nor P)" ctx] assms(1) by simp
  have f: "faulted ctx'" if "client ctx = None" "stream_remaining ctx \<noteq> 0"
    using assms(1) fill_without_client [OF that, of "recorded (with_spi_nor P)"] by auto
  from t s c f show ?thesis by (auto simp: stalled_def split: option.splits)
qed

text \<open>C24: A backup is the partition.  When the request for a backup is answered, what the client has been sent
  followed by what is left to send is the header, announcing the size of the partition, and the
  contents of the flash there.\<close>

theorem backup_delivers:
  assumes "webflash_start_download (recorded (with_spi_nor P)) ctx name = (0, ctx')" "client ctx \<noteq> None"
    and "spi_ok (flash ctx)" "0x2000000 \<le> mtd_size (flash ctx)" "1024 \<le> length (io_buf ctx)"
    and "webflash_partition_find name = Some p" "strcmp name ''fullflash'' \<noteq> 0"
  shows "snd (world ctx') @ to_send array (recorded (with_spi_nor P)) ctx' =
    snd (world ctx) @ bytes_of (download_header (p_filename p) (unat (p_size p))) @
    mem_bytes (array (flash ctx)) (unat (p_offset p)) (unat (p_size p))"
proof -
  have "p \<in> set all_partitions" using assms(6) by (rule partition_find_member)
  then have "unat (p_offset p) + unat (p_size p) \<le> 0x2000000"
    by (auto simp: all_partitions_def webflash_partitions_def webflash_eeprom_partition_def webflash_ram_partition_def)
  moreover have "download_range (recorded (with_spi_nor P)) ctx (p_offset p) (p_size p) (p_filename p) = (0, ctx')"
    using assms(1,6,7) by (auto simp: webflash_start_download_def split: if_splits)
  ultimately show ?thesis
    using rec.download_outcome [OF _ assms(2,3,5)] assms(4) by (fastforce simp: transcript_def)
qed

text \<open>C25: A reply arrives whole: status line and headers with the length of the text, then the text.\<close>

theorem reply_delivers:
  assumes "webflash_reply (recorded (with_spi_nor P)) ctx status ctype text = (0, ctx')"
    and "spi_ok (flash ctx)" "1024 \<le> length (io_buf ctx)" "text = Reply_buf 0 \<or> text = Index_html 0"
  shows "let s = mem_string (recorded (with_spi_nor P)) ctx text
    in snd (world ctx') @ to_send array (recorded (with_spi_nor P)) ctx' =
       snd (world ctx) @ bytes_of (reply_header status ctype (strlen s) @ cstr s)"
  using rec.reply_outcome [OF assms] by (simp add: Let_def transcript_def)

end
