(* ===== verification/Settings.thy ===== *)
theory Settings
  imports WebflashServer Forms
begin

text \<open>
  The settings page from the form to the environment: dotted addresses are read back as the
  numbers they print, and a form with proper values sets exactly these variables.
\<close>

section \<open>Dotted addresses\<close>

lemma digit_char_facts:
  assumes "d < 10"
  shows "lwip_isdigit (digit_char d)" "of_char (digit_char d) = 48 + d"
  using assms by (simp_all add: digit_char_def lwip_isdigit_def Let_def)

lemma number_isdigit: "c \<in> set (number 10 n) \<Longrightarrow> lwip_isdigit c"
proof (induction "10 :: nat" n rule: number.induct)
  case (1 n)
  show ?case
  proof (cases "n < 10")
    case True
    with 1 have "c = digit_char n" by (subst (asm) number.simps) simp
    with True show ?thesis by (simp add: digit_char_facts)
  next
    case False
    with 1 have "c \<in> set (number 10 (n div 10)) \<or> c = digit_char (n mod 10)" by (subst (asm) (2) number.simps) auto
    with 1 False show ?thesis by (auto simp: digit_char_facts)
  qed
qed

lemma aton_num_append:
  "\<forall>c\<in>set s. lwip_isdigit c \<Longrightarrow> aton_num 10 v (s @ t) = aton_num 10 (fst (aton_num 10 v s)) t"
  by (induction s arbitrary: v) auto

lemma aton_num_number: "fst (aton_num 10 0 (number 10 n)) = of_nat n"
proof (induction "10 :: nat" n rule: number.induct)
  case (1 n)
  show ?case
  proof (cases "n < 10")
    case True
    then show ?thesis by (subst number.simps) (simp add: digit_char_facts)
  next
    case False
    have "of_nat (n div 10) * 10 + of_nat (n mod 10) = (of_nat n :: u32)"
      by (metis div_mult_mod_eq of_nat_add of_nat_mult of_nat_numeral)
    with 1 False show ?thesis
      by (subst number.simps) (simp add: aton_num_append number_isdigit digit_char_facts)
  qed
qed

text \<open>One number of the text, and what is left after it.\<close>

lemma aton_number:
  assumes "\<not> lwip_isdigit (c0 rest)" "c0 rest \<noteq> CHR ''x''" "c0 rest \<noteq> CHR ''X''"
  shows "lwip_isdigit (c0 (fmt_u n @ rest))"
    and "aton_num (fst (aton_base (fmt_u n @ rest))) 0 (snd (aton_base (fmt_u n @ rest))) = (of_nat n, rest)"
proof -
  obtain c s where cs: "fmt_u n = c # s" using number_ne [of 10 n] by (cases "fmt_u n") (auto simp: fmt_u_def)
  then have "lwip_isdigit c" using number_isdigit [of c n] by (simp add: fmt_u_def)
  with cs show "lwip_isdigit (c0 (fmt_u n @ rest))" by simp
  have stop: "aton_num b v rest = (v, rest)" if "b \<noteq> 16" for b v
    using assms(1) that by (cases rest) auto
  show "aton_num (fst (aton_base (fmt_u n @ rest))) 0 (snd (aton_base (fmt_u n @ rest))) = (of_nat n, rest)"
  proof (cases "n = 0")
    case True
    have "fmt_u 0 = ''0''" by code_simp
    with True have "fmt_u n = ''0''" by simp
    then show ?thesis using assms(2,3) stop True by (simp add: aton_base_def)
  next
    case False
    then have "c \<noteq> CHR ''0''" using hd_number [of 10 n] cs by (simp add: fmt_u_def)
    then have "aton_base (fmt_u n @ rest) = (10, fmt_u n @ rest)" using cs by (simp add: aton_base_def)
    then show ?thesis using aton_num_append [of "fmt_u n" 0 rest] aton_num_number [of n] number_isdigit stop
      by (simp add: fmt_u_def)
  qed
qed

definition dotted :: "nat \<Rightarrow> nat \<Rightarrow> nat \<Rightarrow> nat \<Rightarrow> string" where
  "dotted a b c d = fmt_u a @ ''.'' @ fmt_u b @ ''.'' @ fmt_u c @ ''.'' @ fmt_u d"

lemma aton_parts_dot:
  "length parts < 3 \<Longrightarrow> aton_parts parts (fmt_u n @ CHR ''.'' # rest) = aton_parts (parts @ [of_nat n]) rest"
proof -
  assume "length parts < 3"
  moreover have "\<not> lwip_isdigit (CHR ''.'')" by code_simp
  ultimately show ?thesis
    using aton_number [of "CHR ''.'' # rest" n] by (subst aton_parts.simps) (simp add: Let_def)
qed

lemma or_bytes:
  assumes "a < 256" "b < 256" "c < 256" "d < 256"
  shows "of_nat d OR push_bit 24 (of_nat a) OR push_bit 16 (of_nat b) OR push_bit 8 (of_nat c) =
    (of_nat (((a * 256 + b) * 256 + c) * 256 + d) :: u32)"
proof -
  have byte: "n < 8" if "bit (of_nat k :: u32) n" "k < 256" for k n
  proof -
    have "take_bit 8 (of_nat k :: u32) = of_nat k"
      using that(2) take_bit_of_nat [of 8 k, where 'a = u32] by (simp add: take_bit_nat_eq_self)
    with that(1) have "bit (take_bit 8 (of_nat k :: u32)) n" by simp
    then show ?thesis by (simp add: bit_take_bit_iff)
  qed
  have 1: "of_nat d + push_bit 8 (of_nat c) = of_nat d OR push_bit 8 (of_nat c :: u32)"
    by (rule disjunctive_add_eq_or, rule bit_eqI) (use byte assms in \<open>fastforce simp: bit_simps\<close>)
  have 2: "(of_nat d OR push_bit 8 (of_nat c)) + push_bit 16 (of_nat b) =
      of_nat d OR push_bit 8 (of_nat c) OR push_bit 16 (of_nat b :: u32)"
    by (subst disjunctive_add_eq_or, rule bit_eqI) (use byte assms in \<open>fastforce simp: bit_simps or.assoc\<close>)+
  have 3: "(of_nat d OR push_bit 8 (of_nat c) OR push_bit 16 (of_nat b)) + push_bit 24 (of_nat a) =
      of_nat d OR push_bit 8 (of_nat c) OR push_bit 16 (of_nat b) OR push_bit 24 (of_nat a :: u32)"
    by (subst disjunctive_add_eq_or, rule bit_eqI) (use byte assms in \<open>fastforce simp: bit_simps or.assoc\<close>)+
  have "of_nat d OR push_bit 24 (of_nat a) OR push_bit 16 (of_nat b) OR push_bit 8 (of_nat c) =
      of_nat d OR push_bit 8 (of_nat c) OR push_bit 16 (of_nat b) OR push_bit 24 (of_nat a :: u32)"
    by (simp add: or.commute or.left_commute or.assoc)
  also have "\<dots> = of_nat d + push_bit 8 (of_nat c) + push_bit 16 (of_nat b) + push_bit 24 (of_nat a)"
    by (simp only: 1 2 3)
  also have "\<dots> = of_nat (((a * 256 + b) * 256 + c) * 256 + d)" by (simp add: push_bit_eq_mult algebra_simps)
  finally show ?thesis .
qed

lemma aton_dotted:
  assumes "a < 256" "b < 256" "c < 256" "d < 256"
  shows "ip4addr_aton (dotted a b c d) = Some (lwip_htonl (of_nat (((a * 256 + b) * 256 + c) * 256 + d)))"
proof -
  have "\<not> lwip_isdigit NUL" by code_simp
  then have p: "aton_parts [of_nat a, of_nat b, of_nat c] (fmt_u d) = Some ([of_nat a, of_nat b, of_nat c], of_nat d, [])"
    using aton_number [of "[]" d] by (subst aton_parts.simps) (simp add: Let_def)
  have "aton_parts [] (dotted a b c d) = Some ([of_nat a, of_nat b, of_nat c], of_nat d, [])"
    by (simp add: dotted_def aton_parts_dot p)
  moreover have "\<not> (of_nat k :: u32) > 0xff" if "k < 256" for k
    using that by (simp add: word_less_nat_alt unsigned_of_nat take_bit_nat_eq_self)
  ultimately show ?thesis using assms or_bytes [OF assms] by (simp add: ip4addr_aton_def aton_value_def or.assoc)
qed

text \<open>C30: A dotted address is read back: the text of four numbers below 256 parses to the address they stand for, in
  network order.\<close>

theorem aton_roundtrip:
  assumes "a < 256" "b < 256" "c < 256" "d < 256"
  shows "ip4addr_aton (dotted a b c d) = Some (lwip_htonl (of_nat (((a * 256 + b) * 256 + c) * 256 + d)))"
  by (rule aton_dotted [OF assms])

theorem aton_roundtrip_witness: "ip4addr_aton (dotted 192 168 31 66) = Some (lwip_htonl 0xc0a81f42)"
  using aton_roundtrip [of 192 168 31 66] by simp

section \<open>The settings form\<close>

type_synonym octets = "nat \<times> nat \<times> nat \<times> nat"

definition ip_text :: "octets \<Rightarrow> string" where
  "ip_text = (\<lambda>(a, b, c, d). dotted a b c d)"

definition ip_addr :: "octets \<Rightarrow> u32" where
  "ip_addr = (\<lambda>(a, b, c, d). lwip_htonl (of_nat (((a * 256 + b) * 256 + c) * 256 + d)))"

definition ip_ok :: "octets \<Rightarrow> bool" where
  "ip_ok = (\<lambda>(a, b, c, d). a < 256 \<and> b < 256 \<and> c < 256 \<and> d < 256)"

lemma ip_text_aton: "ip_ok i \<Longrightarrow> ip4addr_aton (ip_text i) = Some (ip_addr i)"
  by (auto simp: ip_ok_def ip_text_def ip_addr_def aton_dotted split: prod.splits)

definition plain :: "char \<Rightarrow> bool" where
  "plain c \<longleftrightarrow> lwip_isdigit c \<or> c = CHR ''.''"

lemma fmt_u_plain: "c \<in> set (fmt_u n) \<Longrightarrow> plain c"
  by (simp add: plain_def fmt_u_def number_isdigit)

lemma ip_text_facts:
  assumes "ip_ok i"
  shows "\<forall>c\<in>set (ip_text i). plain c" "length (ip_text i) < 24" "c0 (ip_text i) \<noteq> NUL"
proof -
  obtain a b c d where i: "i = (a, b, c, d)" by (cases i)
  have l: "length (fmt_u k) \<le> 3" if "k < 256" for k using number_length [of k 3] that by (simp add: fmt_u_def)
  show "\<forall>c\<in>set (ip_text i). plain c" by (auto simp: i ip_text_def dotted_def plain_def fmt_u_def number_isdigit)
  show "length (ip_text i) < 24" using l [of a] l [of b] l [of c] l [of d] assms by (simp add: i ip_text_def dotted_def ip_ok_def)
  have n: "\<not> lwip_isdigit (CHR ''.'')" "\<not> lwip_isdigit NUL" by code_simp+
  then have "lwip_isdigit (c0 (ip_text i))"
    using aton_number(1) [of "CHR ''.'' # fmt_u b @ CHR ''.'' # fmt_u c @ CHR ''.'' # fmt_u d" a]
    by (simp add: i ip_text_def dotted_def)
  with n(2) show "c0 (ip_text i) \<noteq> NUL" by metis
qed

lemma plain_text:
  assumes "\<forall>c\<in>set s. plain c"
  shows "cstr s = s" "(\<And>c. plain c \<Longrightarrow> keep c) \<Longrightarrow> percent_encode keep s = s"
proof -
  have "\<not> plain NUL" by code_simp
  with assms show "cstr s = s" by (intro cstr_id) auto
  show "percent_encode keep s = s" if "\<And>c. plain c \<Longrightarrow> keep c" using assms that by (induction s) auto
qed

lemma bootdelay_number: "d \<le> 30 \<Longrightarrow> bootdelay_accepted (fmt_u d)"
  using strtoul_number [of "[]" d] number_ne [of 10 d, symmetric]
  by (auto simp: bootdelay_accepted_def fmt_u_def word_less_nat_alt unsigned_of_nat take_bit_nat_eq_self)

text \<open>The settings page saves what the form says.  A form with an address, a netmask the validation accepts, an
  optional server address and a boot delay of at most 30, written by any browser that leaves
  digits and dots alone, passes every check and sets exactly these four variables (an empty
  server address removes the variable); the answer says whether the environment was saved.\<close>

theorem settings_form_saves:
  assumes "form_safe keep" "\<And>c. plain c \<Longrightarrow> keep c" "ip_ok ip" "ip_ok nm" "ip4_addr_netmask_valid (ip_addr nm)"
    and "\<And>s. srv = Some s \<Longrightarrow> ip_ok s" "d \<le> 30"
    and "body ctx = form_text keep [(''ipaddr'', ip_text ip), (''netmask'', ip_text nm),
      (''serverip'', case srv of None \<Rightarrow> [] | Some s \<Rightarrow> ip_text s), (''bootdelay'', fmt_u d)]"
  shows "webflash_env_save P ctx =
    (let (ret, c) = env_commit P ctx [(''ipaddr'', Some (ip_text ip)), (''netmask'', Some (ip_text nm)),
           (''serverip'', map_option ip_text srv), (''bootdelay'', Some (fmt_u d))]
     in if ret \<noteq> 0 then (- EIO, webflash_error P c ''500 Internal Server Error'' ''failed to save environment'')
        else webflash_ok P c ''saved; reboot to apply'')"
proof -
  define s where "s = (case srv of None \<Rightarrow> [] | Some s \<Rightarrow> ip_text s)"
  let ?fs = "[(''ipaddr'', ip_text ip), (''netmask'', ip_text nm), (''serverip'', s), (''bootdelay'', fmt_u d)]"
  have keys: "\<forall>f\<in>set ?fs. key_ok (fst f)" "key_ok ''ipaddr''" "key_ok ''netmask''" "key_ok ''serverip''" "key_ok ''bootdelay''"
    by (simp_all add: key_ok_def)
  note fv = form_value_text [OF keys(1) _ assms(1), folded assms(8) [folded s_def]]
  have s: "\<forall>c\<in>set s. plain c" "length s < 24" "c0 s \<noteq> NUL \<longleftrightarrow> srv \<noteq> None" "c0 s \<noteq> NUL \<Longrightarrow> webflash_ipv4_valid s"
    using ip_text_facts assms(6) ip_text_aton by (auto simp: s_def webflash_ipv4_valid_def split: option.splits)
  have d: "\<forall>c\<in>set (fmt_u d). plain c" "length (fmt_u d) < 12"
    using fmt_u_plain number_length [of d 2] assms(7) by (auto simp: fmt_u_def)
  have r: "form_result keep n v = Inr v" if "\<forall>c\<in>set v. plain c" "length v < n" for n v
    using plain_text(2) [OF that(1) assms(2)] that(2) by (simp add: form_result_def)
  have v: "webflash_form_value (body ctx) ''ipaddr'' 24 = Inr (ip_text ip)" "webflash_form_value (body ctx) ''netmask'' 24 = Inr (ip_text nm)"
    "webflash_form_value (body ctx) ''serverip'' 24 = Inr s" "webflash_form_value (body ctx) ''bootdelay'' 12 = Inr (fmt_u d)"
    using fv [OF keys(2)] fv [OF keys(3)] fv [OF keys(4)] fv [OF keys(5)] r ip_text_facts [OF assms(3)] ip_text_facts [OF assms(4)] s d
    by simp_all
  have ok: "webflash_ipv4_valid (ip_text ip)" "netmask_accepted (ip_text nm)" "bootdelay_accepted (fmt_u d)"
    using ip_text_facts(3) [OF assms(3)] ip_text_aton [OF assms(3)] ip_text_aton [OF assms(4)] assms(5) bootdelay_number [OF assms(7)]
    by (simp_all add: webflash_ipv4_valid_def netmask_accepted_def)
  have c: "cstr (ip_text ip) = ip_text ip" "cstr (ip_text nm) = ip_text nm" "cstr s = s" "cstr (fmt_u d) = fmt_u d"
    using plain_text(1) ip_text_facts [OF assms(3)] ip_text_facts [OF assms(4)] s d by blast+
  have m: "(if c0 s \<noteq> NUL then Some (cstr s) else None) = map_option ip_text srv"
    using s(3) c(3) by (cases srv) (simp_all add: s_def)
  have "\<not> (c0 s \<noteq> NUL \<and> \<not> webflash_ipv4_valid s)" using s(4) by blast
  then show ?thesis unfolding webflash_env_save_def v using m c(1,2,4) ok
    by (simp add: Let_def split_def del: de_Morgan_conj not_not)
qed

end
