(* ===== verification/Trials.thy ===== *)
theory Trials
  imports Sample Uploads Forms Overlay Streams Settings
begin

text \<open>
  The theorems of the component theories that need a whole console to be tried on, applied to
  the sample board.
\<close>

section \<open>Uploads on the sample board\<close>

theorem upload_reassembles_witness:
  "let c = recv_chain (lab 0) (lab_start\<lparr>client := Some 7, rx_state := WEBFLASH_RX_UPLOAD,
       upload_part := webflash_partition_find ''firmware'', content_length := 3\<rparr>) [[1, 2], [3]]
   in upload_bytes c = [1, 2, 3] \<and> upload_crc c = crc32 0 0 [1, 2, 3]"
proof -
  let ?c = "lab_start\<lparr>client := Some 7, rx_state := WEBFLASH_RX_UPLOAD,
    upload_part := webflash_partition_find ''firmware'', content_length := 3\<rparr>"
  have f: "client ?c = Some 7" "rx_state ?c = WEBFLASH_RX_UPLOAD" "upload_size ?c = 0" "\<not> upload_valid ?c"
    "length (concat [[1, 2], [3 :: byte]]) = unat (content_length ?c)" "\<forall>d\<in>set [[1, 2], [3 :: byte]]. d \<noteq> []"
    by (simp_all add: lab_start_def ctx_zero_def)
  have e: "upload_recorded (lab 0) ?c a n" for a n by (simp add: upload_recorded_def env_set_hex_def lab_def)
  obtain p where p: "upload_part ?c = Some p" by (simp add: firmware_partition)
  from upload_reassembles [OF f(1,2) p f(3,4) _ f(6,5)] e show ?thesis by (simp add: Let_def)
qed

text \<open>The boot loader in the last megabyte of RAM is not to be overwritten.\<close>

definition lab_guarded :: lmb where
  "lab_guarded = lab_lmb\<lparr>used_mem := (used_mem lab_lmb)\<lparr>al_data :=
     [\<lparr>rbase = 0x8ff00000, rsize = 0x100000, rflags = LMB_NOOVERWRITE\<rparr>]\<rparr>\<rparr>"

definition lab_upload :: "(spi_nor, unit) webflash_ctx" where
  "lab_upload = lab_start\<lparr>client := Some 7, lmb_map := lab_guarded,
     header := ''POST /api/upload/firmware HTTP/1.0'' @ CRLF @ ''Content-Length: 3'' @ CRLF @ CRLF\<rparr>"

theorem upload_range_checked_witness:
  "\<exists>c p. webflash_prepare_upload (lab 0) lab_upload p = (0, c) \<and> content_length c \<le> p_size p \<and>
     unat (load_addr c) + unat (content_length c) \<le> 0x90000000 \<and>
     {0x8ff00000..<0x90000000} \<inter> {unat (load_addr c)..<unat (load_addr c) + unat (content_length c)} = {}"
proof -
  obtain p where p: "webflash_partition_find ''firmware'' = Some p" "p_size p = 0x1fb0000" "\<not> has_flag p WEBFLASH_PART_PROTECTED"
    using firmware_partition by (simp add: has_flag_def part_flag_defs)
  have h: "header lab_upload = ''POST /api/upload/firmware HTTP/1.0'' @ CRLF @ ''Content-Length: 3'' @ CRLF @ CRLF"
    "lmb_map lab_upload = lab_guarded" "load_addr lab_upload = 0x83000000" "\<not> webflash_operation_blocked lab_upload"
    by (simp_all add: lab_upload_def lab_start_def ctx_zero_def webflash_operation_blocked_def webflash_job_active_def)
  have l: "webflash_get_content_length lab_upload = Inr 3"
    unfolding webflash_get_content_length_def webflash_header_value_def h by code_simp
  have r: "fst (lmb_read_check lab_guarded 0x83000000 3) = 0" by code_simp
  have v: "fst (webflash_range_valid (lab 0) lab_upload 3)"
    using r by (simp add: webflash_range_valid_def h Let_def split_def) (simp add: lab_def)
  then obtain c where c: "webflash_prepare_upload (lab 0) lab_upload p = (0, c)"
    using p by (simp add: webflash_prepare_upload_def h l Let_def split_def)
  have "regions_ok (al_data (used_mem (lmb_map lab_upload)))" "no_touch (al_data (used_mem (lmb_map lab_upload)))"
    by (simp_all add: h lab_guarded_def regions_ok_def region_ok_def hi_def)
  moreover have "cover (al_data (used_mem (lmb_map lab_upload))) LMB_NOOVERWRITE = {0x8ff00000..<0x90000000}"
    by (simp add: h lab_guarded_def lo_def hi_def cover_def)
  ultimately show ?thesis using upload_range_checked [OF c, of LMB_NOOVERWRITE] c by (auto simp: lab_def)
qed

section \<open>Headers\<close>

definition lab_get :: "(spi_nor, unit) webflash_ctx" where
  "lab_get = lab_start\<lparr>header := ''GET / HTTP/1.0'' @ CRLF @
     header_text [(''Host'', '' a''), (''x-keep-CONFIG'', ''  1''), (''content-length'', '' 4096'')]\<rparr>"

lemma lab_get_header: "header lab_get = ''GET / HTTP/1.0'' @ CRLF @
     header_text [(''Host'', '' a''), (''x-keep-CONFIG'', ''  1''), (''content-length'', '' 4096'')]"
  by (simp add: lab_get_def)

theorem header_value_lookup_witness: "webflash_header_value lab_get ''X-Keep-Config'' 4 = Inr ''1''"
proof -
  have "header_lookup [(''Host'', '' a''), (''x-keep-CONFIG'', ''  1''), (''content-length'', '' 4096'')] ''X-Keep-Config'' = Some ''1''"
    by code_simp
  with header_value_lookup [OF lab_get_header, of "''X-Keep-Config''" 4] show ?thesis by (simp add: field_ok_def)
qed

theorem content_length_roundtrip_witness: "\<exists>l. webflash_get_content_length lab_get = Inr l \<and> unat l = 4096"
proof -
  have n: "fmt_u 4096 = ''4096''" by code_simp
  have "header lab_get = ''GET / HTTP/1.0'' @ CRLF @
     header_text ([(''Host'', '' a''), (''x-keep-CONFIG'', ''  1'')] @ (''content-length'', CHR '' '' # fmt_u 4096) # [])"
    by (simp add: lab_get_def n)
  moreover have "map tolower ''content-length'' = map tolower ''Content-Length''"
    "\<forall>f\<in>set [(''Host'', '' a''), (''x-keep-CONFIG'', ''  1'')]. map tolower (fst f) \<noteq> map tolower ''Content-Length''"
    by (simp_all add: tolower_def isupper_def) code_simp
  moreover have "\<forall>f\<in>set [(''Host'', '' a''), (''x-keep-CONFIG'', ''  1'')] \<union> set []. field_ok f" by (simp add: field_ok_def)
  ultimately show ?thesis using content_length_roundtrip [of lab_get "''GET / HTTP/1.0''"
    "[(''Host'', '' a''), (''x-keep-CONFIG'', ''  1'')]" "''content-length''" 4096 "[]"] by simp
qed

section \<open>The overlay\<close>

theorem find_overlay_linear_witness: "fst (webflash_find_overlay (lab 0) lab_start) = Inl (- ENOENT)"
proof -
  have no: "overlay_at s (\<lambda>a. 0) fin a = None" for s fin a
    by (simp add: overlay_at_def overlay_candidate_def get_unaligned_le32_def)
  have "find_first (overlay_at s (\<lambda>a. 0) fin) xs = None" for s fin xs
    by (induction xs) (simp_all add: no)
  moreover have "flash lab_start = lab_nor" "length (io_buf lab_start) = 65536" by (simp_all add: lab_start_def ctx_zero_def)
  ultimately show ?thesis using find_overlay_linear [of lab_start "lab 0"] lab_nor_quiet(2) by simp
qed

definition lab_wrapped :: "(spi_nor, unit) webflash_ctx" where
  "lab_wrapped = lab_start\<lparr>flash := lab_nor\<lparr>array := rootfs_with [0, 0, 0xfb, 0xff, 0xff, 0xff, 0xff, 0xff]\<rparr>\<rparr>"

theorem overlay_end_wraps_witness: "fst (webflash_find_overlay (lab 0) lab_wrapped) = Inr 0"
proof -
  have "spi_ok (flash lab_wrapped)" "length (io_buf lab_wrapped) = 65536"
    using lab_nor_quiet(2) by (simp_all add: lab_wrapped_def lab_start_def ctx_zero_def spi_ok_def spi_mid_def spi_geometry_def)
  with overlay_end_wraps [of lab_wrapped "lab 0"] show ?thesis by (simp add: lab_wrapped_def)
qed

theorem spi_program_range_witness:
  "\<exists>nor1 nor2 nor3. spi_flash_std_erase lab_nor 0xff0000 0x20000 = (0, nor1) \<and>
     spi_flash_std_write nor1 0xff0000 (replicate 70000 7) = (0, nor2) \<and>
     spi_flash_std_read nor2 0xff0000 70000 = (0, replicate 70000 7, nor3)"
  using spi_program_range [OF lab_nor_quiet(1), of "0xff0000" "0x20000" "replicate 70000 7" 70000] by auto

section \<open>What the client gets\<close>

definition lab_wire :: "(spi_nor, unit \<times> byte list) webflash_ctx" where
  "lab_wire = (ctx_zero lab_nor ((), []) lab_lmb (\<lambda>a. 0))\<lparr>client := Some 7, io_buf := replicate 65536 0, reply := ''ok''\<rparr>"

lemma lab_wire_fields [simp]:
  "flash lab_wire = lab_nor" "length (io_buf lab_wire) = 65536" "client lab_wire = Some 7" "world lab_wire = ((), [])"
  "\<not> webflash_operation_blocked lab_wire" "reply lab_wire = ''ok''"
  by (simp_all add: lab_wire_def ctx_zero_def webflash_operation_blocked_def webflash_job_active_def)

lemma lab_recorded [simp]:
  "tcp_sndbuf (recorded (lab room)) w pcb = room" "tcp_write (recorded (lab room)) w pcb bs = (ERR_OK, (), snd w @ bs)"
  "tcp_output (recorded (lab room)) w pcb = (ERR_OK, (), snd w)"
  by (simp_all add: recorded_def lab_def split: prod.splits)

lemma lab_fill: "client c = Some pcb \<Longrightarrow> fst (webflash_stream_fill (recorded (lab 0)) c) = 0"
  by (simp add: webflash_stream_fill_def stream_loop.simps [of _ c] stream_turn_def)

theorem stream_fill_delivers_witness:
  "\<exists>ret c. webflash_stream_fill (recorded (lab 4000)) (lab_wire\<lparr>stream_from_flash := True, stream_offset := 0x50000,
       stream_remaining := 5000\<rparr>) = (ret, c) \<and>
     snd (world c) @ to_send array (recorded (lab 4000)) c = mem_bytes (array lab_nor) 0x50000 5000"
proof -
  let ?c = "lab_wire\<lparr>stream_from_flash := True, stream_offset := 0x50000, stream_remaining := 5000\<rparr>"
  obtain ret c where f: "webflash_stream_fill (recorded (lab 4000)) ?c = (ret, c)" by fastforce
  with stream_fill_delivers [of "lab 4000" ?c ret c] lab_nor_quiet(2)
  have "snd (world c) @ to_send array (recorded (lab 4000)) c = to_send array (recorded (lab 4000)) ?c" by simp
  with f show ?thesis by (auto simp: to_send_def)
qed

theorem backup_delivers_witness:
  "\<exists>c. webflash_start_download (recorded (lab 0)) lab_wire ''factory'' = (0, c) \<and>
     snd (world c) @ to_send array (recorded (lab 0)) c =
       bytes_of (download_header ''hlk-7621a-factory.bin'' 0x10000) @ mem_bytes (array lab_nor) 0x40000 0x10000"
proof -
  have n: "strcmp ''factory'' ''fullflash'' \<noteq> 0" by (simp add: strcmp_0_iff)
  have "fst (webflash_start_download (recorded (lab 0)) lab_wire ''factory'') = 0"
  proof -
    have "length (download_header ''hlk-7621a-factory.bin'' 0x10000) < 256"
      using number_length [of "0x10000" 5] by (simp add: download_header_def fmt_u_def)
    then show ?thesis using n lab_fill
      by (simp add: webflash_start_download_def factory_partition download_range_def Let_def split_def)
  qed
  then obtain c where c: "webflash_start_download (recorded (lab 0)) lab_wire ''factory'' = (0, c)"
    by (cases "webflash_start_download (recorded (lab 0)) lab_wire ''factory''") simp
  with backup_delivers [of "lab 0" lab_wire "''factory''" c, OF _ _ _ _ _ factory_partition n] lab_nor_quiet(2) show ?thesis
    by simp
qed

theorem reply_delivers_witness:
  "\<exists>c. webflash_reply (recorded (lab 0)) lab_wire ''200 OK'' ''text/plain'' (Reply_buf 0) = (0, c) \<and>
     snd (world c) @ to_send array (recorded (lab 0)) c = bytes_of (reply_header ''200 OK'' ''text/plain'' 2 @ ''ok'')"
proof -
  have "length (reply_header ''200 OK'' ''text/plain'' 2) < 192" by code_simp
  then have "fst (webflash_reply (recorded (lab 0)) lab_wire ''200 OK'' ''text/plain'' (Reply_buf 0)) = 0"
    using lab_fill by (simp add: webflash_reply_def Let_def split_def numeral_2_eq_2)
  then obtain c where c: "webflash_reply (recorded (lab 0)) lab_wire ''200 OK'' ''text/plain'' (Reply_buf 0) = (0, c)"
    by (cases "webflash_reply (recorded (lab 0)) lab_wire ''200 OK'' ''text/plain'' (Reply_buf 0)") simp
  with reply_delivers [of "lab 0" lab_wire _ _ "Reply_buf 0" c] lab_nor_quiet(2) show ?thesis by (simp add: Let_def numeral_2_eq_2)
qed

section \<open>Settings\<close>

definition lab_form :: "(spi_nor, unit) webflash_ctx" where
  "lab_form = lab_start\<lparr>body := form_text plain [(''ipaddr'', ip_text (10, 0, 0, 1)), (''netmask'', ip_text (255, 255, 255, 0)),
     (''serverip'', case None of None \<Rightarrow> [] | Some s \<Rightarrow> ip_text s), (''bootdelay'', fmt_u 3)]\<rparr>"

theorem settings_form_saves_witness:
  "webflash_env_save (lab 0) lab_form = webflash_ok (lab 0) lab_form ''saved; reboot to apply''"
proof -
  have "form_safe plain" by (simp add: form_safe_def plain_def lwip_isdigit_def)
  moreover have "ip4_addr_netmask_valid (ip_addr (255, 255, 255, 0))"
    by (simp add: ip_addr_def ip4_addr_netmask_valid_def) code_simp
  moreover have "env_commit (lab 0) lab_form kvs = (0, lab_form)" for kvs
  proof -
    have "env_set_all (lab 0) () kvs = (0, ())" by (induction kvs) (auto simp: lab_def)
    then show ?thesis by (simp add: env_commit_def lab_form_def lab_start_def ctx_zero_def) (simp add: lab_def)
  qed
  moreover have "body lab_form = form_text plain [(''ipaddr'', ip_text (10, 0, 0, 1)), (''netmask'', ip_text (255, 255, 255, 0)),
     (''serverip'', case None of None \<Rightarrow> [] | Some s \<Rightarrow> ip_text s), (''bootdelay'', fmt_u 3)]"
    by (simp add: lab_form_def)
  ultimately show ?thesis
    using settings_form_saves [of plain "(10, 0, 0, 1)" "(255, 255, 255, 0)" None 3 lab_form "lab 0"] by (simp add: ip_ok_def)
qed

end
