(* ===== verification/Hazards.thy ===== *)
theory Hazards
  imports Sample Uploads
begin

text \<open>
  Behaviours of the console that its author cannot have meant, shown on the model.
\<close>

section \<open>Flashing a RAM image\<close>

text \<open>C35: An image uploaded for booting from RAM can be flashed.  The flash request only asks for a valid upload and
  the phrase \<open>FLASH-FIRMWARE\<close>; the RAM pseudo partition starts at offset 0 and has the size of
  the firmware partition, so the job erases the boot loader, the environment and the
  calibration data, and writes the image over the boot loader.\<close>

theorem ram_image_flashed_over_bootloader:
  assumes "upload_part ctx = Some webflash_ram_partition" "upload_valid ctx" "completed_size ctx \<noteq> 0"
    and "\<not> webflash_operation_blocked ctx" "webflash_header_value ctx ''X-Safeboot-Confirm'' 40 = Inr ''FLASH-FIRMWARE''"
  shows "let j = job (snd (webflash_start_uploaded_flash P ctx))
    in phase j = WEBFLASH_PHASE_ERASING \<and> mode j = WEBFLASH_JOB_FLASH \<and> erase_offset j = 0 \<and> erase_size j = 0x1fb0000 \<and>
       write_size j = completed_size ctx \<and> map_option p_offset (part j) = Some 0"
proof -
  have e: "webflash_expected_confirmation ctx = ''FLASH-FIRMWARE''"
    using assms(1) by (simp add: webflash_expected_confirmation_def webflash_upload_is_firmware_def
        webflash_ram_partition_def has_flag_def part_flag_defs)
  have k: "webflash_check_confirmation P ctx ''FLASH-FIRMWARE'' = (0, ctx)"
    using assms(5) by (simp add: webflash_check_confirmation_def strcmp_0_iff)
  obtain c where c: "webflash_start_flash_job P ctx = (0, c)" "phase (job c) = WEBFLASH_PHASE_ERASING"
    "mode (job c) = WEBFLASH_JOB_FLASH" "erase_offset (job c) = 0" "erase_size (job c) = 0x1fb0000"
    "write_size (job c) = completed_size ctx" "map_option p_offset (part (job c)) = Some 0"
    using assms(1) by (simp add: webflash_start_flash_job_def webflash_ram_partition_def has_flag_def part_flag_defs Let_def)
  have "job (snd (webflash_reply P (set_reply c s) st ct (Reply_buf 0))) = job c" for s st ct
    using reply_serves(2) [of c P s st ct] by (simp add: serves_def busy_frame_def)
  then show ?thesis
    using c k e assms(1-4) by (simp add: webflash_start_uploaded_flash_def Let_def)
qed

definition lab_ram_ready :: "(spi_nor, unit) webflash_ctx" where
  "lab_ram_ready = lab_start\<lparr>client := Some 7,
     header := ''POST /api/flash HTTP/1.0'' @ CRLF @ ''X-Safeboot-Confirm: FLASH-FIRMWARE'' @ CRLF @ CRLF,
     upload_part := webflash_partition_find ''ram'', completed_addr := 0x83000000, completed_size := 64, upload_valid := True\<rparr>"

theorem ram_image_flashed_over_bootloader_witness:
  "erase_offset (job (snd (webflash_start_uploaded_flash (lab 0) lab_ram_ready))) = 0 \<and>
   erase_size (job (snd (webflash_start_uploaded_flash (lab 0) lab_ram_ready))) = 0x1fb0000"
proof -
  have h: "header lab_ram_ready = ''POST /api/flash HTTP/1.0'' @ CRLF @ ''X-Safeboot-Confirm: FLASH-FIRMWARE'' @ CRLF @ CRLF"
    by (simp add: lab_ram_ready_def)
  have "webflash_header_value lab_ram_ready ''X-Safeboot-Confirm'' 40 = Inr ''FLASH-FIRMWARE''"
    unfolding webflash_header_value_def h by code_simp
  moreover have "upload_part lab_ram_ready = Some webflash_ram_partition" "upload_valid lab_ram_ready"
    "completed_size lab_ram_ready \<noteq> 0" "\<not> webflash_operation_blocked lab_ram_ready"
    by (simp_all add: lab_ram_ready_def webflash_partition_find_def strcmp_0_iff lab_start_def ctx_zero_def
        webflash_operation_blocked_def webflash_job_active_def)
  ultimately show ?thesis using ram_image_flashed_over_bootloader [of lab_ram_ready "lab 0"] by (simp add: Let_def)
qed

section \<open>Errors of the bus\<close>

text \<open>
  With bank addressing compiled in, the status of a failed read is overwritten by that of
  \<open>clean_bar\<close>: the read of a range in the first bank whose transfer fails is answered with
  success, and the buffer is left as it was.
\<close>

theorem read_error_masked:
  assumes "xfer nor = 0 # e # es" "e < 0" "bank_curr nor = 0" "0 < len" "off + len \<le> SZ_16M" "SZ_16M \<le> mtd_size nor"
  shows "spi_nor_read nor off len = (0, [], nor\<lparr>xfer := es\<rparr>)"
proof -
  have off: "off div SZ_16M = 0" "off mod mtd_size nor div SZ_16M = 0" using assms(4-6) by simp_all
  have w: "write_bar nor off = (0, nor\<lparr>xfer := e # es\<rparr>)"
    using assms(1,3) off by (simp add: write_bar_def spi_nor_wait_till_ready_def spi_mem_exec_op_def)
  have "read_loop nor off len [] = (None, [], nor\<lparr>xfer := es\<rparr>)"
    using assms(2,4,5) off w by (subst read_loop.simps) (simp add: Let_def spi_nor_read_data_def spi_mem_exec_op_def)
  then show ?thesis using assms(3) by (simp add: spi_nor_read_def clean_bar_def)
qed

section \<open>A stream without a client\<close>

text \<open>
  When the peer closes in the middle of a reply, \<open>tcp_close\<close> succeeds and the client is
  forgotten, but the stream stays active and lwIP keeps the callbacks of the closing
  connection: the next poll asks for the send buffer of a null connection.
\<close>

theorem poll_after_close_faults:
  assumes "client ctx = Some pcb" "stream_active ctx" "stream_remaining ctx \<noteq> 0" "tcp_close P (world ctx) pcb = (ERR_OK, w)"
  shows "faulted (snd (webflash_poll P (snd (webflash_recv P ctx pcb None ERR_OK)) pcb))"
proof -
  let ?c = "ctx\<lparr>world := w, client := None, close_pending := False\<rparr>"
  have r: "snd (webflash_recv P ctx pcb None ERR_OK) = ?c"
    using assms(1,4) by (simp add: webflash_recv_def webflash_try_close_client_def)
  have "webflash_stream_fill P ?c = (0, ?c\<lparr>faulted := True\<rparr>)"
    using assms(3) by (simp add: webflash_stream_fill_def stream_loop.simps [of P ?c] stream_turn_def)
  then show ?thesis unfolding r using assms(2)
    by (auto simp: webflash_poll_def poll_close_def poll_idle_def webflash_try_close_client_def webflash_abort_client_def
        Let_def split: prod.splits)
qed

section \<open>Numbers and addresses\<close>

text \<open>A length of more than 32 bits wraps, and a hexadecimal one is taken; an address may be followed by anything after a blank.\<close>

theorem content_length_wraps:
  "simple_strtoul ''4294967808'' 10 = (512, [])" "simple_strtoul ''0x200'' 10 = (512, [])"
  by code_simp+

theorem address_with_garbage: "webflash_ipv4_valid ''10.0.0.1 </script>''"
  by code_simp

end
