(* ===== verification/LmbAlloc.thy ===== *)
theory LmbAlloc
  imports LmbSet
begin

text \<open>
  The rest of lib/lmb.c: allocation by size from the top of memory down, for the global map
  and for the IOVA maps, the free size above an address, and the set-up of the map at boot
  with the reservation of U-Boot itself.  The board has one bank of RAM, 32-bit physical
  addresses and no \<open>CFG_PRAM\<close>.
\<close>

section \<open>Allocation from the top down\<close>

abbreviation (input) LMB_ALLOC_ANYWHERE :: u32 where "LMB_ALLOC_ANYWHERE \<equiv> 0"

text \<open>\<open>ALIGN_DOWN\<close> of include/linux/kernel.h.\<close>

definition align_mask :: "u32 \<Rightarrow> u32 \<Rightarrow> u32" where
  "align_mask x msk = (x + msk) AND NOT msk"

definition align_down :: "u32 \<Rightarrow> u32 \<Rightarrow> u32" where
  "align_down x a = align_mask (x - (a - 1)) (a - 1)"

lemma align_down_and: "align_down x a = x AND NOT (a - 1)"
  by (simp add: align_down_def align_mask_def)

lemma align_down_le: "align_down x a \<le> x"
  unfolding align_down_and by (rule word_and_le2)

lemma overlap_find_overlaps:
  "overlap_find rs base sz flags True i = Some n \<Longrightarrow> i \<le> n \<and> n < i + length rs \<and>
     lmb_addrs_overlap base sz (rbase (rs ! (n - i))) (rsize (rs ! (n - i)))"
proof (induction rs arbitrary: i)
  case (Cons r rs)
  show ?case
  proof (cases "lmb_addrs_overlap base sz (rbase r) (rsize r)")
    case False
    with Cons.IH [of "Suc i"] Cons.prems have h: "Suc i \<le> n \<and> n < Suc i + length rs \<and>
        lmb_addrs_overlap base sz (rbase (rs ! (n - Suc i))) (rsize (rs ! (n - Suc i)))" by simp
    then have "n - i = Suc (n - Suc i)" by linarith
    with h show ?thesis by simp
  qed (use Cons in simp)
qed simp

text \<open>The next candidate lies below the last one, also where the end of the request wraps around.\<close>

lemma next_base_less:
  assumes "lmb_addrs_overlap base sz rb rs" "base \<noteq> 0" "\<not> rb < sz"
  shows "unat (align_down (rb - sz) align) < unat base"
proof -
  have le: "sz \<le> rb" "rb \<le> base + sz - 1" using assms(1,3) by (simp_all add: lmb_addrs_overlap_def Let_def not_less)
  have b: "0 < unat base" using assms(2) by (simp add: unat_gt_0)
  have u: "unat (rb - sz) = unat rb - unat sz" "unat sz \<le> unat rb"
    using le(1) by (simp_all add: unat_sub_no_wrap u32_le_iff)
  have "unat rb < unat base + unat sz"
  proof (cases "unat base + unat sz < 2 ^ 32")
    case True
    then have s: "unat (base + sz) = unat base + unat sz" by (rule unat_add_no_wrap)
    then have "unat (base + sz - 1) = unat base + unat sz - 1"
      using b by (subst unat_sub_no_wrap) (simp_all add: u32_le_iff)
    with le(2) b show ?thesis by (simp add: u32_le_iff)
  next
    case False
    then show ?thesis using u32_unat_lt [of rb] by linarith
  qed
  then have "unat (rb - sz) < unat base" using u by linarith
  moreover have "unat (align_down (rb - sz) align) \<le> unat (rb - sz)"
    using align_down_le [of "rb - sz" align] by (simp add: u32_le_iff)
  ultimately show ?thesis by linarith
qed

text \<open>
  The \<open>while\<close> loop over the candidates in one region of memory: the first one that no
  reservation overlaps, \<open>None\<close> where the loop ends without one.
\<close>

function alloc_search :: "alist \<Rightarrow> u32 \<Rightarrow> u32 \<Rightarrow> u32 \<Rightarrow> u32 \<Rightarrow> u32 option" where
  "alloc_search used lmbbase sz align base =
     (if base = 0 \<or> base < lmbbase then None
      else case lmb_overlap_checks used base sz LMB_NOOVERWRITE True of
             None \<Rightarrow> Some base
           | Some rgn \<Rightarrow>
               let res_base = rbase (al_data used ! rgn)
               in if res_base < sz then None
                  else alloc_search used lmbbase sz align (align_down (res_base - sz) align))"
  by pat_completeness auto
termination
proof (relation "measure (\<lambda>(used, lmbbase, sz, align, base). unat base)")
  fix used lmbbase sz align base rgn res_base
  assume a: "\<not> (base = 0 \<or> base < lmbbase)" "lmb_overlap_checks used base sz LMB_NOOVERWRITE True = Some rgn"
    "res_base = rbase (al_data used ! rgn)" "\<not> res_base < sz"
  then have "lmb_addrs_overlap base sz (rbase (al_data used ! rgn)) (rsize (al_data used ! rgn))"
    using overlap_find_overlaps [of "al_data used" base sz LMB_NOOVERWRITE 0 rgn] by (simp add: lmb_overlap_checks_def)
  from next_base_less [OF this] a
  show "((used, lmbbase, sz, align, align_down (res_base - sz) align), (used, lmbbase, sz, align, base))
      \<in> measure (\<lambda>(used, lmbbase, sz, align, base). unat base)" by simp
qed simp

declare alloc_search.simps [simp del]

text \<open>The first candidate in a region; \<open>None\<close> is the \<open>continue\<close>.\<close>

definition alloc_start :: "lmb_region \<Rightarrow> u32 \<Rightarrow> u32 \<Rightarrow> u32 \<Rightarrow> u32 option" where
  "alloc_start r sz align max_addr =
     (let lmbbase = rbase r; lmbsize = rsize r
      in if lmbsize < sz then None
         else if max_addr = LMB_ALLOC_ANYWHERE then Some (align_down (lmbbase + lmbsize - sz) align)
         else if lmbbase < max_addr
         then let base = lmbbase + lmbsize;
                  base = (if base < lmbbase then -1 else base);
                  base = min base max_addr
              in Some (align_down (base - sz) align)
         else None)"

text \<open>The loop over the regions of memory, given from the last to the first.\<close>

fun alloc_regions :: "lmb_region list \<Rightarrow> alist \<Rightarrow> u32 \<Rightarrow> u32 \<Rightarrow> u32 \<Rightarrow> u32 option" where
  "alloc_regions [] used sz align max_addr = None"
| "alloc_regions (r # rs) used sz align max_addr =
     (case alloc_start r sz align max_addr of
        None \<Rightarrow> alloc_regions rs used sz align max_addr
      | Some base \<Rightarrow>
          (case alloc_search used (rbase r) sz align base of
             Some b \<Rightarrow> Some b
           | None \<Rightarrow> alloc_regions rs used sz align max_addr))"

text \<open>Status, \<open>*addr\<close> and the map.  A list that cannot grow is answered with status 0.\<close>

definition lmb_alloc_base :: "lmb \<Rightarrow> u32 \<Rightarrow> u32 \<Rightarrow> u32 \<Rightarrow> u32 \<Rightarrow> int \<times> u32 \<times> lmb" where
  "lmb_alloc_base m sz align addr flags =
     (case alloc_regions (rev (al_data (available_mem m))) (used_mem m) sz align addr of
        None \<Rightarrow> (-1, addr, m)
      | Some base \<Rightarrow>
          let (ret, lst) = lmb_add_region_flags (used_mem m) base sz flags; m = m\<lparr>used_mem := lst\<rparr>
          in if ret \<noteq> 0 then (0, addr, m)
             else let ret = lmb_map_update_notify base sz flags
                  in if ret \<noteq> 0 then (ret, addr, m) else (0, base, m))"



section \<open>Free size\<close>

fun free_above :: "lmb_region list \<Rightarrow> u32 \<Rightarrow> u32 option" where
  "free_above [] addr = None"
| "free_above (r # rs) addr =
     (if addr < rbase r then Some (rbase r - addr)
      else if addr < rbase r + rsize r then Some 0
      else free_above rs addr)"

definition lmb_get_free_size :: "lmb \<Rightarrow> u32 \<Rightarrow> u32" where
  "lmb_get_free_size m addr =
     (case lmb_overlap_checks (available_mem m) addr 1 LMB_NOOVERWRITE True of
        None \<Rightarrow> 0
      | Some _ \<Rightarrow>
          (case free_above (al_data (used_mem m)) addr of
             Some n \<Rightarrow> n
           | None \<Rightarrow> let r = last (al_data (available_mem m)) in rbase r + rsize r - addr))"

section \<open>IOVA maps\<close>

text \<open>\<open>alist_init\<close>: the outcome of \<open>calloc\<close> is the first of \<open>ms\<close>.\<close>

definition alist_init :: "bool list \<Rightarrow> nat \<Rightarrow> bool \<times> alist" where
  "alist_init ms start_size =
     (if start_size \<noteq> 0 \<and> ms \<noteq> [] \<and> \<not> hd ms
      then (False, \<lparr>al_data = [], al_alloc = 0, al_fail = True, al_malloc = tl ms\<rparr>)
      else (True, \<lparr>al_data = [], al_alloc = start_size, al_fail = False,
                   al_malloc = (if start_size = 0 then ms else tl ms)\<rparr>))"

text \<open>The two lists draw on the same heap; each is given its own outcomes.\<close>

definition io_lmb_setup :: "bool list \<Rightarrow> bool list \<Rightarrow> lmb \<Rightarrow> int \<times> lmb" where
  "io_lmb_setup ms ms' m =
     (let (ok, lst) = alist_init ms 4; m = m\<lparr>available_mem := lst\<rparr>
      in if \<not> ok then (- ENOMEM, m)
         else let (ok, lst) = alist_init ms' 4; m = m\<lparr>used_mem := lst\<rparr>
              in if \<not> ok then (- ENOMEM, m) else (0, m))"

definition alist_uninit :: "alist \<Rightarrow> alist" where
  "alist_uninit lst = lst\<lparr>al_data := [], al_alloc := 0, al_fail := False\<rparr>"

definition io_lmb_teardown :: "lmb \<Rightarrow> lmb" where
  "io_lmb_teardown m =
     m\<lparr>available_mem := alist_uninit (available_mem m), used_mem := alist_uninit (used_mem m)\<rparr>"

definition io_lmb_add :: "lmb \<Rightarrow> u32 \<Rightarrow> u32 \<Rightarrow> int \<times> lmb" where
  "io_lmb_add m base sz =
     (let (ret, lst) = lmb_add_region_flags (available_mem m) base sz LMB_NONE in (ret, m\<lparr>available_mem := lst\<rparr>))"

definition io_lmb_alloc :: "lmb \<Rightarrow> u32 \<Rightarrow> u32 \<Rightarrow> u32 \<times> lmb" where
  "io_lmb_alloc m sz align =
     (case alloc_regions (rev (al_data (available_mem m))) (used_mem m) sz align LMB_ALLOC_ANYWHERE of
        None \<Rightarrow> (0, m)
      | Some base \<Rightarrow>
          let (ret, lst) = lmb_add_region_flags (used_mem m) base sz LMB_NONE; m = m\<lparr>used_mem := lst\<rparr>
          in if ret < 0 then (0, m) else (base, m))"

definition io_lmb_free :: "lmb \<Rightarrow> u32 \<Rightarrow> u32 \<Rightarrow> int \<times> lmb" where
  "io_lmb_free m base sz = (let (ret, lst) = lmb_free_rgn (used_mem m) base sz in (ret, m\<lparr>used_mem := lst\<rparr>))"

section \<open>The map at boot\<close>

definition lmb_setup :: "bool list \<Rightarrow> bool list \<Rightarrow> lmb \<Rightarrow> int \<times> lmb" where
  "lmb_setup ms ms' m =
     (let (ok, lst) = alist_init ms 4; m = m\<lparr>available_mem := lst\<rparr>
      in if \<not> ok then (- ENOMEM, m)
         else let (ok, lst) = alist_init ms' 4; m = m\<lparr>used_mem := lst\<rparr>
              in if \<not> ok then (- ENOMEM, m) else (0, m))"

datatype xpl_phase = PHASE_NONE | PHASE_TPL | PHASE_VPL | PHASE_SPL | PHASE_BOARD_F | PHASE_BOARD_R | PHASE_COUNT

text \<open>What the global data say of the board: its banks, the top of RAM, the stack, the place of U-Boot.\<close>

record lmb_board =
  bi_dram :: "(u32 \<times> u32) list"
  ram_top :: u32
  limit_dma_below_ram_top :: bool
  start_addr_sp :: u32
  skip_reloc :: bool
  mon_start :: u32
  mon_len :: u32
  spl_stack_r :: bool
  spl_separate_bss :: bool
  bss_start :: u32
  bss_end :: u32

definition lmb_add_bank :: "bool \<Rightarrow> u64 \<Rightarrow> u32 \<times> u32 \<Rightarrow> lmb \<Rightarrow> lmb" where
  "lmb_add_bank limit_dma top64 = (\<lambda>(start, sz) m.
     if sz = 0 then m
     else let m = snd (lmb_add m start sz); bank_end = start + sz
          in if \<not> limit_dma then m
             else if top64 \<le> ucast start then snd (lmb_reserve m start sz LMB_NOOVERWRITE)
             else if top64 < ucast bank_end
             then snd (lmb_reserve m (ucast top64) (ucast (ucast bank_end - top64)) LMB_NOOVERWRITE)
             else m)"

definition lmb_add_memory :: "lmb_board \<Rightarrow> lmb \<Rightarrow> lmb" where
  "lmb_add_memory B m =
     fold (lmb_add_bank (limit_dma_below_ram_top B) (if ram_top B = 0 then 0x100000000 else ucast (ram_top B))) (bi_dram B) m"

text \<open>The loop over the banks, left after the bank that holds the stack.\<close>

fun reserve_uboot :: "lmb_board \<Rightarrow> u32 \<Rightarrow> (u32 \<times> u32) list \<Rightarrow> lmb \<Rightarrow> lmb" where
  "reserve_uboot B rsv_start [] m = m"
| "reserve_uboot B rsv_start ((start, sz) # banks) m =
     (if sz = 0 \<or> rsv_start < start then reserve_uboot B rsv_start banks m
      else let bank_end = start + sz - 1
           in if bank_end < rsv_start then reserve_uboot B rsv_start banks m
              else let bank_end = (if ram_top B < bank_end then ram_top B - 1 else bank_end);
                       m = snd (lmb_reserve m rsv_start (bank_end - rsv_start + 1) LMB_NOOVERWRITE)
                   in if skip_reloc B then snd (lmb_reserve m (mon_start B) (mon_len B) LMB_NOOVERWRITE) else m)"

definition lmb_reserve_uboot_region :: "lmb_board \<Rightarrow> lmb \<Rightarrow> lmb" where
  "lmb_reserve_uboot_region B m = reserve_uboot B (start_addr_sp B - 0x1000000) (bi_dram B) m"

text \<open>\<open>boot_fdt_add_mem_rsv_regions\<close> on the device tree, if there is one, is the parameter \<open>fdt\<close>.\<close>

definition lmb_reserve_common :: "(lmb \<Rightarrow> lmb) option \<Rightarrow> lmb_board \<Rightarrow> lmb \<Rightarrow> lmb" where
  "lmb_reserve_common fdt B m =
     (let m = lmb_reserve_uboot_region B m in case fdt of None \<Rightarrow> m | Some f \<Rightarrow> f m)"

definition lmb_reserve_common_spl :: "lmb_board \<Rightarrow> lmb \<Rightarrow> lmb" where
  "lmb_reserve_common_spl B m =
     (let m = (if spl_stack_r B then snd (lmb_reserve m (start_addr_sp B - 16384) 16384 LMB_NOOVERWRITE) else m)
      in if spl_separate_bss B then snd (lmb_reserve m (bss_start B) (bss_end B - bss_start B) LMB_NOOVERWRITE) else m)"

definition lmb_init :: "bool list \<Rightarrow> bool list \<Rightarrow> xpl_phase \<Rightarrow> (lmb \<Rightarrow> lmb) option \<Rightarrow> lmb_board \<Rightarrow> lmb \<Rightarrow> int \<times> lmb" where
  "lmb_init ms ms' phase fdt B m =
     (let (ret, m) = lmb_setup ms ms' m
      in if ret \<noteq> 0 then (ret, m)
         else let m = lmb_add_memory B m
              in (0, case phase of
                       PHASE_SPL \<Rightarrow> lmb_reserve_common_spl B m
                     | PHASE_BOARD_R \<Rightarrow> lmb_reserve_common fdt B m
                     | _ \<Rightarrow> m))"

section \<open>The allocation is the highest free block\<close>

lemma align_down_pow:
  assumes "k < 32"
  shows "unat (align_down x (2 ^ k)) = unat x - unat x mod 2 ^ k"
proof -
  have m: "(2 ^ k :: u32) - 1 = mask k" by (simp add: mask_eq_exp_minus_1)
  have "x AND NOT (mask k) = x - take_bit k x"
  proof -
    have "(x AND NOT (mask k)) + (x AND mask k) = (x AND NOT (mask k)) OR (x AND mask k)"
      by (rule disjunctive_add_eq_or) (auto intro!: bit_eqI simp: bit_simps)
    also have "\<dots> = x" by (auto intro!: bit_eqI simp: bit_simps)
    finally show ?thesis by (simp add: take_bit_eq_mask algebra_simps)
  qed
  moreover have "take_bit k x \<le> x" unfolding take_bit_eq_mask by (rule word_and_le2)
  moreover have "unat (take_bit k x) = unat x mod 2 ^ k" 
    unfolding take_bit_eq_mod [of k "unat x", symmetric] by (simp add: unsigned_take_bit_eq)
  ultimately show ?thesis unfolding align_down_and m by (simp add: unat_sub_no_wrap)
qed

lemma align_down_greatest:
  assumes "k < 32" "2 ^ k dvd n" "n \<le> unat x"
  shows "n \<le> unat (align_down x (2 ^ k))" "2 ^ k dvd unat (align_down x (2 ^ k))"
proof -
  note a = align_down_pow [OF assms(1), of x]
  then have q: "unat (align_down x (2 ^ k)) = unat x div 2 ^ k * 2 ^ k" by (simp add: minus_mod_eq_div_mult)
  obtain j where j: "n = 2 ^ k * j" using assms(2) by (rule dvdE)
  then have "j \<le> unat x div 2 ^ k" using assms(3) by (simp add: less_eq_div_iff_mult_less_eq mult.commute)
  then show "n \<le> unat (align_down x (2 ^ k))" unfolding q j by (simp add: mult.commute)
  show "2 ^ k dvd unat (align_down x (2 ^ k))" unfolding q by simp
qed

definition clear_of :: "lmb_region list \<Rightarrow> nat \<Rightarrow> nat \<Rightarrow> bool" where
  "clear_of us n x \<longleftrightarrow> (\<forall>u\<in>set us. x + n \<le> lo u \<or> hi u \<le> x)"

text \<open>\<open>x\<close> is the greatest number with \<open>F\<close>, \<open>None\<close>: there is none.\<close>

definition greatest :: "(nat \<Rightarrow> bool) \<Rightarrow> u32 option \<Rightarrow> bool" where
  "greatest F r \<longleftrightarrow> (case r of None \<Rightarrow> \<forall>x. \<not> F x | Some b \<Rightarrow> F (unat b) \<and> (\<forall>x. F x \<longrightarrow> x \<le> unat b))"

definition candidate :: "lmb_region list \<Rightarrow> nat \<Rightarrow> nat \<Rightarrow> nat \<Rightarrow> nat \<Rightarrow> nat \<Rightarrow> bool" where
  "candidate us k n low high x \<longleftrightarrow> 2 ^ k dvd x \<and> 0 < x \<and> low \<le> x \<and> x \<le> high \<and> clear_of us n x"

lemma overlap_find_clear:
  assumes "\<forall>u\<in>set us. region_ok u" "region_ok \<lparr>rbase = base, rsize = sz, rflags = f\<rparr>"
  shows "overlap_find us base sz flags True i = None \<longleftrightarrow> clear_of us (unat sz) (unat base)"
  using assms(1)
proof (induction us arbitrary: i)
  case (Cons u us)
  have "lmb_addrs_overlap base sz (rbase u) (rsize u) \<longleftrightarrow> \<not> (unat base + unat sz \<le> lo u \<or> hi u \<le> unat base)"
    using overlap_iff [OF assms(2), of u] Cons.prems by (auto simp: lo_def hi_def)
  with Cons show ?case by (simp add: clear_of_def)
qed (simp add: clear_of_def)

lemma search_greatest:
  assumes "\<forall>u\<in>set (al_data used). region_ok u" "sz \<noteq> 0" "k < 32"
    and "unat base + unat sz < 2 ^ 32" "2 ^ k dvd unat base"
  shows "greatest (candidate (al_data used) k (unat sz) (unat lmbbase) (unat base)) (alloc_search used lmbbase sz (2 ^ k) base)"
  using assms(4,5)
proof (induction "unat base" arbitrary: base rule: less_induct)
  case less
  let ?us = "al_data used" and ?n = "unat sz"
  show ?case
  proof (cases "base = 0 \<or> base < lmbbase")
    case True
    then show ?thesis
      by (subst alloc_search.simps) (auto simp: greatest_def candidate_def u32_less_iff)
  next
    case False
    have q: "region_ok \<lparr>rbase = base, rsize = sz, rflags = LMB_NONE\<rparr>"
      using assms(2) less.prems(1) by (simp add: reserve_form)
    have pos: "0 < unat base" "unat lmbbase \<le> unat base" using False by (auto simp: unat_gt_0 u32_less_iff)
    show ?thesis
    proof (cases "lmb_overlap_checks used base sz LMB_NOOVERWRITE True")
      case None
      then have "clear_of ?us ?n (unat base)"
        using overlap_find_clear [OF assms(1) q] by (simp add: lmb_overlap_checks_def)
      with None False pos less.prems(2) show ?thesis
        by (subst alloc_search.simps) (auto simp: greatest_def candidate_def)
    next
      case (Some rgn)
      define u where "u = ?us ! rgn"
      have u: "u \<in> set ?us" "lmb_addrs_overlap base sz (rbase u) (rsize u)"
        using overlap_find_overlaps [of ?us base sz LMB_NOOVERWRITE 0 rgn] Some
        by (simp_all add: lmb_overlap_checks_def u_def)
      then have ok: "region_ok u" and ov: "unat base < hi u" "lo u < unat base + ?n"
        using assms(1) overlap_iff [OF q, of u] by (auto simp: lo_def hi_def)
      have below: "x + ?n \<le> lo u" if "candidate ?us k ?n (unat lmbbase) (unat base) x" for x
        using that u(1) ov by (auto simp: candidate_def clear_of_def)
      show ?thesis
      proof (cases "rbase u < sz")
        case True
        then have "\<not> candidate ?us k ?n (unat lmbbase) (unat base) x" for x
          using below [of x] by (auto simp: candidate_def lo_def u32_less_iff)
        with Some False True show ?thesis by (subst alloc_search.simps) (simp add: greatest_def u_def Let_def)
      next
        case le: False
        define b where "b = align_down (rbase u - sz) (2 ^ k)"
        have lt: "unat b < unat base" unfolding b_def using next_base_less [OF u(2)] False le by blast
        have d: "unat (rbase u - sz) = lo u - ?n" using le by (simp add: lo_def unat_sub_no_wrap)
        have ad: "2 ^ k dvd unat b" unfolding b_def using align_down_greatest(2) [OF assms(3), of 0] by simp
        have same: "candidate ?us k ?n (unat lmbbase) (unat b) x \<longleftrightarrow> candidate ?us k ?n (unat lmbbase) (unat base) x" for x
        proof
          assume c: "candidate ?us k ?n (unat lmbbase) (unat base) x"
          then have "x \<le> unat b" unfolding b_def
            using below [OF c] d by (intro align_down_greatest [OF assms(3)]) (auto simp: candidate_def)
          with c show "candidate ?us k ?n (unat lmbbase) (unat b) x" by (simp add: candidate_def)
        qed (use lt in \<open>auto simp: candidate_def\<close>)
        have "greatest (candidate ?us k ?n (unat lmbbase) (unat b)) (alloc_search used lmbbase sz (2 ^ k) b)"
          using less.hyps [OF lt] less.prems(1) lt ad by simp
        moreover have "alloc_search used lmbbase sz (2 ^ k) base = alloc_search used lmbbase sz (2 ^ k) b"
          using Some False le by (subst alloc_search.simps) (simp add: b_def u_def Let_def)
        ultimately show ?thesis using same by (simp add: greatest_def split: option.splits)
      qed
    qed
  qed
qed

text \<open>Where a block may lie: in memory, below the limit, clear of every reservation, aligned and not at 0.\<close>

definition free_block :: "lmb_region list \<Rightarrow> lmb_region list \<Rightarrow> nat \<Rightarrow> nat \<Rightarrow> nat \<Rightarrow> nat \<Rightarrow> bool" where
  "free_block ms us k n limit x \<longleftrightarrow>
     2 ^ k dvd x \<and> 0 < x \<and> (\<exists>r\<in>set ms. lo r \<le> x \<and> x + n \<le> hi r) \<and> (limit = 0 \<or> x + n \<le> limit) \<and> clear_of us n x"

lemma start_greatest:
  assumes "region_ok r" "sz \<noteq> 0" "k < 32" "max_addr = 0 \<or> sz \<le> max_addr"
  shows "case alloc_start r sz (2 ^ k) max_addr of
      None \<Rightarrow> \<not> (\<exists>x. lo r \<le> x \<and> x + unat sz \<le> hi r \<and> (max_addr = 0 \<or> x + unat sz \<le> unat max_addr))
    | Some base \<Rightarrow> 2 ^ k dvd unat base \<and> unat base + unat sz < 2 ^ 32 \<and>
        (\<forall>x. 2 ^ k dvd x \<longrightarrow> (x \<le> unat base \<longleftrightarrow> x + unat sz \<le> hi r \<and> (max_addr = 0 \<or> x + unat sz \<le> unat max_addr)))"
proof -
  have e: "unat (rbase r + rsize r) = hi r" "hi r < 2 ^ 32" "hi r = lo r + unat (rsize r)"
    using region_end(1) [OF assms(1)] assms(1) by (simp_all add: region_ok_def hi_def lo_def)
  have pos: "0 < unat sz" using assms(2) by (simp add: unat_gt_0)
  define t where "t = (if max_addr = 0 then hi r else min (hi r) (unat max_addr))"
  consider "rsize r < sz" | "\<not> rsize r < sz" "max_addr \<noteq> 0" "\<not> rbase r < max_addr"
    | b where "alloc_start r sz (2 ^ k) max_addr = Some (align_down (b - sz) (2 ^ k))" "unat b = t" "sz \<le> b"
  proof (atomize_elim)
    have "\<not> rbase r + rsize r < rbase r" using e by (simp add: u32_less_iff lo_def)
    then have "alloc_start r sz (2 ^ k) max_addr =
        Some (align_down ((if max_addr = 0 then rbase r + rsize r else min (rbase r + rsize r) max_addr) - sz) (2 ^ k))"
      if "\<not> rsize r < sz" "max_addr = 0 \<or> rbase r < max_addr"
      using that by (auto simp: alloc_start_def Let_def)
    moreover have "unat (if max_addr = 0 then rbase r + rsize r else min (rbase r + rsize r) max_addr) = t"
      using e(1) by (simp add: t_def unat_min)
    moreover have "sz \<le> (if max_addr = 0 then rbase r + rsize r else min (rbase r + rsize r) max_addr)" if "\<not> rsize r < sz"
      using that e(1,3) assms(4) by (auto simp: u32_le_iff u32_less_iff unat_min)
    ultimately show "rsize r < sz \<or> (\<not> rsize r < sz \<and> max_addr \<noteq> 0 \<and> \<not> rbase r < max_addr) \<or>
        (\<exists>b. alloc_start r sz (2 ^ k) max_addr = Some (align_down (b - sz) (2 ^ k)) \<and> unat b = t \<and> sz \<le> b)" by blast
  qed
  then show ?thesis
  proof cases
    case 1
    then show ?thesis using e by (auto simp: alloc_start_def Let_def u32_less_iff)
  next
    case 2
    then show ?thesis using pos by (auto simp: alloc_start_def Let_def u32_less_iff lo_def word_unat_eq_iff)
  next
    case (3 b)
    have d: "unat (b - sz) = t - unat sz" "unat sz \<le> t" using 3 by (simp_all add: unat_sub_no_wrap u32_le_iff)
    have iff: "x \<le> unat (align_down (b - sz) (2 ^ k)) \<longleftrightarrow> x \<le> t - unat sz" if "2 ^ k dvd x" for x
      using align_down_greatest(1) [OF assms(3) that, of "b - sz"] align_down_pow [OF assms(3), of "b - sz"] d by auto
    have "unat (align_down (b - sz) (2 ^ k)) + unat sz \<le> t" using align_down_pow [OF assms(3), of "b - sz"] d by simp
    moreover have "t \<le> hi r" by (simp add: t_def)
    moreover have "2 ^ k dvd unat (align_down (b - sz) (2 ^ k))" using align_down_greatest(2) [OF assms(3), of 0] by simp
    moreover have "x \<le> t - unat sz \<longleftrightarrow> x + unat sz \<le> hi r \<and> (max_addr = 0 \<or> x + unat sz \<le> unat max_addr)" for x
      using d(2) by (auto simp: t_def)
    ultimately show ?thesis using 3(1) e(2) iff by simp
  qed
qed

lemma regions_greatest:
  assumes "regions_ok ms" "\<forall>u\<in>set (al_data used). region_ok u" "sz \<noteq> 0" "k < 32" "max_addr = 0 \<or> sz \<le> max_addr"
  shows "greatest (free_block ms (al_data used) k (unat sz) (unat max_addr)) (alloc_regions (rev ms) used sz (2 ^ k) max_addr)"
  using assms(1)
proof (induction ms rule: rev_induct)
  case Nil
  then show ?case by (simp add: greatest_def free_block_def)
next
  case (snoc r ms)
  let ?us = "al_data used" and ?n = "unat sz" and ?l = "unat max_addr"
  let ?in = "\<lambda>x. lo r \<le> x \<and> x + ?n \<le> hi r \<and> (?l = 0 \<or> x + ?n \<le> ?l)"
  have ok: "region_ok r" "regions_ok ms" and below: "\<And>q. q \<in> set ms \<Longrightarrow> hi q \<le> lo r"
    using snoc.prems by (auto simp: regions_ok_append regions_ok_Cons)
  have fb: "free_block (ms @ [r]) ?us k ?n ?l x \<longleftrightarrow>
      (2 ^ k dvd x \<and> 0 < x \<and> ?in x \<and> clear_of ?us ?n x) \<or> free_block ms ?us k ?n ?l x" for x
    by (auto simp: free_block_def)
  have low: "x < lo r" if "free_block ms ?us k ?n ?l x" for x
    using that below assms(3) unat_gt_0 [of sz] by (force simp: free_block_def)
  have IH: "greatest (free_block ms ?us k ?n ?l) (alloc_regions (rev ms) used sz (2 ^ k) max_addr)"
    by (rule snoc.IH [OF ok(2)])
  have st: "case alloc_start r sz (2 ^ k) max_addr of
      None \<Rightarrow> \<not> (\<exists>x. ?in x)
    | Some base \<Rightarrow> 2 ^ k dvd unat base \<and> unat base + ?n < 2 ^ 32 \<and>
        (\<forall>x. 2 ^ k dvd x \<longrightarrow> (x \<le> unat base \<longleftrightarrow> x + ?n \<le> hi r \<and> (?l = 0 \<or> x + ?n \<le> ?l)))"
    using start_greatest [OF ok(1) assms(3-5)] unfolding u32_eq_0_iff [of max_addr] .
  show ?case
  proof (cases "alloc_start r sz (2 ^ k) max_addr")
    case None
    with st have no: "\<not> ?in x" for x by simp
    have "free_block (ms @ [r]) ?us k ?n ?l = free_block ms ?us k ?n ?l" unfolding fun_eq_iff fb using no by blast
    with IH None show ?thesis by simp
  next
    case (Some base)
    with st have b: "2 ^ k dvd unat base" "unat base + ?n < 2 ^ 32"
      "\<And>x. 2 ^ k dvd x \<Longrightarrow> x \<le> unat base \<longleftrightarrow> x + ?n \<le> hi r \<and> (?l = 0 \<or> x + ?n \<le> ?l)" by auto
    have cand: "candidate ?us k ?n (unat (rbase r)) (unat base) x \<longleftrightarrow> 2 ^ k dvd x \<and> 0 < x \<and> ?in x \<and> clear_of ?us ?n x" for x
      using b(3) [of x] by (auto simp: candidate_def lo_def)
    have g: "greatest (candidate ?us k ?n (unat (rbase r)) (unat base)) (alloc_search used (rbase r) sz (2 ^ k) base)"
      by (rule search_greatest [OF assms(2-4) b(2,1)])
    show ?thesis
    proof (cases "alloc_search used (rbase r) sz (2 ^ k) base")
      case None
      with g have no: "\<not> candidate ?us k ?n (unat (rbase r)) (unat base) x" for x by (simp add: greatest_def)
      have "free_block (ms @ [r]) ?us k ?n ?l = free_block ms ?us k ?n ?l"
        unfolding fun_eq_iff fb using no [unfolded cand] by blast
      with IH Some None show ?thesis by simp
    next
      case (Some c)
      with g have "candidate ?us k ?n (unat (rbase r)) (unat base) (unat c)"
        "\<And>x. candidate ?us k ?n (unat (rbase r)) (unat base) x \<Longrightarrow> x \<le> unat c" by (simp_all add: greatest_def)
      then have "free_block (ms @ [r]) ?us k ?n ?l (unat c)" "\<forall>x. free_block (ms @ [r]) ?us k ?n ?l x \<longrightarrow> x \<le> unat c"
        unfolding fb cand using low by (auto intro: less_imp_le order.strict_trans2)
      with Some \<open>alloc_start r sz (2 ^ k) max_addr = Some base\<close> show ?thesis by (simp add: greatest_def)
    qed
  qed
qed

lemma free_block_ok: "regions_ok ms \<Longrightarrow> free_block ms us k n limit x \<Longrightarrow> x + n < 2 ^ 32"
  by (fastforce simp: free_block_def region_ok_def dest: regions_okD)

lemma add_region_succeeds:
  assumes "regions_ok (al_data lst)" "region_ok q" "no_touch (al_data lst)" "fits q (al_data lst)"
    and "\<not> al_fail lst" "al_malloc lst = []"
  shows "fst (lmb_add_region_flags lst (rbase q) (rsize q) (rflags q)) = 0"
proof -
  obtain rgn n where "add_merge q (al_data lst) = Some (rgn, n)" using add_merge_ok [OF assms(1-4)] by blast
  with assms(5,6) show ?thesis
    by (auto simp: lmb_add_region_flags_def add_merge_def alist_err_def alist_expand_by_def Let_def
        split: option.splits prod.splits)
qed

text \<open>C14: Allocation takes the highest free block.  On sorted lists in which no two reservations with the same
  flags touch, with room to grow and for a limit that is 0 (none) or not below the size, the
  allocation by size fails exactly when no block of the size fits into memory, below the limit,
  clear of every reservation, with the alignment and not at address 0; otherwise it returns the
  highest such block and adds exactly its addresses to what is reserved with the flags.  (A limit
  below the size is not refused: \<open>lmb_alloc_below_size\<close>.)\<close>

theorem lmb_alloc_base_highest:
  assumes "regions_ok (al_data (available_mem m))" "regions_ok (al_data (used_mem m))" "no_touch (al_data (used_mem m))"
    and "\<not> al_fail (used_mem m)" "al_malloc (used_mem m) = []"
    and "sz \<noteq> 0" "k < 32" "limit = 0 \<or> sz \<le> limit" "lmb_alloc_base m sz (2 ^ k) limit flags = (ret, addr, m')"
  shows "let free = free_block (al_data (available_mem m)) (al_data (used_mem m)) k (unat sz) (unat limit)
    in (ret = -1 \<and> m' = m \<and> (\<forall>x. \<not> free x)) \<or>
       (ret = 0 \<and> free (unat addr) \<and> (\<forall>x. free x \<longrightarrow> x \<le> unat addr) \<and>
        available_mem m' = available_mem m \<and> regions_ok (al_data (used_mem m')) \<and>
        (\<forall>f. cover (al_data (used_mem m')) f = cover (al_data (used_mem m)) f \<union>
           (if f = flags then {unat addr..<unat addr + unat sz} else {})))"
proof -
  let ?us = "al_data (used_mem m)" and ?ms = "al_data (available_mem m)"
  let ?free = "free_block ?ms ?us k (unat sz) (unat limit)"
  have g: "greatest ?free (alloc_regions (rev ?ms) (used_mem m) sz (2 ^ k) limit)"
    using assms(2) by (intro regions_greatest assms(1,6,7,8)) (auto dest: regions_okD)
  show ?thesis
  proof (cases "alloc_regions (rev ?ms) (used_mem m) sz (2 ^ k) limit")
    case None
    with g assms(9) show ?thesis by (simp add: lmb_alloc_base_def greatest_def Let_def)
  next
    case (Some b)
    with g have b: "?free (unat b)" "\<forall>x. ?free x \<longrightarrow> x \<le> unat b" by (simp_all add: greatest_def)
    define q where "q = \<lparr>rbase = b, rsize = sz, rflags = flags\<rparr>"
    have q: "rbase q = b" "rsize q = sz" "rflags q = flags" "lo q = unat b" "hi q = unat b + unat sz"
      by (simp_all add: q_def lo_def hi_def)
    have "unat b + unat sz < 2 ^ 32" using free_block_ok [OF assms(1) b(1)] .
    with assms(6) have ok: "region_ok q" by (simp add: region_ok_def q)
    have fits: "fits q ?us" using b(1) by (auto simp: fits_def free_block_def clear_of_def q)
    obtain lst where l: "lmb_add_region_flags (used_mem m) b sz flags = (0, lst)"
      using add_region_succeeds [OF assms(2) ok assms(3) fits assms(4,5)]
      by (cases "lmb_add_region_flags (used_mem m) b sz flags") (simp add: q)
    have m': "ret = 0" "addr = b" "m' = m\<lparr>used_mem := lst\<rparr>"
      using assms(9) Some l by (simp_all add: lmb_alloc_base_def lmb_map_update_notify_def)
    from add_region_ok [OF assms(2) ok assms(3) fits] l
    have "regions_ok (al_data lst)" "\<And>f. cover (al_data lst) f = cover ?us f \<union> (if f = flags then {unat b..<unat b + unat sz} else {})"
      unfolding q by simp_all
    with b m' show ?thesis by (simp add: Let_def)
  qed
qed

theorem lmb_alloc_base_highest_witness:
  "fst (snd (lmb_alloc_base three_regions 16 16 130 LMB_NOMAP)) = 80 \<and>
   free_block [\<lparr>rbase = 0, rsize = 1000, rflags = LMB_NONE\<rparr>] (al_data (used_mem three_regions)) 4 16 130 80 \<and>
   \<not> free_block [\<lparr>rbase = 0, rsize = 1000, rflags = LMB_NONE\<rparr>] (al_data (used_mem three_regions)) 4 16 130 96"
proof -
  have e: "fst (lmb_alloc_base three_regions 16 16 130 LMB_NOMAP) = 0" "fst (snd (lmb_alloc_base three_regions 16 16 130 LMB_NOMAP)) = 80"
    by code_simp+
  then obtain m' where m: "lmb_alloc_base three_regions 16 (2 ^ 4) 130 LMB_NOMAP = (0, 80, m')"
    by (cases "lmb_alloc_base three_regions 16 16 130 LMB_NOMAP") auto
  have "regions_ok (al_data (available_mem three_regions))"
    by (simp add: three_regions_def regions_ok_def region_ok_def hi_def)
  from lmb_alloc_base_highest [OF this three_regions_ok _ _ _ _ _ m] m show ?thesis
    by (auto simp: Let_def three_regions_def)
qed





text \<open>A limit below the size makes the first candidate wrap around: the block is taken at the top of the address space.\<close>

theorem lmb_alloc_below_size: "fst (snd (lmb_alloc_base three_regions 50 1 20 LMB_NONE)) = 0xffffffe2"
  by code_simp

section \<open>Freeing\<close>

lemma free_find_split:
  "free_find rs base fin i = Some n \<Longrightarrow>
     \<exists>xs r ys. rs = xs @ r # ys \<and> n = i + length xs \<and> rbase r \<le> base \<and> fin \<le> rbase r + rsize r - 1"
proof (induction rs arbitrary: i)
  case (Cons r rs)
  show ?case
  proof (cases "rbase r \<le> base \<and> fin \<le> rbase r + rsize r - 1")
    case True
    with Cons.prems show ?thesis by (intro exI [of _ "[]"]) auto
  next
    case False
    with Cons.IH [of "Suc i"] Cons.prems obtain xs q ys where "rs = xs @ q # ys" "n = Suc i + length xs"
      "rbase q \<le> base" "fin \<le> rbase q + rsize q - 1" by auto
    then show ?thesis by (intro exI [of _ "r # xs"]) auto
  qed
qed simp

lemma cover_below: "\<forall>x\<in>set xs. hi x \<le> a \<Longrightarrow> n \<in> cover xs f \<Longrightarrow> n < a"
  by (fastforce simp: cover_def)

lemma cover_above: "\<forall>x\<in>set xs. a \<le> lo x \<Longrightarrow> n \<in> cover xs f \<Longrightarrow> a \<le> n"
  by (fastforce simp: cover_def)

lemma no_touch_shrink:
  "no_touch (xs @ r # ys) \<Longrightarrow> rflags q = rflags r \<Longrightarrow> lo q = lo r \<Longrightarrow> \<forall>y\<in>set ys. hi q \<noteq> lo y \<Longrightarrow> no_touch (xs @ q # ys)"
proof (induction xs)
  case Nil
  then show ?case by (cases ys) auto
next
  case (Cons x xs)
  then show ?case by (cases xs) auto
qed

lemma regions_ok_narrow:
  assumes "regions_ok (xs @ r # ys)" "region_ok q" "lo r \<le> lo q" "hi q \<le> hi r"
  shows "regions_ok (xs @ q # ys)"
proof -
  have "hi x \<le> lo q" if "x \<in> set xs" for x
    using assms(1,3) that by (auto simp: regions_ok_append intro: order_trans)
  moreover have "hi q \<le> lo y" if "y \<in> set ys" for y
    using assms(1,4) that by (auto simp: regions_ok_append regions_ok_Cons intro: order_trans)
  ultimately show ?thesis using assms(1,2) by (simp add: regions_ok_append regions_ok_Cons)
qed

lemma free_ok:
  assumes ok: "regions_ok (al_data lst)" and nt: "no_touch (al_data lst)" and "sz \<noteq> 0" "unat base + unat sz < 2 ^ 32"
    and fr: "lmb_free_rgn lst base sz = (0, lst')"
  shows "regions_ok (al_data lst') \<and> (\<forall>f. cover (al_data lst') f = cover (al_data lst) f - {unat base..<unat base + unat sz})"
proof -
  define fin where "fin = base + sz - 1"
  let ?b = "unat base" and ?n = "unat sz"
  have q: "region_ok \<lparr>rbase = base, rsize = sz, rflags = LMB_NONE\<rparr>" using assms(3,4) by (simp add: reserve_form)
  have fin: "unat fin = ?b + ?n - 1" "unat (fin + 1) = ?b + ?n" "0 < ?n"
    using region_end [OF q] assms(3) by (simp_all add: fin_def hi_def unat_gt_0)
  obtain i where i: "free_find (al_data lst) base fin 0 = Some i"
    using fr by (auto simp: lmb_free_rgn_def fin_def [symmetric] Let_def split: option.splits)
  from free_find_split [OF i] obtain xs r ys where d: "al_data lst = xs @ r # ys" "i = length xs"
    "rbase r \<le> base" "fin \<le> rbase r + rsize r - 1" by auto
  have r: "region_ok r" "regions_ok xs" "regions_ok ys" "\<forall>x\<in>set xs. hi x \<le> lo r" "\<forall>y\<in>set ys. hi r \<le> lo y"
    "\<forall>x\<in>set xs. \<forall>y\<in>set ys. hi x \<le> lo y"
    using ok unfolding d(1) by (auto simp: regions_ok_append regions_ok_Cons)
  have in_r: "lo r \<le> ?b" "?b + ?n \<le> hi r"
    using d(3,4) region_end(2) [OF r(1)] fin lo_less_hi [OF r(1)] by (auto simp: u32_le_iff lo_def)
  have out: "n \<in> cover xs f \<Longrightarrow> n < ?b" "n \<in> cover ys f \<Longrightarrow> ?b + ?n \<le> n" for n f
    using cover_below [OF r(4), of n f] cover_above [OF r(5), of n f] in_r by auto
  have cov: "cover (al_data lst) f - {?b..<?b + ?n} =
      cover xs f \<union> (if rflags r = f then {lo r..<?b} \<union> {?b + ?n..<hi r} else {}) \<union> cover ys f" for f
    unfolding d(1) using in_r by (auto dest: out)
  note kept = regions_ok_narrow [OF ok [unfolded d(1)]]
  have result: "\<forall>f. cover (xs @ q # ys) f = cover (al_data lst) f - {?b..<?b + ?n}"
    if "rflags q = rflags r" "{lo q..<hi q} = {lo r..<?b} \<union> {?b + ?n..<hi r}" for q
    unfolding cov using that by (simp add: Un_assoc)
  have rend: "unat (rbase r + rsize r - 1) = hi r - 1" by (rule region_end(2) [OF r(1)])
  have eqs: "rbase r = base \<longleftrightarrow> lo r = ?b" "rbase r + rsize r - 1 = fin \<longleftrightarrow> hi r = ?b + ?n"
    using rend fin in_r by (auto simp: word_unat_eq_iff lo_def)
  have rs: "unat (rsize r - sz) = unat (rsize r) - ?n"
    using in_r by (intro unat_sub_no_wrap) (simp add: u32_le_iff hi_def lo_def)
  have sr: "hi r = lo r + unat (rsize r)" by (simp add: lo_def hi_def)
  have upd: "al_data lst ! i = r" "(al_data lst)[i := q] = xs @ q # ys" for q using d(1,2) by simp_all
  consider (whole) "lo r = ?b" "hi r = ?b + ?n" | (front) "lo r = ?b" "hi r \<noteq> ?b + ?n"
    | (rear) "lo r \<noteq> ?b" "hi r = ?b + ?n" | (mid) "lo r \<noteq> ?b" "hi r \<noteq> ?b + ?n" by blast
  then show ?thesis
  proof cases
    case whole
    have "al_data lst' = xs @ ys"
      using fr i whole eqs d by (auto simp: lmb_free_rgn_def fin_def [symmetric] Let_def lmb_remove_region_def)
    then show ?thesis using r whole cov by (auto simp: regions_ok_append)
  next
    case front
    let ?q = "r\<lparr>rbase := fin + 1, rsize := rsize r - sz\<rparr>"
    have "al_data lst' = xs @ ?q # ys"
      using fr i front eqs upd by (auto simp: lmb_free_rgn_def fin_def [symmetric] Let_def)
    moreover have "lo ?q = ?b + ?n" "hi ?q = hi r" using front in_r rs fin by (simp_all add: lo_def hi_def)
    ultimately show ?thesis using kept [of ?q] result [of ?q] front in_r r(1) sr by (auto simp: region_ok_def word_unat_eq_iff rs)
  next
    case rear
    let ?q = "r\<lparr>rsize := rsize r - sz\<rparr>"
    have "al_data lst' = xs @ ?q # ys"
      using fr i rear eqs upd by (auto simp: lmb_free_rgn_def fin_def [symmetric] Let_def)
    moreover have "lo ?q = lo r" "hi ?q = ?b" using rear in_r rs fin by (simp_all add: lo_def hi_def)
    ultimately show ?thesis using kept [of ?q] result [of ?q] rear in_r r(1) sr by (auto simp: region_ok_def word_unat_eq_iff rs)
  next
    case mid
    let ?l = "r\<lparr>rsize := base - rbase r\<rparr>"
    let ?q = "\<lparr>rbase = fin + 1, rsize = rbase r + rsize r - 1 - fin, rflags = rflags r\<rparr>"
    have "lmb_add_region_flags (lst\<lparr>al_data := xs @ ?l # ys\<rparr>) (rbase ?q) (rsize ?q) (rflags ?q) = (0, lst')"
      using fr i mid eqs upd by (auto simp: lmb_free_rgn_def fin_def [symmetric] Let_def)
    moreover have w: "lo ?l = lo r" "hi ?l = ?b" "lo ?q = ?b + ?n" "hi ?q = hi r"
      using mid in_r fin rend d(3,4) by (simp_all add: lo_def hi_def unat_sub_no_wrap)
    moreover from w mid in_r r(1) have ok': "region_ok ?l" "region_ok ?q"
      by (auto simp: region_ok_def word_unat_eq_iff lo_def hi_def)
    moreover have "regions_ok (xs @ ?l # ys)" by (rule kept [OF ok'(1)]) (use w in_r in simp_all)
    moreover have "fits ?q (xs @ ?l # ys)"
      using r(4,5) w in_r by (auto simp: fits_def intro: order_trans)
    moreover have "no_touch (xs @ ?l # ys)"
      using r(5) w in_r fin(3) by (intro no_touch_shrink [OF nt [unfolded d(1)]]) auto
    ultimately show ?thesis
      using add_region_ok [of "lst\<lparr>al_data := xs @ ?l # ys\<rparr>" ?q lst'] cov by (auto simp: Un_assoc)
  qed
qed

lemma add_region_status: "fst (lmb_add_region_flags lst base sz flags) \<in> {0, -1}"
  by (simp add: lmb_add_region_flags_def Let_def split: option.splits prod.splits)

lemma free_rgn_status: "fst (lmb_free_rgn lst base sz) \<in> {0, -1}"
  using add_region_status by (simp add: lmb_free_rgn_def Let_def split: option.splits)

text \<open>C15: Freeing is a difference.  On a sorted list of disjoint regions with no two that touch, a range that
  \<open>lmb_free\<close> accepts is taken away from what is reserved, whatever its flags, and nothing else is, whether
  the code removes a region, shortens it at either end or splits it in two.\<close>

theorem lmb_free_is_difference:
  assumes "regions_ok (al_data (used_mem m))" "no_touch (al_data (used_mem m))"
    and "sz \<noteq> 0" "unat base + unat sz < 2 ^ 32" "lmb_free m base sz flags = (0, m')"
  shows "regions_ok (al_data (used_mem m')) \<and> available_mem m' = available_mem m \<and>
    (\<forall>f. cover (al_data (used_mem m')) f = cover (al_data (used_mem m)) f - {unat base..<unat base + unat sz})"
proof -
  obtain ret lst where l: "lmb_free_rgn (used_mem m) base sz = (ret, lst)" by fastforce
  with assms(5) have "m' = m\<lparr>used_mem := lst\<rparr>" "ret = 0"
    using free_rgn_status [of "used_mem m" base sz]
    by (auto simp: lmb_free_def Let_def lmb_map_update_notify_def split: if_splits)
  with free_ok [OF assms(1-4)] l show ?thesis by simp
qed

theorem lmb_free_is_difference_witness:
  "cover (al_data (used_mem (snd (lmb_free three_regions 122 3 LMB_NONE)))) LMB_NONE =
     cover (al_data (used_mem three_regions)) LMB_NONE - {122..<125}"
proof -
  have "fst (lmb_free three_regions 122 3 LMB_NONE) = 0" by code_simp
  then obtain m' where m: "lmb_free three_regions 122 3 LMB_NONE = (0, m')"
    by (cases "lmb_free three_regions 122 3 LMB_NONE") simp
  from lmb_free_is_difference [OF three_regions_ok _ _ m] m show ?thesis by simp
qed

section \<open>U-Boot is protected from the first moment\<close>

lemma add_region_empty:
  "al_data lst = [] \<Longrightarrow> \<not> al_fail lst \<Longrightarrow> 0 < al_alloc lst \<Longrightarrow>
     lmb_add_region_flags lst base sz flags = (0, lst\<lparr>al_data := [\<lparr>rbase = base, rsize = sz, rflags = flags\<rparr>]\<rparr>)"
  by (simp add: lmb_add_region_flags_def add_scan.simps add_fixup_def alist_err_def alist_full_def)

lemma add_region_before:
  "al_data lst = [\<lparr>rbase = base + sz, rsize = n, rflags = flags\<rparr>] \<Longrightarrow> \<not> al_fail lst \<Longrightarrow>
     lmb_add_region_flags lst base sz flags = (0, lst\<lparr>al_data := [\<lparr>rbase = base, rsize = n + sz, rflags = flags\<rparr>]\<rparr>)"
  by (simp add: lmb_add_region_flags_def add_scan.simps add_fixup_def alist_err_def lmb_addrs_adjacent_def Let_def)

lemma reserve_empty:
  "al_data (used_mem m) = [] \<Longrightarrow> \<not> al_fail (used_mem m) \<Longrightarrow> 0 < al_alloc (used_mem m) \<Longrightarrow>
     lmb_reserve m base sz flags =
       (0, m\<lparr>used_mem := (used_mem m)\<lparr>al_data := [\<lparr>rbase = base, rsize = sz, rflags = flags\<rparr>]\<rparr>\<rparr>)"
  by (simp add: lmb_reserve_def lmb_overlap_checks_def add_region_empty lmb_map_update_notify_def)

lemma reserve_before:
  assumes "al_data (used_mem m) = [\<lparr>rbase = base + sz, rsize = n, rflags = flags\<rparr>]" "\<not> al_fail (used_mem m)"
    and "sz \<noteq> 0" "n \<noteq> 0" "unat base + unat sz + unat n < 2 ^ 32"
  shows "lmb_reserve m base sz flags =
    (0, m\<lparr>used_mem := (used_mem m)\<lparr>al_data := [\<lparr>rbase = base, rsize = n + sz, rflags = flags\<rparr>]\<rparr>\<rparr>)"
proof -
  let ?a = "\<lparr>rbase = base, rsize = sz, rflags = flags\<rparr>" and ?b = "\<lparr>rbase = base + sz, rsize = n, rflags = flags\<rparr>"
  have "unat (base + sz) = unat base + unat sz" using assms(5) by (intro unat_add_no_wrap) simp
  then have "\<not> lmb_addrs_overlap (rbase ?a) (rsize ?a) (rbase ?b) (rsize ?b)"
    using assms(3-5) by (subst overlap_iff) (simp_all add: region_ok_def lo_def hi_def)
  with assms(1,2) show ?thesis
    by (simp add: lmb_reserve_def lmb_overlap_checks_def add_region_before lmb_map_update_notify_def)
qed

text \<open>The map after \<open>lmb_setup\<close>, one bank of memory and the reservation of what lies from \<open>rsv\<close> up.\<close>

definition boot_map :: "u32 \<Rightarrow> u32 \<Rightarrow> u32 \<Rightarrow> lmb \<Rightarrow> lmb" where
  "boot_map start sz rsv m = m
     \<lparr>available_mem := \<lparr>al_data = [\<lparr>rbase = start, rsize = sz, rflags = LMB_NONE\<rparr>], al_alloc = 4, al_fail = False, al_malloc = []\<rparr>,
      used_mem := \<lparr>al_data = [\<lparr>rbase = rsv, rsize = start + sz - rsv, rflags = LMB_NOOVERWRITE\<rparr>], al_alloc = 4,
        al_fail = False, al_malloc = []\<rparr>\<rparr>"

definition one_bank :: "lmb_board \<Rightarrow> u32 \<Rightarrow> u32 \<Rightarrow> u32 \<Rightarrow> bool" where
  "one_bank B start sz rsv \<longleftrightarrow>
     bi_dram B = [(start, sz)] \<and> sz \<noteq> 0 \<and> unat start + unat sz < 2 ^ 32 \<and> rsv = start_addr_sp B - 0x1000000 \<and>
     start \<le> rsv \<and> rsv < ram_top B \<and> \<not> skip_reloc B \<and>
     (ram_top B = start + sz \<or> limit_dma_below_ram_top B \<and> ram_top B < start + sz - 1)"

lemma ucast_u64_diff: "(ucast ((ucast x :: u64) - ucast y) :: u32) = x - y"
  by transfer (simp add: take_bit_diff)

lemma ucast_u64_back: "(ucast (ucast (x :: u32) :: u64) :: u32) = x"
  using ucast_u64_diff [of x 0] by simp

lemma ucast_u64_cmp:
  "(ucast (x :: u32) :: u64) \<le> ucast (y :: u32) \<longleftrightarrow> x \<le> y" "(ucast (x :: u32) :: u64) < ucast (y :: u32) \<longleftrightarrow> x < y"
  by (simp_all add: word_le_nat_alt word_less_nat_alt ucast_u32_u64)

lemma one_bank_ends:
  assumes B: "one_bank B start sz rsv"
  shows "unat (start + sz) = unat start + unat sz" "unat (start + sz - 1) = unat start + unat sz - 1"
    and "0 < unat sz" "unat (ram_top B) \<le> unat start + unat sz" "unat rsv < unat (ram_top B)"
proof -
  have b: "unat start + unat sz < 2 ^ 32" "rsv < ram_top B" "sz \<noteq> 0" using B unfolding one_bank_def by blast+
  then show e: "unat (start + sz) = unat start + unat sz" "unat (start + sz - 1) = unat start + unat sz - 1" "0 < unat sz"
    using region_end [of "\<lparr>rbase = start, rsize = sz, rflags = LMB_NONE\<rparr>"] by (simp_all add: region_ok_def hi_def unat_gt_0)
  show "unat (ram_top B) \<le> unat start + unat sz" "unat rsv < unat (ram_top B)"
    using B b(2) e by (auto simp: one_bank_def u32_less_iff)
qed

lemma init_map:
  assumes B: "one_bank B start sz rsv"
  shows "lmb_reserve_uboot_region B (lmb_add_memory B (snd (lmb_setup [] [] m))) = boot_map start sz rsv m"
proof -
  have b: "bi_dram B = [(start, sz)]" "unat start + unat sz < 2 ^ 32" "rsv = start_addr_sp B - 0x1000000"
    "start \<le> rsv" "rsv < ram_top B" "\<not> skip_reloc B" "sz \<noteq> 0" using B unfolding one_bank_def by blast+
  note e = one_bank_ends(1-3) [OF B] and top_le = one_bank_ends(4) [OF B]
  have pos: "ram_top B \<noteq> 0" "start < ram_top B" "\<not> rsv < start" "\<not> start + sz - 1 < rsv"
    using b(4,5) top_le e by (auto simp: u32_less_iff u32_le_iff u32_eq_0_iff)
  let ?fresh = "\<lparr>al_data = [], al_alloc = 4, al_fail = False, al_malloc = []\<rparr>"
  have start: "snd (lmb_setup [] [] m) = m\<lparr>available_mem := ?fresh, used_mem := ?fresh\<rparr>"
    by (simp add: lmb_setup_def alist_init_def)
  have fresh: "lmb_add (m\<lparr>available_mem := ?fresh, used_mem := u\<rparr>) base n = (0, m\<lparr>available_mem :=
      \<lparr>al_data = [\<lparr>rbase = base, rsize = n, rflags = LMB_NONE\<rparr>], al_alloc = 4, al_fail = False, al_malloc = []\<rparr>, used_mem := u\<rparr>)" for base n u
    by (simp add: lmb_add_def add_region_empty lmb_map_update_notify_def)
  show ?thesis
  proof (cases "ram_top B = start + sz")
    case True
    then have "\<not> ram_top B < start + sz - 1" using e by (simp add: u32_less_iff)
    with True b(1,6,7) pos show ?thesis
      by (simp add: start fresh lmb_add_memory_def lmb_add_bank_def ucast_u64_cmp not_le lmb_reserve_uboot_region_def
          b(3) [symmetric] Let_def reserve_empty boot_map_def del: not_less)
  next
    case False
    then have lt: "ram_top B < start + sz - 1" "limit_dma_below_ram_top B" using B by (auto simp: one_bank_def)
    let ?t = "ram_top B"
    have n: "unat (start + sz - ?t) = unat start + unat sz - unat ?t" "unat (?t - rsv) = unat ?t - unat rsv"
      using e b(5) top_le unat_sub_no_wrap [of ?t "start + sz"] unat_sub_no_wrap [OF less_imp_le [OF b(5)]]
      by (simp_all add: u32_le_iff)
    then have "start + sz - ?t \<noteq> 0" "?t - rsv \<noteq> 0" "unat rsv + unat (?t - rsv) + unat (start + sz - ?t) < 2 ^ 32"
      using lt e b(2,5) by (auto simp: u32_eq_0_iff u32_less_iff)
    with reserve_before [of _ rsv "?t - rsv" "start + sz - ?t" LMB_NOOVERWRITE]
    have two: "al_data (used_mem m) = [\<lparr>rbase = ?t, rsize = start + sz - ?t, rflags = LMB_NOOVERWRITE\<rparr>] \<Longrightarrow> \<not> al_fail (used_mem m) \<Longrightarrow>
      lmb_reserve m rsv (?t - rsv) LMB_NOOVERWRITE =
       (0, m\<lparr>used_mem := (used_mem m)\<lparr>al_data := [\<lparr>rbase = rsv, rsize = start + sz - rsv, rflags = LMB_NOOVERWRITE\<rparr>]\<rparr>\<rparr>)" for m
      by (simp add: algebra_simps)
    have "?t < start + sz" using lt e by (simp add: u32_less_iff)
    with lt b(1,6,7) pos show ?thesis
      by (simp add: start fresh lmb_add_memory_def lmb_add_bank_def ucast_u64_cmp ucast_u64_diff ucast_u64_back not_le lmb_reserve_uboot_region_def
          b(3) [symmetric] Let_def reserve_empty two boot_map_def del: not_less)
  qed
qed

text \<open>C16: U-Boot is protected from its own loaders.  On a board with one bank of RAM whose stack lies in it,
  \<open>lmb_init\<close> succeeds and hands the device tree's reservations a map in which the
  memory from the bottom of the stack to the end of the bank is reserved as one
  \<open>LMB_NOOVERWRITE\<close> region, above \<open>ram_top\<close> too; in that map no read is accepted into it.\<close>

theorem init_protects_uboot:
  assumes "one_bank B start sz rsv"
  shows "lmb_init [] [] PHASE_BOARD_R fdt B m =
      (0, case fdt of None \<Rightarrow> boot_map start sz rsv m | Some f \<Rightarrow> f (boot_map start sz rsv m)) \<and>
    cover (al_data (used_mem (boot_map start sz rsv m))) LMB_NOOVERWRITE = {unat rsv..<unat start + unat sz} \<and>
    (\<forall>addr len. len \<noteq> 0 \<and> unat addr + unat len < 2 ^ 32 \<and> fst (lmb_read_check (boot_map start sz rsv m) addr len) = 0 \<longrightarrow>
       {unat rsv..<unat start + unat sz} \<inter> {unat addr..<unat addr + unat len} = {})"
proof (intro conjI allI impI)
  have "fst (lmb_setup [] [] m) = 0" by (simp add: lmb_setup_def alist_init_def)
  then show "lmb_init [] [] PHASE_BOARD_R fdt B m =
      (0, case fdt of None \<Rightarrow> boot_map start sz rsv m | Some f \<Rightarrow> f (boot_map start sz rsv m))"
    using init_map [OF assms, of m] by (auto simp: lmb_init_def lmb_reserve_common_def Let_def split: prod.split option.split)
  let ?us = "al_data (used_mem (boot_map start sz rsv m))"
  note e = one_bank_ends [OF assms]
  have d: "unat (start + sz - rsv) = unat start + unat sz - unat rsv" "unat rsv < unat start + unat sz"
    "unat start + unat sz < 2 ^ 32"
    using e assms unat_sub_no_wrap [of rsv "start + sz"] by (simp_all add: u32_le_iff one_bank_def)
  then show c: "cover ?us LMB_NOOVERWRITE = {unat rsv..<unat start + unat sz}"
    by (simp add: boot_map_def lo_def hi_def)
  have ok: "regions_ok ?us" "no_touch ?us" using d e by (simp_all add: boot_map_def regions_ok_def region_ok_def hi_def u32_eq_0_iff)
  fix addr len
  assume a: "len \<noteq> 0 \<and> unat addr + unat len < 2 ^ 32 \<and> fst (lmb_read_check (boot_map start sz rsv m) addr len) = 0"
  then show "{unat rsv..<unat start + unat sz} \<inter> {unat addr..<unat addr + unat len} = {}"
    using read_check_ok(1) [OF ok, of len addr "snd (lmb_read_check (boot_map start sz rsv m) addr len)" LMB_NOOVERWRITE] c
    by (cases "lmb_read_check (boot_map start sz rsv m) addr len") simp
qed

text \<open>A board with 256 MiB of RAM.\<close>

definition small_board :: lmb_board where
  "small_board = \<lparr>bi_dram = [(0x80000000, 0x10000000)], ram_top = 0x8f000000, limit_dma_below_ram_top = True,
     start_addr_sp = 0x8ee00000, skip_reloc = False, mon_start = 0x83000000, mon_len = 0x100000,
     spl_stack_r = True, spl_separate_bss = False, bss_start = 0, bss_end = 0\<rparr>"

theorem init_protects_uboot_witness:
  "lmb_init [] [] PHASE_BOARD_R None small_board three_regions =
     (0, boot_map 0x80000000 0x10000000 0x8de00000 three_regions) \<and>
   cover (al_data (used_mem (boot_map 0x80000000 0x10000000 0x8de00000 three_regions))) LMB_NOOVERWRITE = {0x8de00000..<0x90000000}"
  using init_protects_uboot [of small_board "0x80000000" "0x10000000" "0x8de00000" None three_regions]
  by (simp add: one_bank_def small_board_def)

end
