(* ===== verification/Images.thy ===== *)
theory Images
  imports WebflashUpload
begin

text \<open>
  What the console reads from the metadata of an OpenWrt image: the search for a value in a
  JSON array against the list that was printed, and the records fwtool appends to an image
  against the verdict of \<open>webflash_validate_fwtool\<close>.
\<close>

section \<open>Bytes at a place\<close>

definition holds :: "bytes_ptr \<Rightarrow> nat \<Rightarrow> byte list \<Rightarrow> bool" where
  "holds p off xs \<longleftrightarrow> mem_bytes p off (length xs) = xs"

lemma holds_simps [simp]:
  "holds p off []"
  "holds p off (x # xs) \<longleftrightarrow> p off = x \<and> holds p (Suc off) xs"
  by (simp_all add: holds_def mem_bytes_Suc)

lemma holds_append [simp]: "holds p off (xs @ ys) \<longleftrightarrow> holds p off xs \<and> holds p (off + length xs) ys"
  by (induction xs arbitrary: off) auto

lemma holds_shift: "holds (\<lambda>i. p (n + i)) off xs \<longleftrightarrow> holds p (n + off) xs"
  by (induction xs arbitrary: off) auto

lemma bytes_of_Cons [simp]: "bytes_of (c # s) = byte_of_char c # bytes_of s"
  by (simp add: bytes_of_def)

lemma bytes_of_mem: "byte_of_char c \<in> set (bytes_of s) \<longleftrightarrow> c \<in> set s"
  by (auto simp: bytes_of_def)

lemma bytes_of_eq_iff: "bytes_of s = bytes_of t \<longleftrightarrow> s = t"
  unfolding bytes_of_def by (rule inj_map_eq_map) (simp add: inj_def)

section \<open>JSON arrays of strings\<close>

lemma skip_until_at:
  "holds json p (xs @ [c]) \<Longrightarrow> c \<in> set stop \<Longrightarrow> set xs \<inter> set stop = {} \<Longrightarrow> p + length xs < fin \<Longrightarrow>
     skip_until json fin stop p = p + length xs"
  by (induction xs arbitrary: p) (simp_all add: skip_until.simps [of json fin stop])

lemma skip_string_at:
  "holds json p (xs @ [0x22]) \<Longrightarrow> 0x22 \<notin> set xs \<Longrightarrow> 0x5c \<notin> set xs \<Longrightarrow> p + length xs < fin \<Longrightarrow>
     skip_string json fin p = p + length xs"
  by (induction xs arbitrary: p) (auto simp: skip_string.simps [of json fin])

text \<open>An array: every string with what stands before it, and what stands before the closing bracket.\<close>

definition json_strings :: "(string \<times> string) list \<Rightarrow> string" where
  "json_strings items = concat (map (\<lambda>(s, d). s @ [CHR 0x22] @ d @ [CHR 0x22]) items)"

definition json_array :: "(string \<times> string) list \<Rightarrow> string \<Rightarrow> string" where
  "json_array items gap = ''['' @ json_strings items @ gap @ '']''"

definition is_gap :: "string \<Rightarrow> bool" where
  "is_gap s \<longleftrightarrow> CHR 0x22 \<notin> set s \<and> CHR '']'' \<notin> set s"

definition is_plain :: "string \<Rightarrow> bool" where
  "is_plain d \<longleftrightarrow> CHR 0x22 \<notin> set d \<and> CHR 0x5c \<notin> set d"

lemma json_bytes: "byte_of_char (CHR 0x22) = 0x22" "byte_of_char (CHR 0x5c) = 0x5c" "byte_of_char (CHR '']'') = 0x5d"
  "byte_of_char (CHR ''['') = 0x5b"
  by (simp_all add: byte_of_char_def)

lemma gap_bytes: "is_gap s \<Longrightarrow> set (bytes_of s) \<inter> set [0x22, 0x5d] = {}"
  using bytes_of_mem [of "CHR 0x22" s] bytes_of_mem [of "CHR '']''" s] by (auto simp: is_gap_def json_bytes)

lemma plain_bytes: "is_plain d \<Longrightarrow> 0x22 \<notin> set (bytes_of d) \<and> 0x5c \<notin> set (bytes_of d)"
  using bytes_of_mem [of "CHR 0x22" d] bytes_of_mem [of "CHR 0x5c" d] by (auto simp: is_plain_def json_bytes)

lemma json_items_list:
  "holds json p (bytes_of (json_strings items @ gap @ '']'')) \<Longrightarrow> p + length (json_strings items @ gap) < fin \<Longrightarrow>
   list_all (\<lambda>(s, d). is_gap s \<and> is_plain d) items \<Longrightarrow> is_gap gap \<Longrightarrow> NUL \<notin> set v \<Longrightarrow>
     json_items json fin v p \<longleftrightarrow> v \<in> snd ` set items"
proof (induction items arbitrary: p)
  case Nil
  let ?q = "p + length gap"
  have "skip_until json fin [0x22, 0x5d] p = ?q" "json ?q = 0x5d"
    using Nil gap_bytes [of gap] skip_until_at [of json p "bytes_of gap" "0x5d" "[0x22, 0x5d]" fin]
    by (simp_all add: json_strings_def json_bytes)
  then show ?case by (simp add: json_items.simps [of json fin v p] Let_def)
next
  case (Cons i items)
  obtain s d where i: "i = (s, d)" by (cases i)
  let ?q = "p + length s" and ?r = "p + length s + 1 + length d"
  have h: "holds json p (bytes_of s)" "json ?q = 0x22" "holds json (?q + 1) (bytes_of d)" "json ?r = 0x22"
    "holds json (?r + 1) (bytes_of (json_strings items @ gap @ '']''))" and g: "is_gap s" "is_plain d" "?r < fin"
    using Cons.prems by (simp_all add: i json_strings_def json_bytes add.assoc)
  have q: "skip_until json fin [0x22, 0x5d] p = ?q"
    using skip_until_at [of json p "bytes_of s" "0x22" "[0x22, 0x5d]" fin] h g gap_bytes [of s] by simp
  have r: "skip_string json fin (?q + 1) = ?r"
    using skip_string_at [of json "?q + 1" "bytes_of d" fin] h g plain_bytes [of d] by simp
  have nb: "json p \<noteq> 0x5d"
    using h g gap_bytes [of s] by (cases s) auto
  have d: "length d = length v \<and> mem_bytes json (?q + 1) (length v) = bytes_of v \<longleftrightarrow> d = v"
    using h(3) by (auto simp: holds_def bytes_of_eq_iff)
  have IH: "json_items json fin v (?r + 1) \<longleftrightarrow> v \<in> snd ` set items"
    using Cons by (intro Cons.IH h) (simp_all add: i json_strings_def add.assoc)
  have "json_items json fin v p \<longleftrightarrow> d = v \<or> json_items json fin v (?r + 1)"
    using nb q r g h d Cons.prems(5) by (subst json_items.simps) (auto simp: Let_def)
  then show ?case using IH by (auto simp: i)
qed

lemma find_least: "k < n \<Longrightarrow> P k \<Longrightarrow> \<forall>i<k. \<not> P i \<Longrightarrow> find P [0..<n] = Some k"
  by (subst find_Some_iff) (auto intro!: exI [of _ k])

lemma holds_part: "holds p 0 (bytes_of t) \<Longrightarrow> i + n \<le> length t \<Longrightarrow> mem_bytes p i n = bytes_of (take n (drop i t))"
proof (rule nth_equalityI)
  fix j assume h: "holds p 0 (bytes_of t)" "i + n \<le> length t" "j < length (mem_bytes p i n)"
  then have "mem_bytes p 0 (length t) ! (i + j) = bytes_of t ! (i + j)" by (simp add: holds_def)
  with h show "mem_bytes p i n ! j = bytes_of (take n (drop i t)) ! j" by simp
qed simp

lemma memmem_first:
  assumes "holds p 0 (bytes_of t)" "t = pre @ key @ post" "key \<noteq> []" "NUL \<notin> set key"
    and "\<forall>i<length pre. take (length key) (drop i t) \<noteq> key"
  shows "webflash_memmem p (length t) key = Some (length pre)"
proof -
  have "mem_bytes p i (length key) = bytes_of key \<longleftrightarrow> take (length key) (drop i t) = key" if "i \<le> length pre" for i
    using holds_part [OF assms(1), of i "length key"] that by (simp add: assms(2) bytes_of_eq_iff [symmetric])
  with assms(2-5) show ?thesis
    unfolding webflash_memmem_def by (auto simp: Let_def simp del: upt_Suc intro!: find_least)
qed

lemma array_has_iff:
  assumes "mem_bytes json 0 (length t) = bytes_of t" "t = pre @ key @ mid @ json_array items gap @ post"
    and "key \<noteq> []" "NUL \<notin> set key" "NUL \<notin> set v" "\<forall>i<length pre. take (length key) (drop i t) \<noteq> key"
    and "CHR ''['' \<notin> set mid" "list_all (\<lambda>(s, d). is_gap s \<and> is_plain d) items" "is_gap gap"
  shows "webflash_json_array_has json (length t) key v \<longleftrightarrow> v \<in> snd ` set items"
proof -
  have h: "holds json 0 (bytes_of t)" using assms(1) by (simp add: holds_def)
  have m: "webflash_memmem json (length t) key = Some (length pre)"
    by (rule memmem_first [OF h assms(2,3,4,6)])
  let ?p = "length pre + length key" and ?q = "length pre + length key + length mid"
  have at: "holds json ?p (bytes_of mid)" "json ?q = 0x5b" "holds json (?q + 1) (bytes_of (json_strings items @ gap @ '']''))"
    and lt: "?q + 1 + length (json_strings items @ gap) < length t"
    using h by (simp_all add: assms(2) json_array_def json_bytes add.assoc)
  have q: "skip_until json (length t) [0x5b] ?p = ?q"
    using skip_until_at [of json ?p "bytes_of mid" "0x5b" "[0x5b]" "length t"] at lt assms(7)
      bytes_of_mem [of "CHR ''[''" mid] by (simp add: json_bytes)
  from json_items_list [OF at(3) lt assms(8,9,5)] show ?thesis
    using m q lt assms(4) by (simp add: webflash_json_array_has_def Let_def)
qed

text \<open>C22: Searching the JSON metadata is membership in the printed list.  In a text whose first occurrence of
  the key is followed by an array of strings, with any gaps between them and anything after it,
  \<open>webflash_json_array_has\<close> finds exactly the strings of that array.\<close>

theorem json_array_lookup:
  assumes "mem_bytes json 0 (length t) = bytes_of t" "t = pre @ key @ mid @ json_array items gap @ post"
    and "key \<noteq> []" "NUL \<notin> set key" "NUL \<notin> set v" "\<forall>i<length pre. take (length key) (drop i t) \<noteq> key"
    and "CHR ''['' \<notin> set mid" "list_all (\<lambda>(s, d). is_gap s \<and> is_plain d) items" "is_gap gap"
  shows "webflash_json_array_has json (length t) key v \<longleftrightarrow> v \<in> snd ` set items"
  by (rule array_has_iff [OF assms])

definition sample_json :: string where
  "sample_json = ''{\"supported_devices\": [ \"ab\", \"hilink,hlk-7621a-evb\" ]}''"

lemma sample_json_text:
  "sample_json = ''{'' @ ''\"supported_devices\"'' @ '': '' @ json_array [('' '', ''ab''), ('', '', CONFIG_WEBFLASH_DEVICE_ID)] '' '' @ ''}''"
  "length sample_json = 55" "\<forall>i<length ''{''. take (length ''\"supported_devices\"'') (drop i sample_json) \<noteq> ''\"supported_devices\"''"
  "list_all (\<lambda>(s, d). is_gap s \<and> is_plain d) [('' '', ''ab''), ('', '', CONFIG_WEBFLASH_DEVICE_ID)]" "is_gap '' ''"
  by (simp_all add: sample_json_def json_array_def json_strings_def is_gap_def is_plain_def)

lemma ptr_of_all: "mem_bytes (ptr_of xs) 0 (length xs) = xs"
  by (simp add: mem_bytes_ptr_of)

theorem json_array_lookup_witness:
  "webflash_json_array_has (ptr_of (bytes_of sample_json)) 55 ''\"supported_devices\"'' ''ab''"
  using json_array_lookup [OF _ sample_json_text(1) _ _ _ sample_json_text(3) _ sample_json_text(4,5), of "ptr_of (bytes_of sample_json)" "''ab''"]
    ptr_of_all [of "bytes_of sample_json"] by (simp add: sample_json_text(2))

section \<open>The records of fwtool\<close>

definition be32 :: "u32 \<Rightarrow> byte list" where
  "be32 x = [ucast (drop_bit 24 x), ucast (drop_bit 16 x), ucast (drop_bit 8 x), ucast x]"

text \<open>A record appended to an image: its data, and a trailer with the checksum of all before the trailer.\<close>

definition fwtool_append :: "byte \<times> byte list \<Rightarrow> byte list \<Rightarrow> byte list" where
  "fwtool_append = (\<lambda>(ty, data) f.
     f @ data @ be32 WEBFLASH_FWTOOL_MAGIC @ be32 (crc32_no_comp 0 0xffffffff (f @ data)) @ [ty, 0, 0, 0] @
     be32 (of_nat (length data + 16)))"

lemma get_be32_at:
  assumes "holds p off (be32 x)"
  shows "get_be32 p off = x"
proof (rule bit_word_eqI)
  fix n assume "n < LENGTH(32)"
  then consider "n < 8" | "8 \<le> n" "n < 16" | "16 \<le> n" "n < 24" | "24 \<le> n" "n < 32" by force
  moreover have "p off = ucast (drop_bit 24 x)" "p (off + 1) = ucast (drop_bit 16 x)" "p (off + 2) = ucast (drop_bit 8 x)"
    "p (off + 3) = ucast x" using assms by (simp_all add: be32_def numeral_3_eq_3)
  ultimately show "bit (get_be32 p off) n \<longleftrightarrow> bit x n"
    unfolding get_be32_def by cases (auto simp: bit_simps)
qed

lemma length_be32 [simp]: "length (be32 x) = 4"
  by (simp add: be32_def)

lemma append_length [simp]: "length (fwtool_append (ty, data) f) = length f + length data + 16"
  by (simp add: fwtool_append_def)

lemma record_read:
  assumes "holds img 0 (fwtool_append (ty, data) f)" "length f + length data + 16 < 2 ^ 32"
  shows "fwtool_records (Suc d) addr img (of_nat (length f + length data + 16)) =
    (if ty \<noteq> WEBFLASH_FWTOOL_INFO then fwtool_records d addr img (of_nat (length f))
     else if length data \<le> 8 then (- EINVAL, ''OpenWrt metadata is empty'')
     else if get_be32 img (length f) \<noteq> 0 then (- EPROTONOSUPPORT, ''bad metadata version'')
     else if \<not> webflash_json_array_has (\<lambda>i. img (length f + 8 + i)) (length data - 8) ''\"supported_devices\"'' CONFIG_WEBFLASH_DEVICE_ID \<and>
             \<not> webflash_json_array_has (\<lambda>i. img (length f + 8 + i)) (length data - 8) ''\"new_supported_devices\"'' CONFIG_WEBFLASH_DEVICE_ID
     then (- ENODEV, ''image does not support '' @ CONFIG_WEBFLASH_DEVICE_ID)
     else (0, []))"
proof -
  let ?n = "length f + length data" and ?c = "of_nat (length f + length data + 16) :: u32"
  have h: "holds img 0 (f @ data)" "holds img ?n (be32 WEBFLASH_FWTOOL_MAGIC)"
    "holds img (?n + 4) (be32 (crc32_no_comp 0 0xffffffff (f @ data)))" "img (?n + 8) = ty"
    "holds img (?n + 12) (be32 (of_nat (length data + 16)))"
    using assms(1) by (simp_all add: fwtool_append_def ac_simps)
  have t: "fwimage_trailer img ?n = \<lparr>t_magic = WEBFLASH_FWTOOL_MAGIC, t_crc32 = crc32_no_comp 0 0xffffffff (f @ data),
      t_type = ty, t_size = of_nat (length data + 16)\<rparr>"
    using h(2-5) by (simp only: fwimage_trailer_def get_be32_at)
  have u: "unat ?c = ?n + 16" "unat (of_nat (length data + 16) :: u32) = length data + 16"
    using assms(2) by (simp_all add: unsigned_of_nat take_bit_nat_eq_self del: of_nat_add)
  have c: "\<not> ?c < 16" "\<not> of_nat (length data + 16) < (16 :: u32)" "\<not> ?c < of_nat (length data + 16)"
    using u by (simp_all only: u32_less_iff not_less) simp_all
  have o: "unat (?c - 16) = ?n" using c(1) u(1) unat_sub_no_wrap [of 16 ?c] by (simp del: of_nat_add)
  have e: "?c - of_nat (length data + 16) = of_nat (length f)" "of_nat (length data + 16) - (16 :: u32) = of_nat (length data)"
    by simp_all
  have l: "unat (of_nat (length data) :: u32) = length data" "unat (of_nat (length f) :: u32) = length f"
    using assms(2) by (simp_all add: unsigned_of_nat take_bit_nat_eq_self)
  have k: "unat (of_nat (length data) - 8 :: u32) = length data - 8" if "8 < length data"
    using that l(1) by (subst unat_sub_no_wrap) (simp_all add: u32_le_iff)
  have m: "mem_bytes img 0 ?n = f @ data" using h(1) by (simp only: holds_def length_append)
  show ?thesis
    unfolding fwtool_records.simps(2) Let_def o t webflash_fwimage_trailer.simps e m
    using c l k by (simp add: crc32_no_comp_bytewise u32_le_iff u32_less_iff del: of_nat_add)
qed

lemma later_records:
  "holds img 0 (fold fwtool_append later g) \<Longrightarrow> length (fold fwtool_append later g) < 2 ^ 32 \<Longrightarrow>
   list_all (\<lambda>(ty, data). ty \<noteq> WEBFLASH_FWTOOL_INFO) later \<Longrightarrow>
     fwtool_records (length later + d) addr img (of_nat (length (fold fwtool_append later g))) =
       fwtool_records d addr img (of_nat (length g)) \<and> holds img 0 g \<and> length g < 2 ^ 32"
proof (induction later rule: rev_induct)
  case (snoc r later)
  obtain ty data where r: "r = (ty, data)" by (cases r)
  let ?g = "fold fwtool_append later g"
  have "holds img 0 ?g" using snoc.prems(1) by (simp add: r fwtool_append_def)
  moreover have "fwtool_records (Suc (length later + d)) addr img (of_nat (length ?g + length data + 16)) =
      fwtool_records (length later + d) addr img (of_nat (length ?g))"
    using record_read [of img ty data ?g "length later + d" addr] snoc.prems by (simp add: r del: of_nat_add)
  ultimately show ?case using snoc by (simp add: r del: of_nat_add)
qed simp

lemma eight_zeros: "replicate 8 (0 :: byte) = be32 0 @ be32 0"
  by (simp add: be32_def numeral_eq_Suc)

text \<open>C21: The metadata decides.  Whatever the body of an image and the text of the metadata fwtool appended to it,
  also behind one or two further records such as a signature, the console accepts the image for
  this board exactly when one of the two device lists of that text names it, and otherwise
  reports another device; no such image is rejected as damaged.\<close>

theorem fwtool_metadata_decides:
  assumes "f = fold fwtool_append later (fwtool_append (WEBFLASH_FWTOOL_INFO, replicate 8 0 @ bytes_of json) base)"
    and "length later \<le> 2" "list_all (\<lambda>(ty, data). ty \<noteq> WEBFLASH_FWTOOL_INFO) later"
    and "json \<noteq> []" "length f < 2 ^ 32" "mem_bytes img 0 (length f) = f"
  shows "fst (webflash_validate_fwtool addr img (of_nat (length f)) detail_size) =
    (let p = (\<lambda>i. img (length base + 8 + i))
     in if webflash_json_array_has p (length json) ''\"supported_devices\"'' CONFIG_WEBFLASH_DEVICE_ID \<or>
           webflash_json_array_has p (length json) ''\"new_supported_devices\"'' CONFIG_WEBFLASH_DEVICE_ID
        then 0 else - ENODEV)"
proof -
  let ?g = "fwtool_append (WEBFLASH_FWTOOL_INFO, replicate 8 0 @ bytes_of json) base"
  obtain d where d: "3 = length later + Suc d" using assms(2) by (metis Suc_diff_le add_Suc_right le_add_diff_inverse numeral_2_eq_2 numeral_3_eq_3)
  have "holds img 0 (fold fwtool_append later ?g)" using assms(1,6) by (simp add: holds_def)
  from later_records [OF this _ assms(3), of "Suc d" addr] assms(1,5)
  have r: "fwtool_records 3 addr img (of_nat (length f)) = fwtool_records (Suc d) addr img (of_nat (length ?g))"
    "holds img 0 ?g" "length ?g < 2 ^ 32" by (simp_all only: d)
  have "get_be32 img (length base) = 0"
    using r(2) by (intro get_be32_at) (simp add: fwtool_append_def eight_zeros)
  then show ?thesis using r(1) record_read [OF r(2), of d addr] r(3) assms(4)
    by (auto simp: webflash_validate_fwtool_def Let_def simp del: of_nat_add)
qed

definition sample_image :: "byte list" where
  "sample_image = fold fwtool_append [(0, [1, 2])]
     (fwtool_append (WEBFLASH_FWTOOL_INFO, replicate 8 0 @ bytes_of sample_json) [7])"

lemma sample_device:
  "webflash_json_array_has (\<lambda>i. ptr_of sample_image (length [7 :: byte] + 8 + i)) (length sample_json)
     ''\"supported_devices\"'' CONFIG_WEBFLASH_DEVICE_ID"
proof -
  have "holds (ptr_of sample_image) 0 sample_image" by (simp add: holds_def ptr_of_all)
  then have "holds (ptr_of sample_image) (length [7 :: byte] + 8) (bytes_of sample_json)"
    by (simp add: sample_image_def fwtool_append_def)
  then have m: "mem_bytes (\<lambda>i. ptr_of sample_image (length [7 :: byte] + 8 + i)) 0 (length sample_json) = bytes_of sample_json"
    using holds_shift [of "ptr_of sample_image" "length [7 :: byte] + 8" 0 "bytes_of sample_json"] by (simp add: holds_def)
  show ?thesis
    using array_has_iff [OF m sample_json_text(1) _ _ _ sample_json_text(3) _ sample_json_text(4,5), of CONFIG_WEBFLASH_DEVICE_ID] by simp
qed

theorem fwtool_metadata_decides_witness:
  "fst (webflash_validate_fwtool 0x80010000 (ptr_of sample_image) (of_nat (length sample_image)) 96) = 0"
proof -
  have "length sample_image < 2 ^ 32" "sample_json \<noteq> []"
    by (simp_all add: sample_image_def sample_json_text(2) flip: length_greater_0_conv)
  with fwtool_metadata_decides [OF sample_image_def _ _ this(2,1) ptr_of_all, of "0x80010000" 96] sample_device
  show ?thesis by (simp add: Let_def)
qed

end
