(* ===== verification/EnvTable.thy ===== *)
theory EnvTable
  imports CString
begin

text \<open>
  lib/hashtable.c, the hash table behind the environment: open addressing with double hashing.
  A table is an array of \<open>size + 1\<close> nodes of which the first is never used; a node is free,
  deleted or used, and then holds the first hash value of its key.  Sizes are at least 5 and
  below 2^31 (\<open>himport_r\<close> asks for 64 to 512 entries), so the index arithmetic of the source
  does not wrap and indices are natural numbers; the hash value is computed modulo 2^32.

  Pointers that may be null are options.  The outcomes of the coming \<open>malloc\<close> calls are
  \<open>ht_malloc\<close> (an empty list: all succeed); following a null key sets \<open>ht_fault\<close>.  \<open>errno\<close>
  is not modelled.  What the environment hangs into a table is the record \<open>env_hooks\<close>: the
  permission check, and the callback and the flags a new variable gets from the lists of
  callbacks and flags; callbacks answer with a status and leave the table alone.
\<close>

section \<open>Data\<close>

datatype env_action = ENV_FIND | ENV_ENTER

datatype env_op = env_op_create | env_op_delete | env_op_overwrite

type_synonym env_callback = "string \<Rightarrow> string option \<Rightarrow> env_op \<Rightarrow> u32 \<Rightarrow> int"

record env_entry =
  e_key :: "string option"
  e_data :: "string option"
  e_callback :: "env_callback option"
  e_flags :: u32

record env_entry_node =
  n_used :: int
  n_entry :: env_entry

record hsearch_data =
  ht_table :: "env_entry_node list option"
  ht_size :: nat
  ht_filled :: u32
  ht_malloc :: "bool list"
  ht_fault :: bool

record env_hooks =
  change_ok :: "(env_entry \<Rightarrow> string option \<Rightarrow> env_op \<Rightarrow> u32 \<Rightarrow> int) option"
  callback_of :: "string \<Rightarrow> env_callback option"
  flags_of :: "string \<Rightarrow> u32 option"

abbreviation EPERM :: int where "EPERM \<equiv> 1"

abbreviation USED_FREE :: int where "USED_FREE \<equiv> 0"
abbreviation USED_DELETED :: int where "USED_DELETED \<equiv> - 1"

definition zero_node :: env_entry_node where
  "zero_node = \<lparr>n_used = USED_FREE, n_entry = \<lparr>e_key = None, e_data = None, e_callback = None, e_flags = 0\<rparr>\<rparr>"

definition nodes :: "hsearch_data \<Rightarrow> env_entry_node list" where
  "nodes htab = (case ht_table htab of None \<Rightarrow> [] | Some t \<Rightarrow> t)"

definition used :: "hsearch_data \<Rightarrow> nat \<Rightarrow> int" where
  "used htab i = n_used (nodes htab ! i)"

definition entry :: "hsearch_data \<Rightarrow> nat \<Rightarrow> env_entry" where
  "entry htab i = n_entry (nodes htab ! i)"

definition set_node :: "hsearch_data \<Rightarrow> nat \<Rightarrow> env_entry_node \<Rightarrow> hsearch_data" where
  "set_node htab i nd = htab\<lparr>ht_table := Some ((nodes htab)[i := nd])\<rparr>"

definition try_malloc :: "hsearch_data \<Rightarrow> bool \<times> hsearch_data" where
  "try_malloc htab =
     (case ht_malloc htab of [] \<Rightarrow> (True, htab) | ok # ms \<Rightarrow> (ok, htab\<lparr>ht_malloc := ms\<rparr>))"

text \<open>\<open>strdup\<close> of lib/string.c.\<close>

definition strdup :: "string option \<Rightarrow> hsearch_data \<Rightarrow> string option \<times> hsearch_data" where
  "strdup s htab =
     (case s of
        None \<Rightarrow> (None, htab)
      | Some s \<Rightarrow> let (ok, htab) = try_malloc htab in (if ok then Some (cstr s) else None, htab))"

section \<open>Creating and destroying a table\<close>

function isprime_loop :: "nat \<Rightarrow> nat \<Rightarrow> bool" where
  "isprime_loop n dv =
     (if dv * dv < n \<and> n mod dv \<noteq> 0 then isprime_loop n (dv + 2) else n mod dv \<noteq> 0)"
  by pat_completeness auto
termination
proof (relation "measure (\<lambda>(n, dv). n - dv)", goal_cases)
  case (2 n dv)
  then have "dv < n" by (cases dv) auto
  with 2 show ?case by simp
qed simp

declare isprime_loop.simps [simp del]

definition isprime :: "nat \<Rightarrow> bool" where
  "isprime n = isprime_loop n 3"

text \<open>On odd numbers other than 3 this is primality, but that 1 counts as prime.\<close>

definition prime_number :: "nat \<Rightarrow> bool" where
  "prime_number p \<longleftrightarrow> 1 < p \<and> (\<forall>d. d dvd p \<longrightarrow> d = 1 \<or> d = p)"

lemma isprime_loop_iff:
  "odd n \<Longrightarrow> odd dv \<Longrightarrow> 1 < dv \<Longrightarrow> dv < n \<Longrightarrow> (\<forall>d. 1 < d \<and> d < dv \<longrightarrow> \<not> d dvd n) \<Longrightarrow>
     isprime_loop n dv \<longleftrightarrow> prime_number n"
proof (induction n dv rule: isprime_loop.induct)
  case (1 n dv)
  consider (found) "n mod dv = 0" | (step) "dv * dv < n" "n mod dv \<noteq> 0" | (stop) "n \<le> dv * dv" "n mod dv \<noteq> 0" by linarith
  then show ?case
  proof cases
    case found
    then have "dv dvd n" by auto
    with 1(4,5) have "\<not> prime_number n" by (auto simp: prime_number_def)
    with found show ?thesis by (simp add: isprime_loop.simps)
  next
    case step
    have small: "\<not> d dvd n" if a: "1 < d" "d < dv + 2" for d
    proof -
      consider "d < dv" | "d = dv" | "d = Suc dv" using a by linarith
      then show ?thesis
      proof cases
        case 3
        then have "even d" using 1(3) by simp
        with 1(2) show ?thesis by (auto elim: dvd_trans)
      qed (use 1(6) a step in \<open>auto simp: dvd_eq_mod_eq_0\<close>)
    qed
    have "3 * dv \<le> dv * dv" using 1(3,4) by (cases "dv = 2") auto
    then have "dv + 2 < n" using step(1) 1(4) by linarith
    then have "isprime_loop n (dv + 2) \<longleftrightarrow> prime_number n" using 1 step small by (intro 1(1)) auto
    with step show ?thesis by (subst isprime_loop.simps) simp
  next
    case stop
    have "prime_number n" unfolding prime_number_def
    proof (intro conjI allI impI)
      fix d assume "d dvd n"
      then obtain e where e: "n = d * e" by auto
      show "d = 1 \<or> d = n"
      proof (rule ccontr)
        assume no: "\<not> (d = 1 \<or> d = n)"
        have "d \<noteq> 0" "e \<noteq> 0" using e 1(5) by (metis mult_0 mult_0_right not_less_zero)+
        moreover have "d \<noteq> 1" "e \<noteq> 1" using e no by auto
        ultimately have "1 < d" "1 < e" by linarith+
        moreover have "d \<noteq> dv" "e \<noteq> dv" using stop(2) e by auto
        ultimately have "dv < d" "dv < e" using 1(6) e by (metis dvd_triv_left dvd_triv_right linorder_neqE_nat)+
        then have "dv * dv < d * e" using \<open>1 < d\<close> by (intro mult_strict_mono) auto
        with e stop(1) show False by simp
      qed
    qed (use 1 in simp)
    with stop show ?thesis by (subst isprime_loop.simps) simp
  qed
qed

lemma isprime_iff: "odd n \<Longrightarrow> 3 < n \<Longrightarrow> isprime n \<longleftrightarrow> prime_number n"
proof -
  assume n: "odd n" "3 < n"
  have "\<not> d dvd n" if "1 < d" "d < 3" for d using n(1) that by (cases "d = 2") auto
  with n show ?thesis unfolding isprime_def by (intro isprime_loop_iff) auto
qed

lemma prime_above: "\<exists>p. n < p \<and> prime_number p"
proof -
  define m where "m = fact n + (1 :: nat)"
  define p where "p = (LEAST d. 1 < d \<and> d dvd m)"
  have "1 < m" by (simp add: m_def)
  then have p: "1 < p" "p dvd m" using LeastI [of "\<lambda>d. 1 < d \<and> d dvd m" m] by (auto simp: p_def)
  have least: "p \<le> d" if "1 < d" "d dvd m" for d using that by (auto simp: p_def intro: Least_le)
  have "\<not> p \<le> n"
  proof
    assume "p \<le> n"
    with p(1) have "p dvd fact n" by (simp add: dvd_fact)
    with p have "p dvd 1" by (metis m_def dvd_add_right_iff)
    with p(1) show False by simp
  qed
  moreover have "prime_number p" unfolding prime_number_def
  proof (intro conjI allI impI p(1))
    fix d assume d: "d dvd p"
    then have "0 < d" "d \<le> p" using p(1) by (auto intro: dvd_imp_le Nat.gr0I)
    moreover have "d dvd m" using d p(2) by (rule dvd_trans)
    ultimately show "d = 1 \<or> d = p" using least [of d] by linarith
  qed
  ultimately show ?thesis by (auto simp: not_le)
qed

lemma odd_prime_above: "\<exists>p. n \<le> p \<and> odd p \<and> isprime p"
proof -
  obtain p where p: "max n 3 < p" "prime_number p" using prime_above by blast
  then have "odd p" by (auto simp: prime_number_def)
  with p show ?thesis using isprime_iff [of p] by (intro exI [of _ p]) auto
qed

text \<open>The loop that looks for the size; \<open>n\<close> is odd.\<close>

function next_prime :: "nat \<Rightarrow> nat" where
  "next_prime n = (if isprime n \<or> even n then n else next_prime (n + 2))"
  by pat_completeness auto
termination
proof (relation "measure (\<lambda>n. (LEAST p. n \<le> p \<and> odd p \<and> isprime p) - n)", goal_cases)
  case (2 n)
  have "(\<lambda>p. n \<le> p \<and> odd p \<and> isprime p) = (\<lambda>p. n + 2 \<le> p \<and> odd p \<and> isprime p)"
  proof
    fix p
    have "n + 2 \<le> p" if "n \<le> p" "odd p" "isprime p"
    proof -
      have "p \<noteq> n" using that(3) 2 by auto
      moreover have "p \<noteq> Suc n" using that(2) 2 by auto
      ultimately show ?thesis using that(1) by linarith
    qed
    then show "(n \<le> p \<and> odd p \<and> isprime p) = (n + 2 \<le> p \<and> odd p \<and> isprime p)" by auto
  qed
  moreover have "n + 2 \<le> (LEAST p. n + 2 \<le> p \<and> odd p \<and> isprime p)"
    using LeastI_ex [OF odd_prime_above [of "n + 2"]] by simp
  ultimately show ?case by simp
qed simp

declare next_prime.simps [simp del]

definition hcreate_r :: "nat \<Rightarrow> hsearch_data \<Rightarrow> int \<times> hsearch_data" where
  "hcreate_r nel htab =
     (case ht_table htab of
        Some _ \<Rightarrow> (0, htab)
      | None \<Rightarrow>
          let sz = next_prime (if even nel then nel + 1 else nel);
              htab = htab\<lparr>ht_size := sz, ht_filled := 0\<rparr>;
              (ok, htab) = try_malloc htab
          in if \<not> ok then (0, htab) else (1, htab\<lparr>ht_table := Some (replicate (sz + 1) zero_node)\<rparr>))"

definition hdestroy_r :: "hsearch_data \<Rightarrow> hsearch_data" where
  "hdestroy_r htab = htab\<lparr>ht_table := None\<rparr>"

section \<open>Searching\<close>

text \<open>The value for a string, from its last character to the first; \<open>char\<close> is signed.\<close>

definition hash_value :: "string \<Rightarrow> u32" where
  "hash_value k =
     fold (\<lambda>c hval. push_bit 4 hval + of_int (sint (byte_of_char c))) (rev (cstr k)) (of_nat (strlen k))"

definition first_hash :: "nat \<Rightarrow> string \<Rightarrow> nat" where
  "first_hash sz k = (let hval = unat (hash_value k) mod sz in if hval = 0 then 1 else hval)"

definition second_hash :: "nat \<Rightarrow> nat \<Rightarrow> nat" where
  "second_hash sz hval = 1 + hval mod (sz - 2)"

text \<open>The next index of the probe sequence.\<close>

definition probe_next :: "nat \<Rightarrow> nat \<Rightarrow> nat \<Rightarrow> nat" where
  "probe_next sz hval2 idx = (if idx \<le> hval2 then sz + idx - hval2 else idx - hval2)"

definition do_callback :: "env_entry \<Rightarrow> string \<Rightarrow> string option \<Rightarrow> env_op \<Rightarrow> u32 \<Rightarrow> int" where
  "do_callback e name v op flag = (case e_callback e of None \<Rightarrow> 0 | Some f \<Rightarrow> f name v op flag)"

definition denied :: "env_hooks \<Rightarrow> env_entry \<Rightarrow> string option \<Rightarrow> env_op \<Rightarrow> u32 \<Rightarrow> bool" where
  "denied H e v op flag = (case change_ok H of None \<Rightarrow> False | Some f \<Rightarrow> f e v op flag \<noteq> 0)"

type_synonym search_result = "int \<times> nat option \<times> hsearch_data"

text \<open>\<open>None\<close> is the result -1, keep searching; the entry returned is named by its index.\<close>

definition compare_and_overwrite_entry ::
    "env_hooks \<Rightarrow> string \<Rightarrow> string option \<Rightarrow> env_action \<Rightarrow> hsearch_data \<Rightarrow> u32 \<Rightarrow> nat \<Rightarrow> nat \<Rightarrow> search_result option" where
  "compare_and_overwrite_entry H k data action htab flag hval idx =
     (if used htab idx \<noteq> int hval then None
      else case e_key (entry htab idx) of
        None \<Rightarrow> Some (0, None, htab\<lparr>ht_fault := True\<rparr>)
      | Some key \<Rightarrow>
          if strcmp k key \<noteq> 0 then None
          else case (action, data) of
            (ENV_ENTER, Some v) \<Rightarrow>
              if denied H (entry htab idx) data env_op_overwrite flag then Some (0, None, htab)
              else if do_callback (entry htab idx) k data env_op_overwrite flag \<noteq> 0 then Some (0, None, htab)
              else let (v', htab) = strdup data htab;
                       htab = set_node htab idx ((nodes htab ! idx)\<lparr>n_entry := (entry htab idx)\<lparr>e_data := v'\<rparr>\<rparr>)
                   in (case v' of None \<Rightarrow> Some (0, None, htab) | Some _ \<Rightarrow> Some (int idx, Some idx, htab))
          | _ \<Rightarrow> Some (int idx, Some idx, htab))"

text \<open>The \<open>do\<close> loop: a result, or the index it stopped at and the first deleted node it saw.\<close>

datatype probe_result = Found search_result | Miss nat nat

partial_function (option) probe ::
    "env_hooks \<Rightarrow> string \<Rightarrow> string option \<Rightarrow> env_action \<Rightarrow> hsearch_data \<Rightarrow> u32 \<Rightarrow> nat \<Rightarrow> nat \<Rightarrow> nat \<Rightarrow> probe_result option" where
  [code]: "probe H k data action htab flag hval idx first_deleted =
     (let idx = probe_next (ht_size htab) (second_hash (ht_size htab) hval) idx
      in if idx = hval then Some (Miss idx first_deleted)
         else let first_deleted = (if used htab idx = USED_DELETED \<and> first_deleted = 0 then idx else first_deleted)
              in (case compare_and_overwrite_entry H k data action htab flag hval idx of
                    Some r \<Rightarrow> Some (Found r)
                  | None \<Rightarrow> if used htab idx \<noteq> USED_FREE then probe H k data action htab flag hval idx first_deleted
                            else Some (Miss idx first_deleted)))"

definition hdelete_entry :: "hsearch_data \<Rightarrow> nat \<Rightarrow> hsearch_data" where
  "hdelete_entry htab idx =
     (let htab = set_node htab idx \<lparr>n_used = USED_DELETED, n_entry = (entry htab idx)\<lparr>e_flags := 0\<rparr>\<rparr>
      in htab\<lparr>ht_filled := ht_filled htab - 1\<rparr>)"

text \<open>A new entry in the node at \<open>idx\<close>.\<close>

definition create_entry :: "env_hooks \<Rightarrow> string \<Rightarrow> string option \<Rightarrow> hsearch_data \<Rightarrow> u32 \<Rightarrow> nat \<Rightarrow> nat \<Rightarrow> search_result" where
  "create_entry H k data htab flag hval idx =
     (let (key, htab) = strdup (Some k) htab; (v, htab) = strdup data htab;
          htab = set_node htab idx \<lparr>n_used = int hval, n_entry = (entry htab idx)\<lparr>e_key := key, e_data := v\<rparr>\<rparr>
      in if key = None \<or> v = None then (0, None, htab)
         else let htab = htab\<lparr>ht_filled := ht_filled htab + 1\<rparr>;
                  e = (entry htab idx)\<lparr>e_callback := callback_of H (the key), 
                        e_flags := (case flags_of H (the key) of None \<Rightarrow> e_flags (entry htab idx) | Some fl \<Rightarrow> fl)\<rparr>;
                  htab = set_node htab idx ((nodes htab ! idx)\<lparr>n_entry := e\<rparr>)
              in if denied H (entry htab idx) data env_op_create flag then (0, None, hdelete_entry htab idx)
                 else if do_callback (entry htab idx) k data env_op_create flag \<noteq> 0 then (0, None, hdelete_entry htab idx)
                 else (1, Some idx, htab))"

text \<open>\<open>None\<close> where the search does not end.\<close>

definition hsearch_r :: "env_hooks \<Rightarrow> string \<Rightarrow> string option \<Rightarrow> env_action \<Rightarrow> hsearch_data \<Rightarrow> u32 \<Rightarrow> search_result option" where
  "hsearch_r H k data action htab flag =
     (let hval = first_hash (ht_size htab) k;
          first_deleted = (if used htab hval = USED_DELETED then hval else 0);
          found = (if used htab hval = USED_FREE then Some (Miss hval 0)
                   else case compare_and_overwrite_entry H k data action htab flag hval hval of
                     Some r \<Rightarrow> Some (Found r)
                   | None \<Rightarrow> probe H k data action htab flag hval hval first_deleted)
      in case found of
           None \<Rightarrow> None
         | Some (Found r) \<Rightarrow> Some r
         | Some (Miss idx first_deleted) \<Rightarrow>
             Some (if action = ENV_ENTER
                   then if ht_filled htab = of_nat (ht_size htab) then (0, None, htab)
                        else create_entry H k data htab flag hval (if first_deleted \<noteq> 0 then first_deleted else idx)
                   else (0, None, htab)))"

definition hdelete_r :: "env_hooks \<Rightarrow> string \<Rightarrow> hsearch_data \<Rightarrow> u32 \<Rightarrow> (int \<times> hsearch_data) option" where
  "hdelete_r H k htab flag =
     (case hsearch_r H k None ENV_FIND htab 0 of
        None \<Rightarrow> None
      | Some (idx, ep, htab) \<Rightarrow>
          Some (if idx = 0 then (- ENOENT, htab)
                else let i = nat idx
                     in if denied H (entry htab i) None env_op_delete flag then (- EPERM, htab)
                        else if do_callback (entry htab i) k None env_op_delete flag \<noteq> 0 then (- EINVAL, htab)
                        else (0, hdelete_entry htab i)))"

text \<open>The scan of \<open>hmatch_r\<close> leaves out the last node, at index \<open>size\<close>.\<close>

definition hmatch_r :: "string \<Rightarrow> nat \<Rightarrow> hsearch_data \<Rightarrow> nat option" where
  "hmatch_r mat last_idx htab =
     find (\<lambda>idx. 0 < used htab idx \<and> strncmp mat (case e_key (entry htab idx) of None \<Rightarrow> [] | Some k \<Rightarrow> k) (strlen mat) = 0)
       [last_idx + 1..<ht_size htab]"

text \<open>\<open>hwalk_r\<close>: the callback may change the entry it is given; the first result that is not 0 ends the walk.\<close>

fun hwalk_from :: "(env_entry \<Rightarrow> int \<times> env_entry) \<Rightarrow> nat list \<Rightarrow> hsearch_data \<Rightarrow> int \<times> hsearch_data" where
  "hwalk_from callback [] htab = (0, htab)"
| "hwalk_from callback (i # idxs) htab =
     (if 0 < used htab i
      then let (retval, e) = callback (entry htab i);
               htab = set_node htab i ((nodes htab ! i)\<lparr>n_entry := e\<rparr>)
           in if retval \<noteq> 0 then (retval, htab) else hwalk_from callback idxs htab
      else hwalk_from callback idxs htab)"

definition hwalk_r :: "hsearch_data \<Rightarrow> (env_entry \<Rightarrow> int \<times> env_entry) \<Rightarrow> int \<times> hsearch_data" where
  "hwalk_r htab callback = hwalk_from callback [1..<ht_size htab + 1] htab"

end
