(* ===== verification/EnvDict.thy ===== *)
theory EnvDict
  imports EnvTable
begin

text \<open>
  The hash table as a dictionary.  For a prime size the probe sequence of a key visits every
  node once; the invariant says that a key lies on its sequence with no free node before it.
  So a search ends, finds what was entered, and entering and deleting change one key only.
\<close>

section \<open>The probe sequence\<close>

definition probe_at :: "nat \<Rightarrow> nat \<Rightarrow> nat \<Rightarrow> nat" where
  "probe_at sz h n = (probe_next sz (second_hash sz h) ^^ n) h"

lemma probe_at_simps [simp]:
  "probe_at sz h 0 = h"
  "probe_at sz h (Suc n) = probe_next sz (second_hash sz h) (probe_at sz h n)"
  by (simp_all add: probe_at_def)

definition size_ok :: "nat \<Rightarrow> bool" where
  "size_ok sz \<longleftrightarrow> 5 \<le> sz \<and> sz < 2 ^ 31 \<and> prime_number sz"

lemma second_hash_bounds: "size_ok sz \<Longrightarrow> 0 < second_hash sz h \<and> second_hash sz h < sz"
proof -
  assume "size_ok sz"
  then have "h mod (sz - 2) < sz - 2" by (simp add: size_ok_def)
  then show ?thesis by (simp add: second_hash_def)
qed

lemma probe_at_range:
  assumes "size_ok sz" "1 \<le> h" "h \<le> sz"
  shows "1 \<le> probe_at sz h n \<and> probe_at sz h n \<le> sz \<and> (probe_at sz h n + n * second_hash sz h) mod sz = h mod sz"
proof (induction n)
  case (Suc n)
  let ?s = "second_hash sz h" and ?p = "probe_at sz h n"
  have s: "0 < ?s" "?s < sz" using second_hash_bounds [OF assms(1)] by auto
  have "(probe_next sz ?s ?p + ?s) mod sz = ?p mod sz" using s by (auto simp: probe_next_def)
  then have "(probe_next sz ?s ?p + ?s + n * ?s) mod sz = (?p + n * ?s) mod sz" by (metis mod_add_left_eq)
  then show ?case using Suc s by (auto simp: probe_next_def algebra_simps)
qed (use assms in simp)

lemma prime_coprime: "prime_number p \<Longrightarrow> 0 < s \<Longrightarrow> s < p \<Longrightarrow> coprime p s"
proof -
  assume p: "prime_number p" "0 < s" "s < p"
  have "gcd p s \<noteq> p" using p(2,3) by (metis gcd_dvd2 dvd_imp_le not_less)
  moreover have "gcd p s = 1 \<or> gcd p s = p" using p(1) by (simp add: prime_number_def)
  ultimately show ?thesis by (simp add: coprime_iff_gcd_eq_1)
qed

lemma probe_at_inj:
  assumes "size_ok sz" "1 \<le> h" "h \<le> sz" "m < n" "n - m < sz" 
  shows "probe_at sz h m \<noteq> probe_at sz h n"
proof
  assume e: "probe_at sz h m = probe_at sz h n"
  let ?s = "second_hash sz h"
  have "(probe_at sz h m + n * ?s) mod sz = (probe_at sz h m + m * ?s) mod sz"
    using probe_at_range [OF assms(1-3), of m] probe_at_range [OF assms(1-3), of n] e by simp
  moreover have "probe_at sz h m + m * ?s \<le> probe_at sz h m + n * ?s" using assms(4) by simp
  ultimately have "sz dvd (probe_at sz h m + n * ?s) - (probe_at sz h m + m * ?s)" by (simp only: mod_eq_dvd_iff_nat)
  then have "sz dvd (n - m) * ?s" by (simp add: diff_mult_distrib)
  moreover have "coprime sz ?s" using prime_coprime second_hash_bounds [OF assms(1)] assms(1) by (simp add: size_ok_def)
  ultimately have "sz dvd n - m" by (simp add: coprime_dvd_mult_left_iff)
  with assms(4,5) show False by (auto dest: dvd_imp_le)
qed

lemma probe_at_all:
  assumes "size_ok sz" "1 \<le> h" "h \<le> sz" "1 \<le> i" "i \<le> sz"
  shows "\<exists>n. n < sz \<and> probe_at sz h n = i"
proof -
  have "inj_on (probe_at sz h) {..<sz}"
    using probe_at_inj [OF assms(1-3)] by (intro inj_onI) (metis less_imp_diff_less lessThan_iff linorder_neqE_nat)
  then have "card (probe_at sz h ` {..<sz}) = card {1..sz}" by (simp add: card_image)
  moreover have "probe_at sz h ` {..<sz} \<subseteq> {1..sz}" using probe_at_range [OF assms(1-3)] by auto
  ultimately have "probe_at sz h ` {..<sz} = {1..sz}" by (simp add: card_subset_eq)
  with assms(4,5) show ?thesis by (metis atLeastAtMost_iff imageE lessThan_iff)
qed

lemma probe_at_cycle:
  assumes "size_ok sz" "1 \<le> h" "h \<le> sz"
  shows "probe_at sz h sz = h"
proof -
  obtain n where n: "n < sz" "probe_at sz h n = probe_at sz h sz"
    using probe_at_all [OF assms] probe_at_range [OF assms, of sz] by blast
  have "n = 0"
  proof (rule ccontr)
    assume "n \<noteq> 0"
    with n(1) have "probe_at sz h n \<noteq> probe_at sz h sz" by (intro probe_at_inj assms) auto
    with n(2) show False by simp
  qed
  with n(2) show ?thesis by simp
qed

lemma first_hash_bounds: "size_ok sz \<Longrightarrow> 1 \<le> first_hash sz k \<and> first_hash sz k < sz"
  by (auto simp: first_hash_def Let_def size_ok_def)

section \<open>The invariant\<close>

definition live :: "hsearch_data \<Rightarrow> nat \<Rightarrow> bool" where
  "live htab i \<longleftrightarrow> 1 \<le> i \<and> i \<le> ht_size htab \<and> 0 < used htab i"

definition key_at :: "hsearch_data \<Rightarrow> nat \<Rightarrow> string" where
  "key_at htab i = the (e_key (entry htab i))"

definition data_at :: "hsearch_data \<Rightarrow> nat \<Rightarrow> string" where
  "data_at htab i = the (e_data (entry htab i))"

text \<open>A used node: its key lies on its own probe sequence, with no free node before it.\<close>

definition node_ok :: "hsearch_data \<Rightarrow> nat \<Rightarrow> bool" where
  "node_ok htab i \<longleftrightarrow>
     (let h = first_hash (ht_size htab) (key_at htab i)
      in e_key (entry htab i) \<noteq> None \<and> e_data (entry htab i) \<noteq> None \<and> NUL \<notin> set (key_at htab i) \<and>
         NUL \<notin> set (data_at htab i) \<and> used htab i = int h \<and>
         (\<exists>n. n < ht_size htab \<and> probe_at (ht_size htab) h n = i \<and>
            (\<forall>m<n. used htab (probe_at (ht_size htab) h m) \<noteq> USED_FREE)))"

text \<open>A table in order; its allocations to come succeed (\<open>ht_malloc\<close> is empty).\<close>

definition table_ok :: "hsearch_data \<Rightarrow> bool" where
  "table_ok htab \<longleftrightarrow>
     size_ok (ht_size htab) \<and> ht_table htab \<noteq> None \<and> length (nodes htab) = ht_size htab + 1 \<and>
     ht_malloc htab = [] \<and> \<not> ht_fault htab \<and>
     (\<forall>i. live htab i \<longrightarrow> node_ok htab i) \<and>
     (\<forall>i. 1 \<le> i \<and> i \<le> ht_size htab \<and> \<not> live htab i \<longrightarrow>
        (used htab i = USED_FREE \<or> used htab i = USED_DELETED) \<and> e_flags (entry htab i) = 0) \<and>
     (\<forall>i j. live htab i \<and> live htab j \<and> key_at htab i = key_at htab j \<longrightarrow> i = j) \<and>
     unat (ht_filled htab) = card {i. live htab i}"

text \<open>The variables, in the order of the nodes, and what they stand for.\<close>

definition live_list :: "hsearch_data \<Rightarrow> nat list" where
  "live_list htab = filter (\<lambda>i. 0 < used htab i) [1..<Suc (ht_size htab)]"

definition entries :: "hsearch_data \<Rightarrow> (string \<times> string) list" where
  "entries htab = map (\<lambda>i. (key_at htab i, data_at htab i)) (live_list htab)"

definition env_map :: "hsearch_data \<Rightarrow> string \<rightharpoonup> string" where
  "env_map htab = map_of (entries htab)"

lemma set_live_list: "set (live_list htab) = {i. live htab i}"
  by (auto simp: live_list_def live_def)

lemma table_okD:
  assumes "table_ok htab"
  shows "size_ok (ht_size htab)" "length (nodes htab) = Suc (ht_size htab)" "ht_malloc htab = []" "\<not> ht_fault htab"
    "ht_table htab \<noteq> None" "unat (ht_filled htab) = card {i. live htab i}" "live htab i \<Longrightarrow> node_ok htab i"
    "1 \<le> i \<Longrightarrow> i \<le> ht_size htab \<Longrightarrow> \<not> live htab i \<Longrightarrow> used htab i = USED_FREE \<or> used htab i = USED_DELETED"
    "live htab i \<Longrightarrow> live htab j \<Longrightarrow> key_at htab i = key_at htab j \<Longrightarrow> i = j"
    "1 \<le> i \<Longrightarrow> i \<le> ht_size htab \<Longrightarrow> \<not> live htab i \<Longrightarrow> e_flags (entry htab i) = 0"
  using assms by (simp_all add: table_ok_def)

lemma keys_distinct:
  assumes "table_ok htab"
  shows "distinct (map fst (entries htab))"
  using table_okD(9) [OF assms] set_live_list [of htab]
  by (auto simp: entries_def distinct_map live_list_def inj_on_def comp_def)

lemma env_map_Some: "table_ok htab \<Longrightarrow> env_map htab k = Some d \<longleftrightarrow> (\<exists>i. live htab i \<and> key_at htab i = k \<and> data_at htab i = d)"
proof -
  assume t: "table_ok htab"
  have "env_map htab k = Some d \<longleftrightarrow> (k, d) \<in> set (entries htab)"
    unfolding env_map_def using keys_distinct [OF t] by (rule map_of_eq_Some_iff)
  then show ?thesis using set_live_list [of htab] by (auto simp: entries_def image_iff)
qed

lemma env_map_None: "table_ok htab \<Longrightarrow> env_map htab k = None \<longleftrightarrow> (\<forall>i. live htab i \<longrightarrow> key_at htab i \<noteq> k)"
  using env_map_Some [of htab k] by (metis not_None_eq)

section \<open>Where a search ends\<close>

definition holds_key :: "hsearch_data \<Rightarrow> string \<Rightarrow> nat \<Rightarrow> bool" where
  "holds_key htab k i \<longleftrightarrow> live htab i \<and> key_at htab i = k"

lemma compare_None:
  assumes "table_ok htab" "NUL \<notin> set k" "1 \<le> i" "i \<le> ht_size htab"
  shows "compare_and_overwrite_entry H k data action htab flag (first_hash (ht_size htab) k) i = None \<longleftrightarrow> \<not> holds_key htab k i"
proof -
  let ?h = "first_hash (ht_size htab) k"
  have h: "1 \<le> ?h" using first_hash_bounds table_okD(1) [OF assms(1)] by blast
  show ?thesis
  proof (cases "used htab i = int ?h")
    case True
    with h assms(3,4) have l: "live htab i" by (simp add: live_def)
    then have n: "node_ok htab i" by (rule table_okD(7) [OF assms(1)])
    then obtain key where k: "e_key (entry htab i) = Some key" "NUL \<notin> set key" "key_at htab i = key"
      by (auto simp: node_ok_def Let_def key_at_def)
    have "strcmp k key = 0 \<longleftrightarrow> key = k" using strcmp_0_iff [of k key] k(2) assms(2) by auto
    then show ?thesis using True k l
      by (auto simp: compare_and_overwrite_entry_def holds_key_def Let_def split: env_action.splits option.splits prod.splits)
  next
    case False
    have "\<not> holds_key htab k i"
    proof
      assume "holds_key htab k i"
      then have "node_ok htab i" "key_at htab i = k" using table_okD(7) [OF assms(1)] by (auto simp: holds_key_def)
      with False show False by (simp add: node_ok_def Let_def)
    qed
    with False show ?thesis by (simp add: compare_and_overwrite_entry_def)
  qed
qed

text \<open>The first deleted node among the first \<open>n\<close> of the sequence, or 0.\<close>

fun first_dead :: "hsearch_data \<Rightarrow> nat \<Rightarrow> nat \<Rightarrow> nat" where
  "first_dead htab h 0 = 0"
| "first_dead htab h (Suc n) =
     (if used htab (probe_at (ht_size htab) h n) = USED_DELETED \<and> first_dead htab h n = 0
      then probe_at (ht_size htab) h n else first_dead htab h n)"

definition passed :: "hsearch_data \<Rightarrow> string \<Rightarrow> nat \<Rightarrow> bool" where
  "passed htab k n \<longleftrightarrow> (\<forall>m<n. let i = probe_at (ht_size htab) (first_hash (ht_size htab) k) m
     in used htab i \<noteq> USED_FREE \<and> \<not> holds_key htab k i)"

definition stopped ::
    "env_hooks \<Rightarrow> string \<Rightarrow> string option \<Rightarrow> env_action \<Rightarrow> hsearch_data \<Rightarrow> u32 \<Rightarrow> nat \<Rightarrow> probe_result \<Rightarrow> bool" where
  "stopped H k data action htab flag n r \<longleftrightarrow>
     (let sz = ht_size htab; h = first_hash sz k; i = probe_at sz h n
      in n \<le> sz \<and> passed htab k n \<and>
         (if n < sz \<and> holds_key htab k i
          then map_option Found (compare_and_overwrite_entry H k data action htab flag h i) = Some r
          else (n = sz \<or> used htab i = USED_FREE) \<and> r = Miss i (first_dead htab h n)))"

lemma probe_stops:
  assumes "table_ok htab" "NUL \<notin> set k" "n < ht_size htab" "passed htab k (Suc n)"
  shows "\<exists>N r. stopped H k data action htab flag N r \<and>
    probe H k data action htab flag (first_hash (ht_size htab) k) (probe_at (ht_size htab) (first_hash (ht_size htab) k) n)
      (first_dead htab (first_hash (ht_size htab) k) (Suc n)) = Some r"
  using assms(3,4)
proof (induction "ht_size htab - n" arbitrary: n)
  case (Suc d)
  let ?sz = "ht_size htab" and ?h = "first_hash (ht_size htab) k"
  let ?i = "probe_at ?sz ?h (Suc n)"
  have sz: "size_ok ?sz" by (rule table_okD(1) [OF assms(1)])
  have h: "1 \<le> ?h" "?h \<le> ?sz" using first_hash_bounds [OF sz, of k] by auto
  have r: "1 \<le> ?i" "?i \<le> ?sz" using probe_at_range [OF sz h, of "Suc n"] by auto
  have i: "?i = probe_next ?sz (second_hash ?sz ?h) (probe_at ?sz ?h n)" by simp
  show ?case
  proof (cases "Suc n = ?sz")
    case True
    then have "?i = ?h" using probe_at_cycle [OF sz h] by metis
    then show ?thesis using True Suc.prems(2)
      by (intro exI [of _ ?sz] exI [of _ "Miss ?h (first_dead htab ?h (Suc n))"] conjI)
        (simp_all add: stopped_def Let_def probe.simps i [symmetric] del: probe_at_simps(2) first_dead.simps(2))
  next
    case False
    then have lt: "Suc n < ?sz" using Suc.prems by simp
    then have "?i \<noteq> ?h" using probe_at_inj [OF sz h, of 0 "Suc n"] by simp
    let ?fd = "first_dead htab ?h (Suc (Suc n))"
    have step: "probe H k data action htab flag ?h (probe_at ?sz ?h n) (first_dead htab ?h (Suc n)) =
      (case compare_and_overwrite_entry H k data action htab flag ?h ?i of
         Some r \<Rightarrow> Some (Found r)
       | None \<Rightarrow> if used htab ?i \<noteq> USED_FREE then probe H k data action htab flag ?h ?i ?fd else Some (Miss ?i ?fd))"
      using \<open>?i \<noteq> ?h\<close> unfolding i [symmetric] first_dead.simps(2) [of htab ?h "Suc n"]
      by (subst probe.simps) (simp add: Let_def i [symmetric] del: probe_at_simps(2) first_dead.simps(2))
    show ?thesis
    proof (cases "holds_key htab k ?i")
      case True
      then obtain r where "compare_and_overwrite_entry H k data action htab flag ?h ?i = Some r"
        using compare_None [OF assms(1,2) r] by blast
      then show ?thesis using True lt Suc.prems(2)
        by (intro exI [of _ "Suc n"] exI [of _ "Found r"]) (simp add: step stopped_def Let_def del: probe_at_simps(2) first_dead.simps(2))
    next
      case False
      then have c: "compare_and_overwrite_entry H k data action htab flag ?h ?i = None"
        using compare_None [OF assms(1,2) r] by blast
      show ?thesis
      proof (cases "used htab ?i = USED_FREE")
        case True
        then have "?fd = first_dead htab ?h (Suc n)" by simp
        then show ?thesis using True c lt False Suc.prems(2)
          by (intro exI [of _ "Suc n"] exI [of _ "Miss ?i ?fd"]) (simp add: step stopped_def Let_def del: probe_at_simps(2) first_dead.simps(2))
      next
        case nf: False
        then have "passed htab k (Suc (Suc n))" using Suc.prems(2) False by (auto simp: passed_def Let_def less_Suc_eq)
        with Suc.hyps(1) [of "Suc n"] Suc.hyps(2) lt show ?thesis using step c nf by simp
      qed
    qed
  qed
qed simp

text \<open>The search for a key, before an entry is made.\<close>

definition find_node ::
    "env_hooks \<Rightarrow> string \<Rightarrow> string option \<Rightarrow> env_action \<Rightarrow> hsearch_data \<Rightarrow> u32 \<Rightarrow> probe_result option" where
  "find_node H k data action htab flag =
     (let hval = first_hash (ht_size htab) k
      in if used htab hval = USED_FREE then Some (Miss hval 0)
         else case compare_and_overwrite_entry H k data action htab flag hval hval of
           Some r \<Rightarrow> Some (Found r)
         | None \<Rightarrow> probe H k data action htab flag hval hval (if used htab hval = USED_DELETED then hval else 0))"

lemma find_node_stops:
  assumes "table_ok htab" "NUL \<notin> set k"
  shows "\<exists>n r. stopped H k data action htab flag n r \<and> find_node H k data action htab flag = Some r"
proof -
  let ?h = "first_hash (ht_size htab) k"
  have sz: "size_ok (ht_size htab)" by (rule table_okD(1) [OF assms(1)])
  have h: "1 \<le> ?h" "?h < ht_size htab" using first_hash_bounds [OF sz, of k] by auto
  note c = compare_None [OF assms h(1) less_imp_le [OF h(2)], of H data action flag]
  consider "used htab ?h = USED_FREE" | "used htab ?h \<noteq> USED_FREE" "holds_key htab k ?h"
    | "used htab ?h \<noteq> USED_FREE" "\<not> holds_key htab k ?h" by blast
  then show ?thesis
  proof cases
    case 1
    then have "\<not> holds_key htab k ?h" by (simp add: holds_key_def live_def)
    with 1 show ?thesis by (intro exI [of _ 0] exI [of _ "Miss ?h 0"]) (simp add: stopped_def passed_def find_node_def Let_def)
  next
    case 2
    then obtain r where "compare_and_overwrite_entry H k data action htab flag ?h ?h = Some r" using c by blast
    with 2 h show ?thesis by (intro exI [of _ 0] exI [of _ "Found r"]) (simp add: stopped_def passed_def find_node_def Let_def)
  next
    case 3
    then have "passed htab k (Suc 0)" by (simp add: passed_def)
    from probe_stops [OF assms _ this, of H data action flag] h 3 c show ?thesis
      by (cases "used htab ?h = USED_DELETED") (simp_all add: find_node_def Let_def)
  qed
qed

lemma hsearch_find_node:
  "hsearch_r H k data action htab flag =
     (case find_node H k data action htab flag of
        None \<Rightarrow> None
      | Some (Found r) \<Rightarrow> Some r
      | Some (Miss idx first_deleted) \<Rightarrow>
          Some (if action = ENV_ENTER
                then if ht_filled htab = of_nat (ht_size htab) then (0, None, htab)
                     else create_entry H k data htab flag (first_hash (ht_size htab) k) (if first_deleted \<noteq> 0 then first_deleted else idx)
                else (0, None, htab)))"
  by (simp add: hsearch_r_def find_node_def Let_def)

text \<open>A search finds the node that holds the key, if there is one.\<close>

lemma stopped_iff:
  assumes "table_ok htab" "stopped H k data action htab flag n r"
  shows "(\<exists>s. r = Found s) \<longleftrightarrow> env_map htab k \<noteq> None"
    and "r = Found s \<Longrightarrow> \<exists>i. holds_key htab k i \<and> compare_and_overwrite_entry H k data action htab flag (first_hash (ht_size htab) k) i = Some s"
proof -
  let ?sz = "ht_size htab" and ?h = "first_hash (ht_size htab) k"
  have no: "env_map htab k = None" if m: "r = Miss i fd" for i fd
  proof -
    have "\<not> holds_key htab k j" for j
    proof
      assume j: "holds_key htab k j"
      then have "node_ok htab j" using table_okD(7) [OF assms(1)] by (simp add: holds_key_def)
      with j obtain N where N: "N < ?sz" "probe_at ?sz ?h N = j" "\<forall>m<N. used htab (probe_at ?sz ?h m) \<noteq> USED_FREE"
        by (auto simp: node_ok_def Let_def holds_key_def)
      consider "N < n" | "N = n" | "n < N" by linarith
      then show False
      proof cases
        case 1
        then show False using assms(2) N(2) j by (auto simp: stopped_def passed_def Let_def)
      next
        case 2
        then show False using assms(2) N j m by (auto simp: stopped_def Let_def split: if_splits)
      next
        case 3
        then show False using assms(2) N m by (auto simp: stopped_def Let_def split: if_splits)
      qed
    qed
    then show ?thesis using env_map_None [OF assms(1), of k] by (auto simp: holds_key_def)
  qed
  have yes: "env_map htab k \<noteq> None \<and> (\<exists>i. holds_key htab k i \<and>
      compare_and_overwrite_entry H k data action htab flag ?h i = Some s)" if "r = Found s" for s
    using assms(2) that env_map_None [OF assms(1), of k]
    by (auto simp: stopped_def Let_def holds_key_def split: if_splits)
  show "(\<exists>s. r = Found s) \<longleftrightarrow> env_map htab k \<noteq> None" using yes no by (cases r) auto
  show "r = Found s \<Longrightarrow> \<exists>i. holds_key htab k i \<and> compare_and_overwrite_entry H k data action htab flag ?h i = Some s"
    using yes by blast
qed

section \<open>Changing one node\<close>

lemma set_node_fields [simp]:
  "ht_size (set_node htab i nd) = ht_size htab" "ht_filled (set_node htab i nd) = ht_filled htab"
  "ht_malloc (set_node htab i nd) = ht_malloc htab" "ht_fault (set_node htab i nd) = ht_fault htab"
  "nodes (set_node htab i nd) = (nodes htab)[i := nd]" "ht_table (set_node htab i nd) \<noteq> None"
  by (simp_all add: set_node_def nodes_def)

lemma filled_fields [simp]:
  "nodes (htab\<lparr>ht_filled := f\<rparr>) = nodes htab" "used (htab\<lparr>ht_filled := f\<rparr>) = used htab"
  "entry (htab\<lparr>ht_filled := f\<rparr>) = entry htab" "live (htab\<lparr>ht_filled := f\<rparr>) = live htab"
  "key_at (htab\<lparr>ht_filled := f\<rparr>) = key_at htab" "data_at (htab\<lparr>ht_filled := f\<rparr>) = data_at htab"
  by (simp_all add: nodes_def used_def entry_def live_def key_at_def data_at_def fun_eq_iff)

lemma used_set_node [simp]:
  "i < length (nodes htab) \<Longrightarrow> used (set_node htab i nd) j = (if j = i then n_used nd else used htab j)"
  by (simp add: used_def nth_list_update)

lemma entry_set_node [simp]:
  "i < length (nodes htab) \<Longrightarrow> entry (set_node htab i nd) j = (if j = i then n_entry nd else entry htab j)"
  by (simp add: entry_def nth_list_update)

text \<open>A table that differs from a good one in the node \<open>i\<close> only, which is not made free.\<close>

definition changed_at :: "nat \<Rightarrow> hsearch_data \<Rightarrow> hsearch_data \<Rightarrow> bool" where
  "changed_at i htab htab' \<longleftrightarrow>
     ht_size htab' = ht_size htab \<and> length (nodes htab') = length (nodes htab) \<and> ht_table htab' \<noteq> None \<and>
     ht_malloc htab' = ht_malloc htab \<and> ht_fault htab' = ht_fault htab \<and> used htab' i \<noteq> USED_FREE \<and>
     (\<forall>j. j \<noteq> i \<longrightarrow> used htab' j = used htab j \<and> entry htab' j = entry htab j)"

lemma changed_same:
  assumes "changed_at i htab htab'" "j \<noteq> i"
  shows "live htab' j = live htab j" "key_at htab' j = key_at htab j" "data_at htab' j = data_at htab j"
  using assms by (simp_all add: changed_at_def live_def key_at_def data_at_def)

lemma changed_node_ok:
  assumes "changed_at i htab htab'" "node_ok htab j" "j \<noteq> i"
  shows "node_ok htab' j"
proof -
  have "used htab x \<noteq> USED_FREE \<Longrightarrow> used htab' x \<noteq> USED_FREE" for x
    using assms(1) by (cases "x = i") (auto simp: changed_at_def)
  with assms changed_same [OF assms(1,3)] show ?thesis
    by (auto simp: node_ok_def changed_at_def Let_def)
qed

text \<open>Such a table is good if the node is, holds a key of its own, and the count is right.\<close>

lemma changed_table_ok:
  assumes t: "table_ok htab" and c: "changed_at i htab htab'" and "1 \<le> i" "i \<le> ht_size htab"
    and "live htab' i \<Longrightarrow> node_ok htab' i" "\<not> live htab' i \<Longrightarrow> used htab' i = USED_DELETED \<and> e_flags (entry htab' i) = 0"
    and own: "\<And>j. live htab' i \<Longrightarrow> live htab j \<Longrightarrow> j \<noteq> i \<Longrightarrow> key_at htab j \<noteq> key_at htab' i"
    and "unat (ht_filled htab') = card {j. live htab' j}"
  shows "table_ok htab'"
proof -
  have sz: "ht_size htab' = ht_size htab" using c by (simp add: changed_at_def)
  have "node_ok htab' j" if "live htab' j" for j
    using that assms(5) changed_same(1) [OF c] changed_node_ok [OF c] table_okD(7) [OF t] by (cases "j = i") auto
  moreover have "(used htab' j = USED_FREE \<or> used htab' j = USED_DELETED) \<and> e_flags (entry htab' j) = 0"
    if "1 \<le> j" "j \<le> ht_size htab'" "\<not> live htab' j" for j
    using that assms(6) changed_same(1) [OF c, of j] c table_okD(8,10) [OF t, of j] by (cases "j = i") (auto simp: changed_at_def sz)
  moreover have "x = y" if "live htab' x" "live htab' y" "key_at htab' x = key_at htab' y" for x y
    using that own [of x] own [of y] changed_same [OF c, of x] changed_same [OF c, of y] table_okD(9) [OF t, of x y]
    by (cases "x = i"; cases "y = i") auto
  ultimately show ?thesis using t c assms(8) unfolding table_ok_def by (auto simp: changed_at_def)
qed

lemma env_map_eqI:
  assumes "table_ok htab" "\<And>k d. m k = Some d \<longleftrightarrow> (\<exists>i. live htab i \<and> key_at htab i = k \<and> data_at htab i = d)"
  shows "env_map htab = m"
proof
  fix k
  show "env_map htab k = m k" using env_map_Some [OF assms(1), of k] assms(2) [of k] by (metis option.exhaust)
qed

lemma changed_map:
  assumes "table_ok htab" "table_ok htab'" "changed_at i htab htab'"
  shows "live htab i \<Longrightarrow> \<not> live htab' i \<Longrightarrow> env_map htab' = (env_map htab)(key_at htab i := None)"
    and "live htab' i \<Longrightarrow> live htab i \<longrightarrow> key_at htab' i = key_at htab i \<Longrightarrow>
      env_map htab' = (env_map htab)(key_at htab' i \<mapsto> data_at htab' i)"
proof -
  note s = changed_same [OF assms(3)]
  show "env_map htab' = (env_map htab)(key_at htab i := None)" if "live htab i" "\<not> live htab' i"
  proof (rule env_map_eqI [OF assms(2)])
    fix k d
    show "((env_map htab)(key_at htab i := None)) k = Some d \<longleftrightarrow> (\<exists>j. live htab' j \<and> key_at htab' j = k \<and> data_at htab' j = d)"
      using that s table_okD(9) [OF assms(1)] env_map_Some [OF assms(1), of k d] by (auto; metis)
  qed
  show "env_map htab' = (env_map htab)(key_at htab' i \<mapsto> data_at htab' i)"
    if "live htab' i" "live htab i \<longrightarrow> key_at htab' i = key_at htab i"
  proof (rule env_map_eqI [OF assms(2)])
    fix k d
    show "((env_map htab)(key_at htab' i \<mapsto> data_at htab' i)) k = Some d \<longleftrightarrow> (\<exists>j. live htab' j \<and> key_at htab' j = k \<and> data_at htab' j = d)"
    proof (cases "k = key_at htab' i")
      case True
      then show ?thesis using that table_okD(9) [OF assms(2)] by auto
    next
      case False
      then show ?thesis using that s env_map_Some [OF assms(1), of k d] by (auto; metis)
    qed
  qed
qed

lemma finite_live [simp]: "finite {i. live htab i}"
  by (rule finite_subset [of _ "{..ht_size htab}"]) (auto simp: live_def)

lemma live_in_range: "table_ok htab \<Longrightarrow> live htab i \<Longrightarrow> 1 \<le> i \<and> i \<le> ht_size htab \<and> i < length (nodes htab)"
  using table_okD(2) [of htab] by (simp add: live_def)

lemma delete_ok:
  assumes t: "table_ok htab" and l: "live htab i"
  shows "table_ok (hdelete_entry htab i)" "env_map (hdelete_entry htab i) = (env_map htab)(key_at htab i := None)"
proof -
  let ?h = "hdelete_entry htab i"
  note r = live_in_range [OF t l]
  have c: "changed_at i htab ?h" using r by (simp add: changed_at_def hdelete_entry_def Let_def)
  have dead: "\<not> live ?h i" using r by (simp add: live_def hdelete_entry_def Let_def)
  have "live ?h j \<longleftrightarrow> live htab j \<and> j \<noteq> i" for j using dead changed_same(1) [OF c] by (cases "j = i") auto
  then have "{j. live ?h j} = {j. live htab j} - {i}" by auto
  then have "card {j. live ?h j} = card {j. live htab j} - 1" using l by simp
  moreover have pos: "0 < card {j. live htab j}" using l by (auto simp: card_gt_0_iff)
  moreover have "unat (ht_filled ?h) = unat (ht_filled htab) - 1"
    using pos table_okD(6) [OF t] unat_sub_no_wrap [of 1 "ht_filled htab"] by (simp add: hdelete_entry_def Let_def u32_le_iff)
  ultimately have n: "unat (ht_filled ?h) = card {j. live ?h j}" using table_okD(6) [OF t] by simp
  show ok: "table_ok ?h"
    using r dead n by (intro changed_table_ok [OF t c]) (simp_all add: hdelete_entry_def Let_def)
  show "env_map ?h = (env_map htab)(key_at htab i := None)" by (rule changed_map(1) [OF t ok c l dead])
qed

lemma overwrite_ok:
  assumes t: "table_ok htab" and l: "live htab i" and v: "NUL \<notin> set v"
    and h: "htab' = set_node htab i ((nodes htab ! i)\<lparr>n_entry := (entry htab i)\<lparr>e_data := Some v\<rparr>\<rparr>)"
  shows "table_ok htab'" "env_map htab' = (env_map htab)(key_at htab i \<mapsto> v)" "live htab' i" "data_at htab' i = v"
proof -
  note r = live_in_range [OF t l]
  have u: "used htab' j = used htab j" for j using r by (simp add: h used_def nth_list_update)
  have "ht_table htab' \<noteq> None" unfolding h by (rule set_node_fields(6))
  then have c: "changed_at i htab htab'" using r l unfolding changed_at_def u by (simp add: h live_def)
  have k: "key_at htab' i = key_at htab i" "data_at htab' i = v" using r by (simp_all add: h key_at_def data_at_def)
  have l': "live htab' j = live htab j" for j using u by (simp add: live_def h)
  have "node_ok htab i" by (rule table_okD(7) [OF t l])
  moreover have "e_key (entry htab' i) = e_key (entry htab i)" "e_data (entry htab' i) \<noteq> None" "ht_size htab' = ht_size htab"
    using r by (simp_all add: h)
  ultimately have n: "node_ok htab' i" using k v u by (simp add: node_ok_def Let_def)
  have "unat (ht_filled htab') = card {j. live htab' j}" using table_okD(6) [OF t] by (simp only: l') (simp add: h)
  then show ok: "table_ok htab'"
    using r l l' n k(1) table_okD(9) [OF t, of _ i] by (intro changed_table_ok [OF t c]) metis+
  show "env_map htab' = (env_map htab)(key_at htab i \<mapsto> v)"
    using changed_map(2) [OF t ok c] l l' k by simp
  show "live htab' i" "data_at htab' i = v" using l l' k by simp_all
qed

text \<open>A node of the sequence of \<open>k\<close> that is not in use, with no free node before it.\<close>

definition vacant :: "hsearch_data \<Rightarrow> string \<Rightarrow> nat \<Rightarrow> bool" where
  "vacant htab k i \<longleftrightarrow> \<not> live htab i \<and>
     (\<exists>n. n < ht_size htab \<and> probe_at (ht_size htab) (first_hash (ht_size htab) k) n = i \<and>
        (\<forall>m<n. used htab (probe_at (ht_size htab) (first_hash (ht_size htab) k) m) \<noteq> USED_FREE))"

lemma enter_ok:
  assumes t: "table_ok htab" and new: "env_map htab k = None" and v: "vacant htab k i" and nul: "NUL \<notin> set k" "NUL \<notin> set d"
    and h: "htab' = (set_node htab i \<lparr>n_used = int (first_hash (ht_size htab) k), n_entry = e\<rparr>)\<lparr>ht_filled := ht_filled htab + 1\<rparr>"
    and e: "e_key e = Some k" "e_data e = Some d"
  shows "table_ok htab'" "env_map htab' = (env_map htab)(k \<mapsto> d)" "live htab' i" "key_at htab' i = k" "data_at htab' i = d"
proof -
  let ?sz = "ht_size htab" and ?f = "first_hash (ht_size htab) k"
  have sz: "size_ok ?sz" by (rule table_okD(1) [OF t])
  have f: "1 \<le> ?f" "?f \<le> ?sz" using first_hash_bounds [OF sz, of k] by auto
  have r: "1 \<le> i" "i \<le> ?sz" using v probe_at_range [OF sz f] by (auto simp: vacant_def)
  moreover have "i < length (nodes htab)" using r table_okD(2) [OF t] by simp
  ultimately have r: "1 \<le> i" "i \<le> ?sz" "i < length (nodes htab)" .
  have c: "changed_at i htab htab'" using r f by (simp add: changed_at_def h)
  show l: "live htab' i" using r f by (simp add: live_def h)
  show k: "key_at htab' i = k" "data_at htab' i = d" using r e by (simp_all add: h key_at_def data_at_def)
  obtain n where n: "n < ?sz" "probe_at ?sz ?f n = i" "\<forall>m<n. used htab (probe_at ?sz ?f m) \<noteq> USED_FREE"
    using v by (auto simp: vacant_def)
  have "node_ok htab' i"
    unfolding node_ok_def Let_def k using r e f nul n
    by (intro conjI exI [of _ n]) (auto simp: h)
  moreover have fresh: "\<not> live htab i" using v by (simp add: vacant_def)
  moreover have "live htab' j \<longleftrightarrow> live htab j \<or> j = i" for j using l changed_same(1) [OF c] by (cases "j = i") auto
  then have "{j. live htab' j} = insert i {j. live htab j}" by auto
  with fresh have cd: "card {j. live htab' j} = Suc (card {j. live htab j})" by simp
  moreover have "card {j. live htab' j} \<le> card {1..?sz}"
    by (rule card_mono) (auto simp: live_def h)
  then have "unat (ht_filled htab) + unat (1 :: u32) < 2 ^ 32" using cd table_okD(6) [OF t] sz by (simp add: size_ok_def)
  then have "unat (ht_filled htab') = card {j. live htab' j}"
    using cd table_okD(6) [OF t] unat_add_no_wrap [of "ht_filled htab" 1] by (simp add: h)
  moreover have "key_at htab j \<noteq> k" if "live htab j" for j using new env_map_None [OF t] that by blast
  ultimately show ok: "table_ok htab'"
    using r l k by (intro changed_table_ok [OF t c]) auto
  show "env_map htab' = (env_map htab)(k \<mapsto> d)" using changed_map(2) [OF t ok c l] fresh k by simp
qed

section \<open>The callbacks and flags of the entries\<close>

definition new_flags :: "env_hooks \<Rightarrow> string \<Rightarrow> u32" where
  "new_flags H k = (case flags_of H k of None \<Rightarrow> 0 | Some fl \<Rightarrow> fl)"

definition entry_for :: "env_hooks \<Rightarrow> string \<Rightarrow> string \<Rightarrow> env_entry" where
  "entry_for H k d = \<lparr>e_key = Some k, e_data = Some d, e_callback = callback_of H k, e_flags = new_flags H k\<rparr>"

definition env_ok :: "env_hooks \<Rightarrow> hsearch_data \<Rightarrow> bool" where
  "env_ok H htab \<longleftrightarrow> table_ok htab \<and> (\<forall>i. live htab i \<longrightarrow> entry htab i = entry_for H (key_at htab i) (data_at htab i))"

lemma env_okD: "env_ok H htab \<Longrightarrow> table_ok htab" "env_ok H htab \<Longrightarrow> live htab i \<Longrightarrow> entry htab i = entry_for H (key_at htab i) (data_at htab i)"
  by (simp_all add: env_ok_def)

lemma changed_env_ok:
  assumes "env_ok H htab" "table_ok htab'" "changed_at i htab htab'" "live htab' i \<Longrightarrow> entry htab' i = entry_for H k d"
  shows "env_ok H htab'"
  unfolding env_ok_def
proof (intro conjI allI impI assms(2))
  fix j assume "live htab' j"
  with assms show "entry htab' j = entry_for H (key_at htab' j) (data_at htab' j)"
    by (cases "j = i") (auto simp: entry_for_def key_at_def data_at_def env_ok_def changed_same changed_at_def)
qed

text \<open>Whether the permission check and the callback let a value be set or deleted.\<close>

definition accepts :: "env_hooks \<Rightarrow> string \<Rightarrow> string option \<Rightarrow> string \<Rightarrow> u32 \<Rightarrow> bool" where
  "accepts H k old v flag =
     (let e = entry_for H k (case old of None \<Rightarrow> v | Some d \<Rightarrow> d); op = (if old = None then env_op_create else env_op_overwrite)
      in \<not> denied H e (Some v) op flag \<and> do_callback e k (Some v) op flag = 0)"

definition accepts_delete :: "env_hooks \<Rightarrow> string \<Rightarrow> string \<Rightarrow> u32 \<Rightarrow> bool" where
  "accepts_delete H k d flag =
     (\<not> denied H (entry_for H k d) None env_op_delete flag \<and> do_callback (entry_for H k d) k None env_op_delete flag = 0)"

definition table_full :: "hsearch_data \<Rightarrow> bool" where
  "table_full htab \<longleftrightarrow> ht_filled htab = of_nat (ht_size htab)"

lemma first_dead_some: "first_dead htab h n \<noteq> 0 \<Longrightarrow>
  \<exists>m<n. first_dead htab h n = probe_at (ht_size htab) h m \<and> used htab (probe_at (ht_size htab) h m) = USED_DELETED"
  by (induction n) (auto simp: less_Suc_eq split: if_splits)

lemma first_dead_none: "\<forall>m. probe_at (ht_size htab) h m \<noteq> 0 \<Longrightarrow> first_dead htab h n = 0 \<Longrightarrow> m < n \<Longrightarrow>
  used htab (probe_at (ht_size htab) h m) \<noteq> USED_DELETED"
proof (induction n)
  case (Suc n)
  then have "first_dead htab h n = 0 \<and> used htab (probe_at (ht_size htab) h n) \<noteq> USED_DELETED"
    by (metis first_dead.simps(2))
  with Suc show ?case by (cases "m = n") auto
qed simp

lemma miss_vacant:
  assumes t: "table_ok htab" and s: "stopped H k data action htab flag n (Miss i fd)" and nf: "\<not> table_full htab"
  shows "vacant htab k (if fd \<noteq> 0 then fd else i)"
proof -
  let ?sz = "ht_size htab" and ?h = "first_hash (ht_size htab) k"
  have sz: "size_ok ?sz" by (rule table_okD(1) [OF t])
  have h: "1 \<le> ?h" "?h \<le> ?sz" using first_hash_bounds [OF sz, of k] by auto
  note range = probe_at_range [OF sz h]
  have n: "n \<le> ?sz" "n = ?sz \<or> used htab i = USED_FREE" "i = probe_at ?sz ?h n" "fd = first_dead htab ?h n"
    and p: "m < n \<Longrightarrow> used htab (probe_at ?sz ?h m) \<noteq> USED_FREE" for m
    using s by (auto simp: stopped_def passed_def Let_def split: if_splits)
  show ?thesis
  proof (cases "fd = 0")
    case False
    then obtain m where "m < n" "fd = probe_at ?sz ?h m" "used htab fd = USED_DELETED" using first_dead_some [of htab ?h n] n(4) by auto
    with False n(1) p show ?thesis by (auto simp: vacant_def live_def intro!: exI [of _ m])
  next
    case True
    have "n \<noteq> ?sz"
    proof
      assume "n = ?sz"
      have "live htab j" if j: "1 \<le> j" "j \<le> ?sz" for j
      proof -
        obtain m where m: "m < ?sz" "probe_at ?sz ?h m = j" using probe_at_all [OF sz h j] by blast
        have "used htab j \<noteq> USED_FREE" using p [of m] m \<open>n = ?sz\<close> by simp
        moreover have "used htab j \<noteq> USED_DELETED"
          using first_dead_none [of htab ?h n m] range m True n(4) \<open>n = ?sz\<close> by (metis One_nat_def not_one_le_zero)
        ultimately show ?thesis using table_okD(8) [OF t j] by blast
      qed
      then have "{j. live htab j} = {1..?sz}" by (auto simp: live_def)
      then have "unat (ht_filled htab) = ?sz" using table_okD(6) [OF t] by simp
      then have "ht_filled htab = of_nat ?sz" by (metis of_nat_unat ucast_id)
      with nf show False by (simp add: table_full_def)
    qed
    with n True p show ?thesis by (auto simp: vacant_def live_def intro!: exI [of _ n])
  qed
qed

section \<open>What the operations do\<close>

lemma strdup_ok [simp]: "ht_malloc htab = [] \<Longrightarrow> NUL \<notin> set v \<Longrightarrow> strdup (Some v) htab = (Some v, htab)"
  by (simp add: strdup_def try_malloc_def cstr_id)

lemma holds_key_unique: "table_ok htab \<Longrightarrow> holds_key htab k i \<Longrightarrow> env_map htab k = Some (data_at htab i)"
  using env_map_Some by (auto simp: holds_key_def)

lemma hsearch_cases:
  assumes "table_ok htab" "NUL \<notin> set k"
  obtains (found) i where "holds_key htab k i"
      "hsearch_r H k data action htab flag = compare_and_overwrite_entry H k data action htab flag (first_hash (ht_size htab) k) i"
    | (absent) "env_map htab k = None" "action = ENV_FIND \<or> table_full htab"
      "hsearch_r H k data action htab flag = Some (0, None, htab)"
    | (fresh) i where "env_map htab k = None" "action = ENV_ENTER" "\<not> table_full htab" "vacant htab k i"
      "hsearch_r H k data action htab flag = Some (create_entry H k data htab flag (first_hash (ht_size htab) k) i)"
proof -
  obtain n r where st: "stopped H k data action htab flag n r" and f: "find_node H k data action htab flag = Some r"
    using find_node_stops [OF assms] by blast
  show thesis
  proof (cases r)
    case (Found s)
    then obtain i where "holds_key htab k i"
      "compare_and_overwrite_entry H k data action htab flag (first_hash (ht_size htab) k) i = Some s"
      using stopped_iff(2) [OF assms(1) st] by blast
    with f Found show thesis by (intro found [of i]) (simp_all add: hsearch_find_node)
  next
    case (Miss i fd)
    then have none: "env_map htab k = None" using stopped_iff(1) [OF assms(1) st] by auto
    show thesis
    proof (cases "action = ENV_FIND \<or> table_full htab")
      case True
      with none f Miss show thesis by (intro absent) (auto simp: hsearch_find_node table_full_def)
    next
      case False
      with Miss have "vacant htab k (if fd \<noteq> 0 then fd else i)" using miss_vacant [OF assms(1)] st by blast
      moreover have "action = ENV_ENTER" using False by (cases action) auto
      ultimately show thesis using False none f Miss
        by (intro fresh [of "if fd \<noteq> 0 then fd else i"]) (simp_all add: hsearch_find_node table_full_def)
    qed
  qed
qed

lemma compare_find:
  assumes "table_ok htab" "NUL \<notin> set k" "holds_key htab k i"
  shows "compare_and_overwrite_entry H k data ENV_FIND htab flag (first_hash (ht_size htab) k) i = Some (int i, Some i, htab)"
  using table_okD(7) [OF assms(1), of i] assms(2,3)
  by (auto simp: compare_and_overwrite_entry_def holds_key_def node_ok_def Let_def key_at_def strcmp_0_iff)

lemma hsearch_find:
  assumes "table_ok htab" "NUL \<notin> set k"
  obtains (found) i where "holds_key htab k i" "env_map htab k = Some (data_at htab i)"
      "hsearch_r H k data ENV_FIND htab flag = Some (int i, Some i, htab)"
    | (absent) "env_map htab k = None" "hsearch_r H k data ENV_FIND htab flag = Some (0, None, htab)"
proof (cases rule: hsearch_cases [OF assms, of H data ENV_FIND flag, case_names found absent fresh])
  case (found i)
  with that(1) [of i] show ?thesis using compare_find [OF assms found(1)] holds_key_unique [OF assms(1) found(1)] by simp
qed (use that in simp_all)

lemma compare_enter:
  assumes e: "env_ok H htab" and "NUL \<notin> set k" "NUL \<notin> set v" and h: "holds_key htab k i"
    and r: "compare_and_overwrite_entry H k (Some v) ENV_ENTER htab flag (first_hash (ht_size htab) k) i = Some r"
  shows "\<exists>res ep htab'. r = (res, ep, htab') \<and> env_ok H htab' \<and> ht_size htab' = ht_size htab \<and>
     (if accepts H k (env_map htab k) v flag
      then res \<noteq> 0 \<and> ep \<noteq> None \<and> env_map htab' = (env_map htab)(k \<mapsto> v) else res = 0 \<and> ep = None \<and> htab' = htab)"
proof -
  note t = env_okD(1) [OF e]
  have l: "live htab i" "key_at htab i = k" using h by (auto simp: holds_key_def)
  have en: "entry htab i = entry_for H k (data_at htab i)" using env_okD(2) [OF e l(1)] l(2) by simp
  have k: "e_key (entry htab i) = Some k" by (simp add: en entry_for_def)
  have acc: "accepts H k (env_map htab k) v flag \<longleftrightarrow> \<not> denied H (entry htab i) (Some v) env_op_overwrite flag \<and>
      do_callback (entry htab i) k (Some v) env_op_overwrite flag = 0"
    by (simp add: accepts_def holds_key_unique [OF t h] Let_def en)
  let ?h = "set_node htab i ((nodes htab ! i)\<lparr>n_entry := (entry htab i)\<lparr>e_data := Some v\<rparr>\<rparr>)"
  have "used htab i = int (first_hash (ht_size htab) k)" using table_okD(7) [OF t l(1)] l(2) by (simp add: node_ok_def Let_def)
  then have r': "r = (if accepts H k (env_map htab k) v flag then (int i, Some i, ?h) else (0, None, htab))"
    using r assms(2,3) table_okD(3) [OF t] k
    by (auto simp: compare_and_overwrite_entry_def acc strcmp_0_iff split: if_splits)
  note ov = overwrite_ok [OF t l(1) assms(3) refl]
  have i: "1 \<le> i" "i < length (nodes htab)" using live_in_range [OF t l(1)] by auto
  have "changed_at i htab ?h" using i l(1) by (simp add: changed_at_def live_def used_def)
  moreover have "entry ?h i = entry_for H k v" using i en by (simp add: entry_for_def)
  ultimately have "env_ok H ?h" using changed_env_ok [OF e ov(1)] by blast
  with r' e i ov(2) l(2) show ?thesis by auto
qed

lemma set_node_twice:
  "set_node ((set_node htab i a)\<lparr>ht_filled := f\<rparr>) i b = (set_node htab i b)\<lparr>ht_filled := f\<rparr>"
  by (simp add: set_node_def nodes_def)

lemma new_entry:
  "e_flags e = 0 \<Longrightarrow> e\<lparr>e_key := Some k, e_data := Some v, e_callback := callback_of H k, 
     e_flags := (case flags_of H k of None \<Rightarrow> 0 | Some fl \<Rightarrow> fl)\<rparr> = entry_for H k v"
  by (cases e) (simp add: entry_for_def new_flags_def)

lemma create_enter:
  assumes e: "env_ok H htab" and nul: "NUL \<notin> set k" "NUL \<notin> set v" and new: "env_map htab k = None" and v: "vacant htab k i"
    and r: "create_entry H k (Some v) htab flag (first_hash (ht_size htab) k) i = (res, ep, htab')"
  shows "env_ok H htab'" "ht_size htab' = ht_size htab"
    "if accepts H k None v flag then res = 1 \<and> ep \<noteq> None \<and> env_map htab' = (env_map htab)(k \<mapsto> v)
     else res = 0 \<and> ep = None \<and> env_map htab' = env_map htab"
proof -
  note t = env_okD(1) [OF e]
  let ?h = "(set_node htab i \<lparr>n_used = int (first_hash (ht_size htab) k), n_entry = entry_for H k v\<rparr>)\<lparr>ht_filled := ht_filled htab + 1\<rparr>"
  note en = enter_ok [OF t new v nul refl, of "entry_for H k v"]
  have ok: "table_ok ?h" "env_map ?h = (env_map htab)(k \<mapsto> v)" "live ?h i" "key_at ?h i = k"
    using en by (simp_all add: entry_for_def)
  have i: "1 \<le> i" "i \<le> ht_size htab" "i < length (nodes htab)"
    using live_in_range [OF ok(1,3)] by (simp_all)
  have "changed_at i htab ?h" using i ok(3) by (simp add: changed_at_def live_def)
  moreover have entry: "entry ?h i = entry_for H k v" using i by simp
  ultimately have h: "env_ok H ?h" using changed_env_ok [OF e ok(1)] by blast
  note d = delete_ok [OF ok(1,3)]
  have "changed_at i ?h (hdelete_entry ?h i)" using i by (simp add: changed_at_def hdelete_entry_def Let_def)
  moreover have "\<not> live (hdelete_entry ?h i) i" using i by (simp add: live_def hdelete_entry_def Let_def)
  ultimately have hd: "env_ok H (hdelete_entry ?h i)" using changed_env_ok [OF h d(1)] by blast
  have bk: "env_map (hdelete_entry ?h i) = env_map htab" using d(2) ok(2,4) new by (simp add: fun_upd_idem)
  have "e_flags (entry htab i) = 0" using table_okD(10) [OF t i(1,2)] v by (simp add: vacant_def)
  then have "create_entry H k (Some v) htab flag (first_hash (ht_size htab) k) i =
    (if accepts H k None v flag then (1, Some i, ?h) else (0, None, hdelete_entry ?h i))"
    using i table_okD(3) [OF t] nul
    by (simp add: create_entry_def Let_def set_node_twice new_entry accepts_def cong: option.case_cong)
  with r h hd bk ok(2)
  show "env_ok H htab'" "ht_size htab' = ht_size htab"
    "if accepts H k None v flag then res = 1 \<and> ep \<noteq> None \<and> env_map htab' = (env_map htab)(k \<mapsto> v)
     else res = 0 \<and> ep = None \<and> env_map htab' = env_map htab"
    by (auto simp: hdelete_entry_def Let_def split: if_splits)
qed

text \<open>Entering a value.\<close>

lemma hsearch_enter:
  assumes e: "env_ok H htab" and nul: "NUL \<notin> set k" "NUL \<notin> set v"
  obtains res ep htab' where "hsearch_r H k (Some v) ENV_ENTER htab flag = Some (res, ep, htab')"
    "env_ok H htab'" "ht_size htab' = ht_size htab"
    "if accepts H k (env_map htab k) v flag \<and> (env_map htab k = None \<longrightarrow> \<not> table_full htab)
     then res \<noteq> 0 \<and> ep \<noteq> None \<and> env_map htab' = (env_map htab)(k \<mapsto> v)
     else res = 0 \<and> ep = None \<and> env_map htab' = env_map htab"
proof (cases rule: hsearch_cases [OF env_okD(1) [OF e] nul(1), of H "Some v" ENV_ENTER flag, case_names found absent fresh])
  case (found i)
  obtain r where r: "compare_and_overwrite_entry H k (Some v) ENV_ENTER htab flag (first_hash (ht_size htab) k) i = Some r"
    using compare_None [OF env_okD(1) [OF e] nul(1), of i H "Some v" ENV_ENTER flag] found(1) by (auto simp: holds_key_def live_def)
  from compare_enter [OF e nul found(1) r] found(2) r that holds_key_unique [OF env_okD(1) [OF e] found(1)]
  show ?thesis by (auto split: if_splits)
next
  case absent
  with e that show ?thesis by auto
next
  case (fresh i)
  obtain res ep htab' where r: "create_entry H k (Some v) htab flag (first_hash (ht_size htab) k) i = (res, ep, htab')" by (rule prod_cases3)
  from create_enter [OF e nul fresh(1,4) r] fresh r show ?thesis by (intro that) (auto split: if_splits)
qed

lemma hdelete_result:
  assumes e: "env_ok H htab" and nul: "NUL \<notin> set k"
  obtains res htab' where "hdelete_r H k htab flag = Some (res, htab')" "env_ok H htab'" "ht_size htab' = ht_size htab"
    "case env_map htab k of
       None \<Rightarrow> res = - ENOENT \<and> htab' = htab
     | Some d \<Rightarrow> if accepts_delete H k d flag then res = 0 \<and> env_map htab' = (env_map htab)(k := None) else res < 0 \<and> htab' = htab"
proof (cases rule: hsearch_find [OF env_okD(1) [OF e] nul, of H None 0, case_names found absent])
  case (found i)
  note t = env_okD(1) [OF e]
  have l: "live htab i" "key_at htab i = k" using found(1) by (auto simp: holds_key_def)
  have i: "1 \<le> i" "i < length (nodes htab)" using live_in_range [OF t l(1)] by auto
  have en: "entry htab i = entry_for H k (data_at htab i)" using env_okD(2) [OF e l(1)] l(2) by simp
  note d = delete_ok [OF t l(1)]
  have "changed_at i htab (hdelete_entry htab i)" using i by (simp add: changed_at_def hdelete_entry_def Let_def)
  moreover have "\<not> live (hdelete_entry htab i) i" using i by (simp add: live_def hdelete_entry_def Let_def)
  ultimately have ok: "env_ok H (hdelete_entry htab i)" using changed_env_ok [OF e d(1)] by blast
  have sz: "ht_size (hdelete_entry htab i) = ht_size htab" by (simp add: hdelete_entry_def Let_def)
  have r: "hdelete_r H k htab flag = Some (if accepts_delete H k (data_at htab i) flag then (0, hdelete_entry htab i)
      else (if denied H (entry htab i) None env_op_delete flag then - EPERM else - EINVAL, htab))"
    using found(3) i(1) by (simp add: hdelete_r_def Let_def accepts_delete_def en)
  show ?thesis
  proof (cases "accepts_delete H k (data_at htab i) flag")
    case True
    show ?thesis by (rule that [of 0 "hdelete_entry htab i"]) (use True r ok sz d(2) l(2) found(2) in simp_all)
  next
    case False
    show ?thesis by (rule that [of "if denied H (entry htab i) None env_op_delete flag then - EPERM else - EINVAL" htab])
        (use False r e found(2) in simp_all)
  qed
next
  case absent
  then show ?thesis by (intro that [of "- ENOENT" htab]) (simp_all add: hdelete_r_def e)
qed

lemma next_prime_prime: "odd n \<Longrightarrow> 3 < n \<Longrightarrow> odd (next_prime n) \<and> n \<le> next_prime n \<and> prime_number (next_prime n)"
proof (induction n rule: next_prime.induct)
  case (1 n)
  show ?case
  proof (cases "isprime n")
    case True
    with 1 isprime_iff [of n] show ?thesis by (simp add: next_prime.simps)
  next
    case False
    with 1 have "next_prime n = next_prime (n + 2)" by (subst next_prime.simps) simp
    with 1 False show ?thesis by auto
  qed
qed

lemma next_prime_le: "odd n \<Longrightarrow> n \<le> p \<Longrightarrow> odd p \<Longrightarrow> isprime p \<Longrightarrow> next_prime n \<le> p"
proof (induction n rule: next_prime.induct)
  case (1 n)
  show ?case
  proof (cases "isprime n")
    case True
    with 1 show ?thesis by (simp add: next_prime.simps)
  next
    case False
    then have "n \<noteq> p" "Suc n \<noteq> p" using 1 by auto
    then have "n + 2 \<le> p" using 1(3) by linarith
    moreover have "next_prime n = next_prime (n + 2)" using 1 False by (subst next_prime.simps) simp
    ultimately show ?thesis using 1 False by auto
  qed
qed

lemma hcreate_ok:
  assumes "ht_table htab = None" "ht_malloc htab = []" "\<not> ht_fault htab" "4 \<le> nel" "nel \<le> 512"
  obtains htab' where "hcreate_r nel htab = (1, htab')" "env_ok H htab'" "env_map htab' = Map.empty" "nel \<le> ht_size htab'" "ht_size htab' \<le> 521"
    "ht_filled htab' = 0"
proof -
  define m where "m = (if even nel then nel + 1 else nel)"
  define sz where "sz = next_prime m"
  have m: "odd m" "3 < m" "nel \<le> m" "m \<le> 521" using assms(4,5) by (auto simp: m_def)
  have "isprime 521" by code_simp
  then have sz: "odd sz" "m \<le> sz" "prime_number sz" "sz \<le> 521"
    using next_prime_prime [OF m(1,2)] next_prime_le [OF m(1,4)] by (auto simp: sz_def)
  have "5 \<le> sz" using sz m(2) by (cases "sz = 4") auto
  then have ok: "size_ok sz" using sz by (simp add: size_ok_def)
  let ?h = "htab\<lparr>ht_size := sz, ht_filled := 0, ht_table := Some (replicate (sz + 1) zero_node)\<rparr>"
  have n: "nodes ?h = replicate (sz + 1) zero_node" by (simp add: nodes_def)
  then have "nodes ?h ! i = zero_node" if "i \<le> sz" for i using that by (simp del: replicate_Suc)
  then have z: "used ?h i = USED_FREE" "e_flags (entry ?h i) = 0" if "i \<le> sz" for i
    using that unfolding used_def entry_def by (simp_all add: zero_node_def)
  then have l: "\<not> live ?h i" for i by (auto simp: live_def)
  have t: "table_ok ?h" using ok assms l z n by (simp add: table_ok_def)
  have "live_list ?h = []" using set_live_list [of ?h] l by simp
  then have "env_map ?h = Map.empty" by (simp add: env_map_def entries_def)
  moreover have "hcreate_r nel htab = (1, ?h)" using assms by (simp add: hcreate_r_def try_malloc_def m_def sz_def Let_def)
  ultimately show thesis using t l sz m by (intro that [of ?h]) (auto simp: env_ok_def)
qed

section \<open>Room\<close>

lemma card_entries: "table_ok htab \<Longrightarrow> unat (ht_filled htab) = card (dom (env_map htab))"
proof -
  assume t: "table_ok htab"
  have "card {i. live htab i} = length (live_list htab)"
    using set_live_list [of htab] distinct_card [of "live_list htab"] by (simp add: live_list_def)
  moreover have "card (dom (env_map htab)) = length (live_list htab)"
    using distinct_card [OF keys_distinct [OF t]] by (simp add: env_map_def dom_map_of_conv_image_fst entries_def image_image)
  ultimately show ?thesis using table_okD(6) [OF t] by simp
qed

definition room :: "hsearch_data \<Rightarrow> nat" where
  "room htab = ht_size htab - card (dom (env_map htab))"

lemma table_full_iff: "table_ok htab \<Longrightarrow> table_full htab \<longleftrightarrow> room htab = 0"
proof -
  assume t: "table_ok htab"
  have "card {i. live htab i} \<le> card {1..ht_size htab}" by (rule card_mono) (auto simp: live_def)
  then have le: "unat (ht_filled htab) \<le> ht_size htab" using table_okD(6) [OF t] by simp
  have "table_full htab \<longleftrightarrow> unat (ht_filled htab) = unat (of_nat (ht_size htab) :: u32)" by (simp add: table_full_def word_unat_eq_iff)
  also have "unat (of_nat (ht_size htab) :: u32) = ht_size htab" using table_okD(1) [OF t] by (simp add: size_ok_def unat_of_nat)
  finally show ?thesis using le card_entries [OF t] by (auto simp: room_def)
qed

lemma dom_env_map_finite [simp]: "finite (dom (env_map htab))"
  by (simp add: env_map_def finite_dom_map_of)

section \<open>The table as a dictionary\<close>

text \<open>What a user of a dictionary with limited room relies on, and a list of entries in a row.\<close>

fun run_all :: "('a \<Rightarrow> 's \<Rightarrow> 's option) \<Rightarrow> 'a list \<Rightarrow> 's \<Rightarrow> 's option" where
  "run_all f [] s = Some s"
| "run_all f (x # xs) s = Option.bind (f x s) (run_all f xs)"

locale env_dictionary =
  fixes invar :: "'s \<Rightarrow> bool"
    and look :: "'s \<Rightarrow> string \<rightharpoonup> string"
    and space :: "'s \<Rightarrow> nat"
    and enter :: "string \<Rightarrow> string \<Rightarrow> 's \<Rightarrow> 's option"
    and delete :: "string \<Rightarrow> 's \<Rightarrow> 's option"
    and may_enter :: "string option \<Rightarrow> string \<Rightarrow> string \<Rightarrow> bool"
    and may_delete :: "string \<Rightarrow> bool"
  assumes enter_law: "invar s \<Longrightarrow> may_enter (look s k) k v \<Longrightarrow> look s k \<noteq> None \<or> 0 < space s \<Longrightarrow>
      \<exists>s'. enter k v s = Some s' \<and> invar s' \<and> look s' = (look s)(k \<mapsto> v) \<and> space s \<le> Suc (space s')"
    and delete_law: "invar s \<Longrightarrow> may_delete k \<Longrightarrow> \<exists>s'. delete k s = Some s' \<and> invar s' \<and> look s' = (look s)(k := None)"
begin

text \<open>New entries with distinct keys.\<close>

lemma enter_list:
  "invar s \<Longrightarrow> \<forall>(k, v) \<in> set kvs. look s k = None \<and> may_enter None k v \<Longrightarrow> distinct (map fst kvs) \<Longrightarrow> length kvs \<le> space s \<Longrightarrow>
     \<exists>s'. run_all (\<lambda>(k, v). enter k v) kvs s = Some s' \<and> invar s' \<and> look s' = look s ++ map_of kvs"
proof (induction kvs arbitrary: s)
  case (Cons kv kvs)
  obtain k v where kv: "kv = (k, v)" by (cases kv)
  with Cons.prems obtain s1 where s1: "enter k v s = Some s1" "invar s1" "look s1 = (look s)(k \<mapsto> v)" "space s \<le> Suc (space s1)"
    using enter_law [of s k v] by fastforce
  have "look s1 x = None \<and> may_enter None x y" if "(x, y) \<in> set kvs" for x y
  proof -
    have "x \<noteq> k" using that Cons.prems(3) kv by force
    then show ?thesis using that Cons.prems(2) s1(3) by auto
  qed
  then have "\<forall>(k, v) \<in> set kvs. look s1 k = None \<and> may_enter None k v" by blast
  then obtain s' where s': "run_all (\<lambda>(k, v). enter k v) kvs s1 = Some s'" "invar s'" "look s' = look s1 ++ map_of kvs"
    using Cons.IH [of s1] Cons.prems s1 by fastforce
  have "k \<notin> dom (map_of kvs)" using Cons.prems(3) kv by (simp add: dom_map_of_conv_image_fst)
  then have "map_of kvs k = None" by blast
  then have "look s' = look s ++ map_of (kv # kvs)"
    unfolding s'(3) s1(3) kv by (intro ext) (auto simp: map_add_def split: option.splits)
  moreover have "run_all (\<lambda>(k, v). enter k v) (kv # kvs) s = Some s'" using s1(1) s'(1) kv by simp
  ultimately show ?case using s'(2) by blast
qed simp

lemma enter_distinct:
  assumes "invar s" "look s = Map.empty" "\<forall>(k, v) \<in> set kvs. may_enter None k v" "length kvs \<le> space s" "distinct (map fst kvs)"
  shows "\<exists>s'. run_all (\<lambda>(k, v). enter k v) kvs s = Some s' \<and> invar s' \<and> look s' = map_of kvs"
  using enter_list [OF assms(1) _ assms(5,4)] assms(2,3) by simp

end

definition enter_table :: "env_hooks \<Rightarrow> u32 \<Rightarrow> string \<Rightarrow> string \<Rightarrow> hsearch_data \<Rightarrow> hsearch_data option" where
  "enter_table H flag k v htab = map_option (snd \<circ> snd) (hsearch_r H k (Some v) ENV_ENTER htab flag)"

definition delete_table :: "env_hooks \<Rightarrow> u32 \<Rightarrow> string \<Rightarrow> hsearch_data \<Rightarrow> hsearch_data option" where
  "delete_table H flag k htab = map_option snd (hdelete_r H k htab flag)"

definition enterable :: "env_hooks \<Rightarrow> u32 \<Rightarrow> string option \<Rightarrow> string \<Rightarrow> string \<Rightarrow> bool" where
  "enterable H flag old k v \<longleftrightarrow> NUL \<notin> set k \<and> NUL \<notin> set v \<and> accepts H k old v flag"

definition deletable :: "env_hooks \<Rightarrow> u32 \<Rightarrow> string \<Rightarrow> bool" where
  "deletable H flag k \<longleftrightarrow> NUL \<notin> set k \<and> (\<forall>d. accepts_delete H k d flag)"

interpretation env: env_dictionary "env_ok H" env_map room "enter_table H flag" "delete_table H flag" "enterable H flag" "deletable H flag"
  for H flag
proof
  fix s k v assume e: "env_ok H s" "enterable H flag (env_map s k) k v" "env_map s k \<noteq> None \<or> 0 < room s"
  then have "accepts H k (env_map s k) v flag \<and> (env_map s k = None \<longrightarrow> \<not> table_full s)" "NUL \<notin> set k" "NUL \<notin> set v"
    using table_full_iff [OF env_okD(1) [OF e(1)]] by (auto simp: enterable_def)
  then obtain res ep s' where r: "hsearch_r H k (Some v) ENV_ENTER s flag = Some (res, ep, s')" "env_ok H s'"
    "ht_size s' = ht_size s" "env_map s' = (env_map s)(k \<mapsto> v)"
    using hsearch_enter [OF e(1), of k v flag] by (simp only: if_True) metis
  have "card (dom (env_map s')) \<le> Suc (card (dom (env_map s)))" by (simp add: r(4) card_insert_if)
  with r show "\<exists>s'. enter_table H flag k v s = Some s' \<and> env_ok H s' \<and> env_map s' = (env_map s)(k \<mapsto> v) \<and> room s \<le> Suc (room s')"
    by (simp add: enter_table_def room_def)
next
  fix s k assume e: "env_ok H s" "deletable H flag k"
  then have d: "NUL \<notin> set k" "accepts_delete H k d flag" for d by (simp_all add: deletable_def)
  obtain res s' where "hdelete_r H k s flag = Some (res, s')" "env_ok H s'"
    "case env_map s k of None \<Rightarrow> res = - ENOENT \<and> s' = s | Some d \<Rightarrow> res = 0 \<and> env_map s' = (env_map s)(k := None)"
    using hdelete_result [OF e(1) d(1), of flag] by (simp only: d(2) if_True) metis
  then show "\<exists>s'. delete_table H flag k s = Some s' \<and> env_ok H s' \<and> env_map s' = (env_map s)(k := None)"
    by (auto simp: delete_table_def fun_upd_idem split: option.splits)
qed

section \<open>Properties\<close>

text \<open>C17: \<open>hsearch_r\<close> with \<open>ENV_ENTER\<close>, on a table in order whose allocations succeed (\<open>table_ok\<close>), whatever entries and deleted nodes it has:
  the search ends.  If the permission check and the callback of the variable agree, and the
  variable is there already or the table has room, the variable has the new value, every other
  variable is as before, and the result is not 0 and comes with the entry; otherwise the result is 0, no entry is
  returned and no variable has changed.  The table stays in order.\<close>

theorem hsearch_r_enters:
  assumes "env_ok H htab" "NUL \<notin> set k" "NUL \<notin> set v"
  shows "\<exists>res ep htab'. hsearch_r H k (Some v) ENV_ENTER htab flag = Some (res, ep, htab') \<and> env_ok H htab' \<and>
    (if accepts H k (env_map htab k) v flag \<and> (env_map htab k = None \<longrightarrow> \<not> table_full htab)
     then res \<noteq> 0 \<and> ep \<noteq> None \<and> env_map htab' = (env_map htab)(k \<mapsto> v)
     else res = 0 \<and> ep = None \<and> env_map htab' = env_map htab)"
  by (rule hsearch_enter [OF assms, of flag]) blast

definition no_table :: hsearch_data where
  "no_table = \<lparr>ht_table = None, ht_size = 0, ht_filled = 0, ht_malloc = [], ht_fault = False\<rparr>"

definition no_hooks :: env_hooks where
  "no_hooks = \<lparr>change_ok = None, callback_of = (\<lambda>_. None), flags_of = (\<lambda>_. None)\<rparr>"

lemma new_table: "env_ok no_hooks (snd (hcreate_r 6 no_table)) \<and> env_map (snd (hcreate_r 6 no_table)) = Map.empty \<and>
  \<not> table_full (snd (hcreate_r 6 no_table)) \<and> room (snd (hcreate_r 6 no_table)) \<noteq> 0"
proof -
  obtain h where h: "hcreate_r 6 no_table = (1, h)" "env_ok no_hooks h" "env_map h = Map.empty" "6 \<le> ht_size h"
    by (rule hcreate_ok [of no_table 6 no_hooks]) (simp_all add: no_table_def)
  then have "room h \<noteq> 0" by (simp add: room_def)
  with h table_full_iff [OF env_okD(1) [OF h(2)]] show ?thesis by simp
qed

theorem hsearch_r_enters_witness:
  "\<exists>res ep htab'. hsearch_r no_hooks ''ipaddr'' (Some ''192.168.1.1'') ENV_ENTER (snd (hcreate_r 6 no_table)) 0 = Some (res, ep, htab') \<and>
     env_ok no_hooks htab' \<and> res \<noteq> 0 \<and> env_map htab' = [''ipaddr'' \<mapsto> ''192.168.1.1'']"
proof -
  have "accepts no_hooks ''ipaddr'' None ''192.168.1.1'' 0"
    by (simp add: accepts_def no_hooks_def denied_def do_callback_def entry_for_def Let_def)
  then show ?thesis
    using hsearch_r_enters [of no_hooks "snd (hcreate_r 6 no_table)" "''ipaddr''" "''192.168.1.1''" 0] new_table by auto
qed

text \<open>C18: \<open>hdelete_r\<close> on a table in order whose allocations succeed ends too: a variable that is not there gives \<open>-ENOENT\<close>; one
  whose deletion is refused gives a negative result; in both cases the table is untouched.
  Otherwise the result is 0 and exactly that variable is gone.  Looking a variable up afterwards
  with \<open>ENV_FIND\<close> returns its entry, or 0 when it has none, and changes nothing.\<close>

theorem hdelete_r_deletes:
  assumes "env_ok H htab" "NUL \<notin> set k" "NUL \<notin> set j"
  shows "\<exists>res htab' found ep. hdelete_r H k htab flag = Some (res, htab') \<and> env_ok H htab' \<and>
    (case env_map htab k of
       None \<Rightarrow> res = - ENOENT \<and> htab' = htab
     | Some d \<Rightarrow> if accepts_delete H k d flag then res = 0 \<and> env_map htab' = (env_map htab)(k := None) else res < 0 \<and> htab' = htab) \<and>
    hsearch_r H j None ENV_FIND htab' flag = Some (found, ep, htab') \<and>
    (found = 0 \<longleftrightarrow> env_map htab' j = None) \<and> map_option (data_at htab') ep = env_map htab' j"
proof -
  obtain res htab' where d: "hdelete_r H k htab flag = Some (res, htab')" "env_ok H htab'"
    "case env_map htab k of
       None \<Rightarrow> res = - ENOENT \<and> htab' = htab
     | Some d \<Rightarrow> if accepts_delete H k d flag then res = 0 \<and> env_map htab' = (env_map htab)(k := None) else res < 0 \<and> htab' = htab"
    by (rule hdelete_result [OF assms(1,2), of flag])
  have "\<exists>found ep. hsearch_r H j None ENV_FIND htab' flag = Some (found, ep, htab') \<and>
    (found = 0) = (env_map htab' j = None) \<and> map_option (data_at htab') ep = env_map htab' j"
  proof (cases rule: hsearch_find [OF env_okD(1) [OF d(2)] assms(3), of H None flag, case_names found absent])
    case (found i)
    then show ?thesis by (auto simp: holds_key_def live_def)
  qed simp
  then obtain found ep where "hsearch_r H j None ENV_FIND htab' flag = Some (found, ep, htab')"
    "(found = 0) = (env_map htab' j = None)" "map_option (data_at htab') ep = env_map htab' j" by (elim exE conjE)
  with d show ?thesis by (intro exI [of _ res] exI [of _ htab'] exI [of _ found] exI [of _ ep] conjI)
qed

theorem hdelete_r_deletes_witness:
  "\<exists>res htab' found ep. hdelete_r no_hooks ''ipaddr'' (snd (hcreate_r 6 no_table)) 0 = Some (res, htab') \<and>
     res = - ENOENT \<and> hsearch_r no_hooks ''x'' None ENV_FIND htab' 0 = Some (found, ep, htab') \<and> found = 0"
  using hdelete_r_deletes [of no_hooks "snd (hcreate_r 6 no_table)" "''ipaddr''" "''x''" 0] new_table by auto

text \<open>Two ways in which the table is left out of order or not fully used.  Where no memory is left
  for a key, the node is marked used without one, and the next search that meets it follows
  the null pointer.  The scan of \<open>hmatch_r\<close> never reports the last node.\<close>

lemma failed_key_faults:
  "case hsearch_r no_hooks ''a'' (Some ''1'') ENV_ENTER (snd (hcreate_r 6 no_table)\<lparr>ht_malloc := [False]\<rparr>) 0 of
     Some (res, ep, htab) \<Rightarrow> res = 0 \<and>
       (case hsearch_r no_hooks ''a'' None ENV_FIND htab 0 of Some (_, _, htab') \<Rightarrow> ht_fault htab' | None \<Rightarrow> False)
   | None \<Rightarrow> False"
  by code_simp

lemma hmatch_skips_last:
  "hmatch_r mat last_idx htab \<noteq> Some (ht_size htab)"
  by (auto simp: hmatch_r_def find_Some_iff)

end
