(* ===== verification/QSort.thy ===== *)
theory QSort
  imports CString "HOL-Library.Multiset"
begin

text \<open>
  lib/qsort.c: a Shell sort with the gaps 1, 4, 13, and so on.  An array is a list of elements;
  the inner loop of the source that exchanges two elements byte by byte is the exchange of
  two list elements.  Every array is permuted, and sorted by the comparison, whatever total
  preorder that is.
\<close>

definition swap :: "'a list \<Rightarrow> nat \<Rightarrow> nat \<Rightarrow> 'a list" where
  "swap xs i j = xs[i := xs ! j, j := xs ! i]"

text \<open>The first gap: \<open>nel1\<close> is \<open>nel - 1\<close>.\<close>

function qsort_gap :: "nat \<Rightarrow> nat \<Rightarrow> nat" where
  "qsort_gap nel1 wgap = (let wgap = 3 * wgap + 1 in if wgap < nel1 div 3 then qsort_gap nel1 wgap else wgap)"
  by pat_completeness auto
termination by (relation "measure (\<lambda>(nel1, wgap). nel1 - wgap)") auto

declare qsort_gap.simps [simp del]

text \<open>The innermost loop moves the element at \<open>i\<close> down by steps of \<open>gap\<close>; no gap is 0.\<close>

function qsort_sift :: "('a \<Rightarrow> 'a \<Rightarrow> int) \<Rightarrow> nat \<Rightarrow> 'a list \<Rightarrow> nat \<Rightarrow> 'a list" where
  "qsort_sift cmp gap xs i =
     (let j = i - gap
      in if gap = 0 \<or> cmp (xs ! j) (xs ! (j + gap)) \<le> 0 then xs
         else let xs = swap xs j (j + gap)
              in if gap \<le> j then qsort_sift cmp gap xs j else xs)"
  by pat_completeness auto
termination by (relation "measure (\<lambda>(cmp, gap, xs, i). i)") auto

declare qsort_sift.simps [simp del]

function qsort_pass :: "('a \<Rightarrow> 'a \<Rightarrow> int) \<Rightarrow> nat \<Rightarrow> nat \<Rightarrow> 'a list \<Rightarrow> nat \<Rightarrow> 'a list" where
  "qsort_pass cmp nel gap xs i =
     (let xs = qsort_sift cmp gap xs i
      in if Suc i < nel then qsort_pass cmp nel gap xs (Suc i) else xs)"
  by pat_completeness auto
termination by (relation "measure (\<lambda>(cmp, nel, gap, xs, i). nel - i)") auto

declare qsort_pass.simps [simp del]

function qsort_gaps :: "('a \<Rightarrow> 'a \<Rightarrow> int) \<Rightarrow> nat \<Rightarrow> nat \<Rightarrow> 'a list \<Rightarrow> 'a list" where
  "qsort_gaps cmp nel gap xs =
     (let xs = qsort_pass cmp nel gap xs gap; gap' = (gap - 1) div 3
      in if gap' \<noteq> 0 then qsort_gaps cmp nel gap' xs else xs)"
  by pat_completeness auto
termination by (relation "measure (\<lambda>(cmp, nel, gap, xs). gap)") auto

declare qsort_gaps.simps [simp del]

definition qsort :: "('a \<Rightarrow> 'a \<Rightarrow> int) \<Rightarrow> 'a list \<Rightarrow> 'a list" where
  "qsort cmp xs =
     (if 1 < length xs then qsort_gaps cmp (length xs) (qsort_gap (length xs - 1) 0) xs else xs)"

section \<open>A permutation\<close>

lemma mset_swap: "i < length xs \<Longrightarrow> j < length xs \<Longrightarrow> mset (swap xs i j) = mset xs"
  by (simp add: swap_def mset_swap)

lemma length_swap [simp]: "length (swap xs i j) = length xs"
  by (simp add: swap_def)

lemma sift_mset: "i < length xs \<Longrightarrow> gap \<le> i \<Longrightarrow> mset (qsort_sift cmp gap xs i) = mset xs"
proof (induction cmp gap xs i rule: qsort_sift.induct)
  case (1 cmp gap xs i)
  then show ?case by (subst qsort_sift.simps) (auto simp: Let_def mset_swap)
qed

lemma pass_mset: "i < nel \<Longrightarrow> nel = length xs \<Longrightarrow> gap \<le> i \<Longrightarrow> mset (qsort_pass cmp nel gap xs i) = mset xs"
proof (induction cmp nel gap xs i rule: qsort_pass.induct)
  case (1 cmp nel gap xs i)
  have m: "mset (qsort_sift cmp gap xs i) = mset xs" using 1 by (intro sift_mset) auto
  then have "length (qsort_sift cmp gap xs i) = length xs" by (rule mset_eq_length)
  with 1 m show ?case by (subst qsort_pass.simps) (simp add: Let_def)
qed

lemma gaps_mset: "0 < gap \<Longrightarrow> gap < nel \<Longrightarrow> nel = length xs \<Longrightarrow> mset (qsort_gaps cmp nel gap xs) = mset xs"
proof (induction cmp nel gap xs rule: qsort_gaps.induct)
  case (1 cmp nel gap xs)
  have m: "mset (qsort_pass cmp nel gap xs gap) = mset xs" using 1 by (intro pass_mset) auto
  then have "length (qsort_pass cmp nel gap xs gap) = length xs" by (rule mset_eq_length)
  with 1 m show ?case by (subst qsort_gaps.simps) (simp add: Let_def)
qed

text \<open>The remark of the source on its first gap.\<close>

lemma gap_less: "3 * wgap + 1 \<le> nel1 \<Longrightarrow> 0 < qsort_gap nel1 wgap \<and> qsort_gap nel1 wgap \<le> nel1"
proof (induction nel1 wgap rule: qsort_gap.induct)
  case (1 nel1 wgap)
  then show ?case by (subst (1 2) qsort_gap.simps) (auto simp: Let_def)
qed

lemma first_gap:
  assumes "1 < length xs"
  shows "0 < qsort_gap (length xs - 1) 0" "qsort_gap (length xs - 1) 0 < length xs"
  using gap_less [of 0 "length xs - 1"] assms by linarith+

lemma qsort_mset [simp]: "mset (qsort cmp xs) = mset xs"
  using gaps_mset [OF first_gap] by (auto simp: qsort_def)

lemma qsort_set [simp]: "set (qsort cmp xs) = set xs"
  by (metis qsort_mset set_mset_mset)

section \<open>Sorted\<close>

text \<open>Moving one element down a sorted array: all before and all from \<open>i\<close> to \<open>k\<close> are sorted, and the element at \<open>i\<close> may be too small.\<close>

definition hole_sorted :: "('a \<Rightarrow> 'a \<Rightarrow> int) \<Rightarrow> 'a list \<Rightarrow> nat \<Rightarrow> nat \<Rightarrow> bool" where
  "hole_sorted cmp xs k i \<longleftrightarrow> (\<forall>a b. a < b \<longrightarrow> b \<le> k \<longrightarrow> b \<noteq> i \<longrightarrow> cmp (xs ! a) (xs ! b) \<le> 0)"

definition preorder_cmp :: "('a \<Rightarrow> 'a \<Rightarrow> int) \<Rightarrow> bool" where
  "preorder_cmp cmp \<longleftrightarrow> (\<forall>a b. cmp a b \<le> 0 \<or> cmp b a \<le> 0) \<and>
     (\<forall>a b c. cmp a b \<le> 0 \<longrightarrow> cmp b c \<le> 0 \<longrightarrow> cmp a c \<le> 0)"

lemma hole_swap:
  assumes "hole_sorted cmp xs k (Suc j)" "cmp (xs ! Suc j) (xs ! j) \<le> 0" "Suc j \<le> k" "k < length xs"
  shows "hole_sorted cmp (swap xs j (Suc j)) k j"
  unfolding hole_sorted_def
proof (intro allI impI)
  fix a b assume ab: "a < b" "b \<le> k" "b \<noteq> j"
  have h: "cmp (xs ! c) (xs ! d) \<le> 0" if "c < d" "d \<le> k" "d \<noteq> Suc j" for c d
    using assms(1) that by (auto simp: hole_sorted_def)
  have n: "swap xs j (Suc j) ! c = (if c = j then xs ! Suc j else if c = Suc j then xs ! j else xs ! c)" if "c \<le> k" for c
    using that assms(3,4) by (auto simp: swap_def nth_list_update)
  show "cmp (swap xs j (Suc j) ! a) (swap xs j (Suc j) ! b) \<le> 0"
    using ab h [of a b] h [of a j] h [of j b] h [of "Suc j" b] assms(2,3) by (auto simp: n)
qed

lemma hole_filled:
  assumes "preorder_cmp cmp" "hole_sorted cmp xs k (Suc j)" "cmp (xs ! j) (xs ! Suc j) \<le> 0" "Suc j \<le> k"
  shows "hole_sorted cmp xs k 0"
  unfolding hole_sorted_def
proof (intro allI impI)
  fix a b assume ab: "a < b" "b \<le> k" "b \<noteq> 0"
  have "cmp (xs ! a) (xs ! Suc j) \<le> 0" if "a < Suc j"
  proof (cases "a = j")
    case False
    with that assms(2,4) have "cmp (xs ! a) (xs ! j) \<le> 0" by (simp add: hole_sorted_def)
    with assms(1,3) show ?thesis unfolding preorder_cmp_def by blast
  qed (use assms(3) in simp)
  with ab assms(2) show "cmp (xs ! a) (xs ! b) \<le> 0" by (cases "b = Suc j") (auto simp: hole_sorted_def)
qed

lemma sift_sorted:
  "preorder_cmp cmp \<Longrightarrow> k < length xs \<Longrightarrow> Suc j \<le> k \<Longrightarrow> hole_sorted cmp xs k (Suc j) \<Longrightarrow>
     hole_sorted cmp (qsort_sift cmp 1 xs (Suc j)) k 0"
proof (induction j arbitrary: xs)
  case 0
  show ?case
  proof (cases "cmp (xs ! 0) (xs ! 1) \<le> 0")
    case True
    then show ?thesis using hole_filled [of cmp xs k 0] 0 by (subst qsort_sift.simps) simp
  next
    case False
    with 0(1) have "cmp (xs ! Suc 0) (xs ! 0) \<le> 0" by (auto simp: preorder_cmp_def)
    with False show ?thesis using hole_swap [of cmp xs k 0] 0 by (subst qsort_sift.simps) simp
  qed
next
  case (Suc j)
  show ?case
  proof (cases "cmp (xs ! Suc j) (xs ! Suc (Suc j)) \<le> 0")
    case True
    then show ?thesis using hole_filled [of cmp xs k "Suc j"] Suc.prems by (subst qsort_sift.simps) simp
  next
    case False
    with Suc.prems(1) have "cmp (xs ! Suc (Suc j)) (xs ! Suc j) \<le> 0" by (auto simp: preorder_cmp_def)
    then have "hole_sorted cmp (swap xs (Suc j) (Suc (Suc j))) k (Suc j)" using Suc.prems by (intro hole_swap) auto
    then have "hole_sorted cmp (qsort_sift cmp 1 (swap xs (Suc j) (Suc (Suc j))) (Suc j)) k 0"
      using Suc.prems by (intro Suc.IH) auto
    with False show ?thesis by (subst qsort_sift.simps) simp
  qed
qed

lemma pass_sorted:
  "preorder_cmp cmp \<Longrightarrow> nel = length xs \<Longrightarrow> Suc i < nel \<Longrightarrow> hole_sorted cmp xs i 0 \<Longrightarrow>
     hole_sorted cmp (qsort_pass cmp nel 1 xs (Suc i)) (nel - 1) 0"
proof (induction "nel - i" arbitrary: i xs)
  case (Suc n)
  let ?xs = "qsort_sift cmp 1 xs (Suc i)"
  have "hole_sorted cmp xs (Suc i) (Suc i)" using Suc.prems(4) by (auto simp: hole_sorted_def less_Suc_eq le_Suc_eq)
  then have s: "hole_sorted cmp ?xs (Suc i) 0" using Suc.prems by (intro sift_sorted) auto
  have l: "length ?xs = length xs" using sift_mset [of "Suc i" xs 1 cmp] Suc.prems by (auto dest: mset_eq_length)
  show ?case
  proof (cases "Suc (Suc i) < nel")
    case True
    then have "hole_sorted cmp (qsort_pass cmp nel 1 ?xs (Suc (Suc i))) (nel - 1) 0"
      using Suc.hyps(2) Suc.prems s l by (intro Suc.hyps(1)) auto
    with True show ?thesis by (subst qsort_pass.simps) (simp add: Let_def)
  next
    case False
    then have "nel - 1 = Suc i" using Suc.prems by simp
    with False s show ?thesis by (subst qsort_pass.simps) (simp add: Let_def)
  qed
qed simp

text \<open>Every gap of the sequence is three times the next one, plus one: the last pass has gap 1.\<close>

inductive shell_gap :: "nat \<Rightarrow> bool" where
  one: "shell_gap 1"
| more: "shell_gap g \<Longrightarrow> shell_gap (3 * g + 1)"

lemma gap_shell: "wgap = 0 \<or> shell_gap wgap \<Longrightarrow> shell_gap (qsort_gap nel1 wgap)"
proof (induction nel1 wgap rule: qsort_gap.induct)
  case (1 nel1 wgap)
  have "shell_gap (3 * wgap + 1)" using 1(2) shell_gap.intros by auto
  with 1(1) show ?case by (subst qsort_gap.simps) (auto simp: Let_def)
qed

lemma gaps_sorted:
  "shell_gap gap \<Longrightarrow> preorder_cmp cmp \<Longrightarrow> gap < nel \<Longrightarrow> nel = length xs \<Longrightarrow>
     hole_sorted cmp (qsort_gaps cmp nel gap xs) (nel - 1) 0"
proof (induction gap arbitrary: xs rule: shell_gap.induct)
  case one
  have "hole_sorted cmp xs 0 0" by (simp add: hole_sorted_def)
  with one show ?case using pass_sorted [of cmp nel xs 0] by (subst qsort_gaps.simps) (simp add: Let_def)
next
  case (more g)
  let ?xs = "qsort_pass cmp nel (3 * g + 1) xs (3 * g + 1)"
  have "mset ?xs = mset xs" using more.prems by (intro pass_mset) auto
  then have "length ?xs = length xs" by (rule mset_eq_length)
  moreover have "0 < g" using more.hyps by (induction rule: shell_gap.induct) auto
  ultimately show ?case using more.IH [of ?xs] more.prems by (subst qsort_gaps.simps) (simp add: Let_def)
qed

lemma qsort_sorted:
  assumes "preorder_cmp cmp"
  shows "sorted_wrt (\<lambda>a b. cmp a b \<le> 0) (qsort cmp xs)"
proof (cases "1 < length xs")
  case True
  let ?g = "qsort_gap (length xs - 1) 0"
  have "shell_gap ?g" by (rule gap_shell) simp
  moreover have "?g < length xs" using True by (rule first_gap)
  ultimately have "hole_sorted cmp (qsort cmp xs) (length xs - 1) 0"
    using True assms gaps_sorted [of ?g cmp "length xs" xs] by (simp add: qsort_def)
  moreover have "length (qsort cmp xs) = length xs" by (rule mset_eq_length) simp
  ultimately show ?thesis using True by (auto simp: sorted_wrt_iff_nth_less hole_sorted_def)
next
  case False
  then show ?thesis by (cases xs) (auto simp: qsort_def)
qed

section \<open>The order of \<open>strcmp\<close>\<close>

lemma strcmp_linear: "strcmp a b \<le> 0 \<or> strcmp b a \<le> 0"
proof (induction a b rule: strcmp.induct)
  case (1 a b)
  then show ?case
    by (subst (1 2) strcmp.simps) (auto simp: Let_def)
qed

lemma strcmp_trans: "strcmp a b \<le> 0 \<Longrightarrow> strcmp b c \<le> 0 \<Longrightarrow> strcmp a c \<le> 0"
proof (induction a c arbitrary: b rule: strcmp.induct)
  case (1 a c)
  show ?case
    using 1 by (subst strcmp.simps) (auto simp: Let_def strcmp.simps [of a b] strcmp.simps [of b c] split: if_splits)
qed

lemma strcmp_preorder: "preorder_cmp (\<lambda>a b. strcmp (f a) (f b))"
  unfolding preorder_cmp_def using strcmp_linear strcmp_trans by blast

text \<open>C20: The sort of the library sorts.  Whatever total preorder the comparison is, \<open>qsort\<close> ends with a
  permutation of the array in which no element is above a later one.\<close>

theorem qsort_correct:
  assumes "preorder_cmp cmp"
  shows "sorted_wrt (\<lambda>a b. cmp a b \<le> 0) (qsort cmp xs) \<and> mset (qsort cmp xs) = mset xs"
  using qsort_sorted [OF assms] by simp

theorem qsort_correct_witness:
  "qsort strcmp [''ethaddr'', ''bootcmd'', ''baud''] = [''baud'', ''bootcmd'', ''ethaddr''] \<and>
   sorted_wrt (\<lambda>a b. strcmp a b \<le> 0) (qsort strcmp [''ethaddr'', ''bootcmd'', ''baud''])"
  using qsort_correct [OF strcmp_preorder [of "\<lambda>x. x"], of "[''ethaddr'', ''bootcmd'', ''baud'']"]
  by (intro conjI) (code_simp, simp)

end
