(* ===== verification/EnvText.thy ===== *)
theory EnvText
  imports EnvDict QSort
begin

text \<open>
  The text form of the environment: \<open>hexport_r\<close> and \<open>himport_r\<close> of lib/hashtable.c.  Lengths are
  natural numbers (a text has at most a few KiB).  Regular expressions are parameters: \<open>re_ok\<close>
  says whether \<open>slre_compile\<close> takes a pattern and \<open>re\<close> whether \<open>slre_match\<close> finds it in a string.
  CONFIG_ENV_APPEND and CONFIG_ENV_WRITEABLE_LIST are off on the board.
\<close>

unbundle bit_operations_syntax

section \<open>Flags and helpers\<close>

abbreviation H_NOCLEAR :: u32 where "H_NOCLEAR \<equiv> 0x001"
abbreviation H_FORCE :: u32 where "H_FORCE \<equiv> 0x002"
abbreviation H_INTERACTIVE :: u32 where "H_INTERACTIVE \<equiv> 0x004"
abbreviation H_HIDE_DOT :: u32 where "H_HIDE_DOT \<equiv> 0x008"
abbreviation H_MATCH_KEY :: u32 where "H_MATCH_KEY \<equiv> 0x010"
abbreviation H_MATCH_DATA :: u32 where "H_MATCH_DATA \<equiv> 0x020"
abbreviation H_MATCH_IDENT :: u32 where "H_MATCH_IDENT \<equiv> 0x040"
abbreviation H_MATCH_SUBSTR :: u32 where "H_MATCH_SUBSTR \<equiv> 0x080"
abbreviation H_MATCH_REGEX :: u32 where "H_MATCH_REGEX \<equiv> 0x100"
abbreviation H_MATCH_METHOD :: u32 where "H_MATCH_METHOD \<equiv> 0x1c0"
abbreviation H_PROGRAMMATIC :: u32 where "H_PROGRAMMATIC \<equiv> 0x200"
abbreviation H_DEFAULT :: u32 where "H_DEFAULT \<equiv> 0x400"
abbreviation H_EXTERNAL :: u32 where "H_EXTERNAL \<equiv> 0x800"

abbreviation CONFIG_ENV_MIN_ENTRIES :: nat where "CONFIG_ENV_MIN_ENTRIES \<equiv> 64"
abbreviation CONFIG_ENV_MAX_ENTRIES :: nat where "CONFIG_ENV_MAX_ENTRIES \<equiv> 512"

abbreviation BACKSLASH :: char where "BACKSLASH \<equiv> CHR 0x5c"

definition isblank :: "char \<Rightarrow> bool" where
  "isblank c \<longleftrightarrow> c = CHR '' '' \<or> c = CHR 0x09"

definition key_of :: "env_entry \<Rightarrow> string" where
  "key_of e = (case e_key e of None \<Rightarrow> [] | Some k \<Rightarrow> k)"

definition data_of :: "env_entry \<Rightarrow> string" where
  "data_of e = (case e_data e of None \<Rightarrow> [] | Some d \<Rightarrow> d)"

definition cmpkey :: "env_entry \<Rightarrow> env_entry \<Rightarrow> int" where
  "cmpkey e1 e2 = strcmp (key_of e1) (key_of e2)"

definition match_string :: "(string \<Rightarrow> string \<Rightarrow> bool) \<Rightarrow> u32 \<Rightarrow> string \<Rightarrow> string \<Rightarrow> bool" where
  "match_string re flag str pat =
     (let m = flag AND H_MATCH_METHOD
      in if m = H_MATCH_IDENT then strcmp str pat = 0
         else if m = H_MATCH_SUBSTR then strstr str pat \<noteq> None
         else if m = H_MATCH_REGEX then re pat str
         else False)"

fun match_entry :: "(string \<Rightarrow> bool) \<Rightarrow> (string \<Rightarrow> string \<Rightarrow> bool) \<Rightarrow> env_entry \<Rightarrow> u32 \<Rightarrow> string list \<Rightarrow> bool" where
  "match_entry re_ok re ep flag [] = False"
| "match_entry re_ok re ep flag (arg # args) =
     (if \<not> re_ok arg then False
      else if flag AND H_MATCH_KEY \<noteq> 0 \<and> match_string re flag (key_of ep) arg then True
      else if flag AND H_MATCH_DATA \<noteq> 0 \<and> match_string re flag (data_of ep) arg then True
      else match_entry re_ok re ep flag args)"

section \<open>Export\<close>

text \<open>Pass 1: which entries, and the length one entry is given.\<close>

definition exported :: "(string \<Rightarrow> bool) \<Rightarrow> (string \<Rightarrow> string \<Rightarrow> bool) \<Rightarrow> u32 \<Rightarrow> string list \<Rightarrow> env_entry \<Rightarrow> bool" where
  "exported re_ok re flag args ep \<longleftrightarrow>
     \<not> (args \<noteq> [] \<and> \<not> match_entry re_ok re ep flag args) \<and>
     \<not> (flag AND H_HIDE_DOT \<noteq> 0 \<and> c0 (key_of ep) = CHR ''.'')"

definition export_len :: "char \<Rightarrow> env_entry \<Rightarrow> nat" where
  "export_len sep ep =
     strlen (key_of ep) +
     (if sep = NUL then strlen (data_of ep)
      else sum_list (map (\<lambda>c. if c = sep \<or> c = BACKSLASH then 2 else 1) (cstr (data_of ep)))) + 2"

text \<open>Pass 2: the value with its escapes, one entry, and all of them with the terminating NUL.\<close>

fun escape :: "char \<Rightarrow> string \<Rightarrow> string" where
  "escape sep [] = []"
| "escape sep (c # s) = (if c = sep \<or> c = BACKSLASH then [BACKSLASH, c] else [c]) @ escape sep s"

definition export_entry :: "char \<Rightarrow> env_entry \<Rightarrow> string" where
  "export_entry sep ep = cstr (key_of ep) @ CHR ''='' # escape sep (cstr (data_of ep)) @ [sep]"

definition used_entries :: "hsearch_data \<Rightarrow> env_entry list" where
  "used_entries htab = map (entry htab) (live_list htab)"

text \<open>The result and the buffer.  The buffer is longer than the size that is returned exactly when
  the code writes behind its end.  An entry that lost its key or its value to a failed
  allocation is a null pointer that pass 1 follows.\<close>

definition hexport_r ::
    "(string \<Rightarrow> bool) \<Rightarrow> (string \<Rightarrow> string \<Rightarrow> bool) \<Rightarrow> hsearch_data \<Rightarrow> char \<Rightarrow> u32 \<Rightarrow> bool \<Rightarrow> nat \<Rightarrow> string list \<Rightarrow>
     int \<times> string option \<times> hsearch_data" where
  "hexport_r re_ok re htab sep flag given sz args =
     (if \<exists>ep \<in> set (used_entries htab). e_key ep = None \<or> e_data ep = None
      then (- 1, None, htab\<lparr>ht_fault := True\<rparr>)
      else let lst = filter (exported re_ok re flag args) (used_entries htab);
               totlen = sum_list (map (export_len sep) lst);
               lst = qsort cmpkey lst
           in if sz \<noteq> 0 \<and> sz < totlen + 1 then (- 1, None, htab)
              else let sz = (if sz = 0 then totlen + 1 else sz);
                       (ok, htab) = (if given then (True, htab) else try_malloc htab)
                   in if \<not> ok then (- 1, None, htab)
                      else let txt = concat (map (export_entry sep) lst) @ [NUL]
                           in (int sz, Some (txt @ replicate (sz - length txt) NUL), htab))"

section \<open>Import\<close>

text \<open>The names still to come; a name that was met is \<open>None\<close>.\<close>

definition drop_var_from_set :: "string \<Rightarrow> string option list \<Rightarrow> bool \<times> string option list" where
  "drop_var_from_set name vars =
     (if vars = [] then (True, [])
      else let hit = (\<lambda>v. case v of None \<Rightarrow> False | Some s \<Rightarrow> strcmp name s = 0)
           in (\<exists>v \<in> set vars. hit v, map (\<lambda>v. if hit v then None else v) vars))"

text \<open>One turn of the parse loop: what it read, and the text that is left.\<close>

datatype import_item = Comment | Delete_var string | Empty_name | Set_var string string

text \<open>The value with its escapes undone, and the text from its end on.\<close>

fun parse_value :: "char \<Rightarrow> string \<Rightarrow> string \<times> string" where
  "parse_value sep [] = ([], [])"
| "parse_value sep (c # s) =
     (if c = NUL \<or> c = sep then ([], c # s)
      else if c = BACKSLASH \<and> c0 s \<noteq> NUL
      then let (v, r) = parse_value sep (tl s) in (c0 s # v, r)
      else let (v, r) = parse_value sep s in (c # v, r))"

definition parse_item :: "char \<Rightarrow> string \<Rightarrow> import_item \<times> string" where
  "parse_item sep dp =
     (let dp = dropWhile isblank dp
      in if c0 dp = CHR ''#'' then (Comment, tl (dropWhile (\<lambda>c. c \<noteq> NUL \<and> c \<noteq> sep) dp))
         else let inside = (\<lambda>c. c \<noteq> CHR ''='' \<and> c \<noteq> NUL \<and> c \<noteq> sep);
                  name = takeWhile inside dp; dp = dropWhile inside dp
              in if c0 dp = NUL \<or> c0 (tl dp) = NUL \<or> c0 dp = sep \<or> c0 (tl dp) = sep
                 then (Delete_var name, tl (if c0 dp = CHR ''='' then tl dp else dp))
                 else let (v, dp) = parse_value sep (tl dp)
                      in (if name = [] then Empty_name else Set_var name v, tl dp))"

text \<open>What the loop does with it: \<open>False\<close> where the function returns 0.\<close>

definition apply_item ::
    "env_hooks \<Rightarrow> u32 \<Rightarrow> import_item \<Rightarrow> string option list \<times> hsearch_data \<Rightarrow> (bool \<times> string option list \<times> hsearch_data) option" where
  "apply_item H flag item st =
     (let (vars, htab) = st
      in case item of
           Comment \<Rightarrow> Some (True, vars, htab)
         | Delete_var name \<Rightarrow>
             (let (listed, vars) = drop_var_from_set name vars
              in if \<not> listed then Some (True, vars, htab)
                 else map_option (\<lambda>(_, htab). (True, vars, htab)) (hdelete_r H name htab flag))
         | Empty_name \<Rightarrow> Some (False, vars, htab)
         | Set_var name v \<Rightarrow>
             (let (listed, vars) = drop_var_from_set name vars
              in if \<not> listed then Some (True, vars, htab)
                 else map_option (\<lambda>(_, _, htab). (True, vars, htab)) (hsearch_r H name (Some v) ENV_ENTER htab flag)))"

lemma parse_value_length: "length (snd (parse_value sep s)) \<le> length s"
proof (induction sep s rule: parse_value.induct)
  case (2 sep c s)
  then show ?case by (cases s) (auto simp: case_prod_beta Let_def)
qed simp

lemma parse_item_tl: "\<exists>t. snd (parse_item sep dp) = tl t \<and> length t \<le> length dp"
proof -
  have d: "length (dropWhile P (dropWhile isblank dp)) \<le> length dp" for P
    by (meson length_dropWhile_le order_trans)
  moreover have "length (tl (dropWhile P (dropWhile isblank dp))) \<le> length dp" for P using d [of P] by simp
  ultimately show ?thesis
    using order_trans [OF parse_value_length, of _ "length dp" sep]
    by (simp add: parse_item_def Let_def case_prod_beta del: length_tl) blast
qed

lemma parse_item_length: "snd (parse_item sep dp) \<noteq> [] \<Longrightarrow> length (snd (parse_item sep dp)) < length dp"
proof -
  assume "snd (parse_item sep dp) \<noteq> []"
  moreover obtain t where "snd (parse_item sep dp) = tl t" "length t \<le> length dp" using parse_item_tl by blast
  ultimately show ?thesis by (cases t) auto
qed

text \<open>The loop; \<open>tail\<close> is what lies behind the end of the text in the buffer, the final NUL included.\<close>

function himport_loop ::
    "env_hooks \<Rightarrow> u32 \<Rightarrow> char \<Rightarrow> nat \<Rightarrow> string \<Rightarrow> string option list \<times> hsearch_data \<Rightarrow> (bool \<times> string option list \<times> hsearch_data) option" where
  "himport_loop H flag sep tail dp st =
     (let r = parse_item sep dp
      in case apply_item H flag (fst r) st of
           None \<Rightarrow> None
         | Some (ok, st') \<Rightarrow>
             if \<not> ok then Some (False, st')
             else if tail < length (snd r) \<and> c0 (snd r) \<noteq> NUL then himport_loop H flag sep tail (snd r) st'
             else Some (True, st'))"
  by pat_completeness auto
termination
  by (relation "measure (\<lambda>(H, flag, sep, tail, dp, st). length dp)") (use parse_item_length in force)+

declare himport_loop.simps [simp del]

text \<open>Carriage returns in front of line feeds: the characters that are kept, up to a NUL.\<close>

fun strip_crs :: "string \<Rightarrow> string" where
  "strip_crs [] = []"
| "strip_crs (c # s) =
     (if c = NUL then [] else if c = CHR 0x0d \<and> s \<noteq> [] \<and> hd s = CHR 0x0a then strip_crs s else c # strip_crs s)"

fun ignored_crs :: "string \<Rightarrow> nat" where
  "ignored_crs [] = 0"
| "ignored_crs (c # s) =
     (if c = NUL then 0 else if c = CHR 0x0d \<and> s \<noteq> [] \<and> hd s = CHR 0x0a then Suc (ignored_crs s) else ignored_crs s)"

fun delete_left :: "env_hooks \<Rightarrow> u32 \<Rightarrow> string option list \<Rightarrow> hsearch_data \<Rightarrow> hsearch_data option" where
  "delete_left H flag [] htab = Some htab"
| "delete_left H flag (None # vars) htab = delete_left H flag vars htab"
| "delete_left H flag (Some v # vars) htab = Option.bind (hdelete_r H v htab flag) (\<lambda>(_, htab). delete_left H flag vars htab)"

definition himport_r ::
    "env_hooks \<Rightarrow> hsearch_data \<Rightarrow> string \<Rightarrow> char \<Rightarrow> u32 \<Rightarrow> bool \<Rightarrow> string list \<Rightarrow> (int \<times> hsearch_data) option" where
  "himport_r H htab env sep flag crlf_is_lf vars =
     (let (ok, htab) = try_malloc htab
      in if \<not> ok then Some (0, htab)
         else let data = env @ [NUL];
                  htab = (if flag AND H_NOCLEAR = 0 \<and> vars = [] \<and> ht_table htab \<noteq> None then hdestroy_r htab else htab);
                  (created, htab) =
                    (if ht_table htab = None
                     then hcreate_r (min (CONFIG_ENV_MIN_ENTRIES + length env div 8) CONFIG_ENV_MAX_ENTRIES) htab
                     else (1, htab))
              in if created = 0 then Some (0, htab)
                 else if env = [] then Some (1, htab)
                 else let (data, tail) =
                            (if crlf_is_lf then (strip_crs env @ drop (length (strip_crs env)) data, 1 + ignored_crs env) else (data, 1))
                      in (case himport_loop H flag sep tail data (map Some vars, htab) of
                            None \<Rightarrow> None
                          | Some (ok, vars, htab) \<Rightarrow>
                              if \<not> ok then Some (0, htab)
                              else if flag AND H_NOCLEAR \<noteq> 0 then Some (1, htab)
                              else map_option (\<lambda>htab. (1, htab)) (delete_left H flag vars htab)))"

section \<open>Reading back what was written\<close>

text \<open>A name the import takes as it is.\<close>

definition name_ok :: "char \<Rightarrow> string \<Rightarrow> bool" where
  "name_ok sep k \<longleftrightarrow> k \<noteq> [] \<and> NUL \<notin> set k \<and> CHR ''='' \<notin> set k \<and> sep \<notin> set k \<and> \<not> isblank (hd k) \<and> hd k \<noteq> CHR ''#''"

definition vars_text :: "char \<Rightarrow> (string \<times> string) list \<Rightarrow> string" where
  "vars_text sep kvs = concat (map (\<lambda>(k, v). k @ CHR ''='' # escape sep v @ [sep]) kvs)"

lemma vars_text_simps [simp]:
  "vars_text sep [] = []" "vars_text sep ((k, v) # kvs) = k @ CHR ''='' # escape sep v @ sep # vars_text sep kvs"
  by (simp_all add: vars_text_def)

lemma parse_value_escape:
  "sep \<noteq> BACKSLASH \<Longrightarrow> NUL \<notin> set v \<Longrightarrow> parse_value sep (escape sep v @ sep # r) = (v, sep # r)"
  by (induction v) auto

lemma parse_item_entry:
  assumes "name_ok sep k" "v \<noteq> []" "NUL \<notin> set v" "sep \<noteq> BACKSLASH" "sep \<noteq> CHR ''=''"
  shows "parse_item sep (k @ CHR ''='' # escape sep v @ sep # r) = (Set_var k v, r)"
proof -
  obtain c k' where k: "k = c # k'" using assms(1) by (cases k) (auto simp: name_ok_def)
  let ?rest = "CHR ''='' # escape sep v @ sep # r"
  have b: "dropWhile isblank (k @ ?rest) = k @ ?rest" "c0 (k @ ?rest) \<noteq> CHR ''#''" using assms(1) k by (auto simp: name_ok_def)
  have p: "x \<in> set k \<Longrightarrow> x \<noteq> CHR ''='' \<and> x \<noteq> NUL \<and> x \<noteq> sep" for x using assms(1) by (auto simp: name_ok_def)
  have n: "takeWhile (\<lambda>c. c \<noteq> CHR ''='' \<and> c \<noteq> NUL \<and> c \<noteq> sep) (k @ ?rest) = k"
    "dropWhile (\<lambda>c. c \<noteq> CHR ''='' \<and> c \<noteq> NUL \<and> c \<noteq> sep) (k @ ?rest) = ?rest"
    using p by (simp_all add: takeWhile_append2 dropWhile_append2)
  have "c0 (escape sep v @ sep # r) \<noteq> NUL" "c0 (escape sep v @ sep # r) \<noteq> sep" using assms(2-4) by (cases v; auto)+
  then show ?thesis
    using parse_value_escape [OF assms(4,3), of r] assms(1,5) by (simp add: parse_item_def Let_def b n name_ok_def)
qed

lemma apply_set: "apply_item H flag (Set_var k v) ([], htab) = map_option (\<lambda>h. (True, [], h)) (enter_table H flag k v htab)"
  by (cases "hsearch_r H k (Some v) ENV_ENTER htab flag") (auto simp: apply_item_def drop_var_from_set_def enter_table_def)

lemma import_text:
  assumes "\<forall>(k, v) \<in> set kvs. name_ok sep k \<and> v \<noteq> [] \<and> NUL \<notin> set v" "sep \<noteq> BACKSLASH" "sep \<noteq> CHR ''=''" "kvs \<noteq> []"
  shows "himport_loop H flag sep 1 (vars_text sep kvs @ NUL # pad) ([], htab) =
    map_option (\<lambda>h. (True, [], h)) (run_all (\<lambda>(k, v). enter_table H flag k v) kvs htab)"
  using assms(1,4)
proof (induction kvs arbitrary: htab)
  case (Cons kv kvs)
  obtain k v where kv: "kv = (k, v)" by (cases kv)
  have "parse_item sep (vars_text sep (kv # kvs) @ NUL # pad) = (Set_var k v, vars_text sep kvs @ NUL # pad)"
    using parse_item_entry [of sep k v "vars_text sep kvs @ NUL # pad"] assms(2,3) Cons.prems kv by simp
  then have step: "himport_loop H flag sep 1 (vars_text sep (kv # kvs) @ NUL # pad) ([], htab) =
    (case enter_table H flag k v htab of None \<Rightarrow> None | Some h \<Rightarrow>
       if 1 < length (vars_text sep kvs @ NUL # pad) \<and> c0 (vars_text sep kvs @ NUL # pad) \<noteq> NUL
       then himport_loop H flag sep 1 (vars_text sep kvs @ NUL # pad) ([], h) else Some (True, [], h))"
    by (subst himport_loop.simps) (auto simp: apply_set Let_def split: option.splits)
  show ?case
  proof (cases kvs)
    case Nil
    then show ?thesis unfolding step by (cases "enter_table H flag k v htab") (simp_all add: kv)
  next
    case (Cons kv' kvs')
    obtain k' v' where kv': "kv' = (k', v')" by (cases kv')
    then have "name_ok sep k'" using Cons.prems local.Cons by auto
    then have "c0 (vars_text sep kvs @ NUL # pad) \<noteq> NUL" "1 < length (vars_text sep kvs @ NUL # pad)"
      using local.Cons kv' by (cases k'; auto simp: name_ok_def)+
    then show ?thesis unfolding step
      using Cons.IH Cons.prems local.Cons by (cases "enter_table H flag k v htab") (auto simp: kv)
  qed
qed simp

text \<open>The variables in the order of the export.\<close>

definition sorted_vars :: "hsearch_data \<Rightarrow> (string \<times> string) list" where
  "sorted_vars htab = map (\<lambda>e. (key_of e, data_of e)) (qsort cmpkey (used_entries htab))"

lemma cmpkey_preorder: "preorder_cmp cmpkey"
  using strcmp_preorder [of key_of] by (simp add: cmpkey_def [abs_def])

lemma used_entries_ok:
  assumes "env_ok H htab" "ep \<in> set (used_entries htab)"
  shows "e_key ep = Some (key_of ep)" "e_data ep = Some (data_of ep)" "NUL \<notin> set (key_of ep)" "NUL \<notin> set (data_of ep)"
proof -
  obtain i where i: "live htab i" "ep = entry htab i" using assms(2) set_live_list [of htab] by (auto simp: used_entries_def)
  then have "node_ok htab i" using table_okD(7) [OF env_okD(1) [OF assms(1)]] by blast
  with i(2) show "e_key ep = Some (key_of ep)" "e_data ep = Some (data_of ep)" "NUL \<notin> set (key_of ep)" "NUL \<notin> set (data_of ep)"
    by (auto simp: node_ok_def Let_def key_of_def data_of_def key_at_def data_at_def)
qed

lemma used_entries_pairs:
  assumes "env_ok H htab"
  shows "map (\<lambda>e. (key_of e, data_of e)) (used_entries htab) = entries htab"
proof -
  have "key_of e = the (e_key e) \<and> data_of e = the (e_data e)" if "e \<in> set (used_entries htab)" for e
    using used_entries_ok(1,2) [OF assms that] by (metis option.sel)
  then show ?thesis by (simp add: used_entries_def entries_def key_at_def data_at_def)
qed

lemma sorted_vars_ok:
  assumes "env_ok H htab"
  shows "mset (sorted_vars htab) = mset (entries htab)" "distinct (map fst (sorted_vars htab))" "map_of (sorted_vars htab) = env_map htab"
    "sorted_wrt (\<lambda>a b. strcmp (fst a) (fst b) \<le> 0) (sorted_vars htab)"
proof -
  show m: "mset (sorted_vars htab) = mset (entries htab)"
    unfolding sorted_vars_def used_entries_pairs [OF assms, symmetric] by (metis mset_map qsort_mset)
  then have "mset (map fst (sorted_vars htab)) = mset (map fst (entries htab))" by simp
  then show d: "distinct (map fst (sorted_vars htab))"
    using keys_distinct [OF env_okD(1) [OF assms]] mset_eq_imp_distinct_iff by blast
  have "set (sorted_vars htab) = set (entries htab)" using m by (rule mset_eq_setD)
  then show "map_of (sorted_vars htab) = env_map htab"
    unfolding env_map_def using d keys_distinct [OF env_okD(1) [OF assms]] map_of_inject_set by blast
  show "sorted_wrt (\<lambda>a b. strcmp (fst a) (fst b) \<le> 0) (sorted_vars htab)"
    using qsort_sorted [OF cmpkey_preorder, of "used_entries htab"] by (simp add: sorted_vars_def sorted_wrt_map cmpkey_def)
qed

lemma export_text:
  assumes "env_ok H htab"
  shows "concat (map (export_entry sep) (qsort cmpkey (used_entries htab))) = vars_text sep (sorted_vars htab)"
proof -
  have "export_entry sep ep = (\<lambda>(k, v). k @ CHR ''='' # escape sep v @ [sep]) (key_of ep, data_of ep)"
    if "ep \<in> set (qsort cmpkey (used_entries htab))" for ep
    using that used_entries_ok(3,4) [OF assms] by (auto simp: export_entry_def)
  then show ?thesis by (auto simp: vars_text_def sorted_vars_def intro!: arg_cong [of _ _ concat])
qed

definition backslashes :: "string \<Rightarrow> nat" where
  "backslashes s = length (filter (\<lambda>c. c = BACKSLASH) s)"

lemma length_escape: "length (escape sep s) = sum_list (map (\<lambda>c. if c = sep \<or> c = BACKSLASH then 2 else 1) s)"
  by (induction s) auto

lemma length_escape_NUL: "NUL \<notin> set s \<Longrightarrow> length (escape NUL s) = length s + backslashes s"
  by (induction s) (auto simp: backslashes_def)

lemma export_lengths:
  assumes "env_ok H htab"
  shows "sum_list (map (export_len sep) (used_entries htab)) + (if sep = NUL then sum_list (map (backslashes \<circ> snd) (sorted_vars htab)) else 0) =
    length (vars_text sep (sorted_vars htab))"
proof -
  let ?q = "qsort cmpkey (used_entries htab)"
  have "export_len sep ep + (if sep = NUL then backslashes (data_of ep) else 0) = length (export_entry sep ep)" if "ep \<in> set ?q" for ep
    using that used_entries_ok(3,4) [OF assms, of ep] length_escape_NUL [of "data_of ep"]
    by (auto simp: export_len_def export_entry_def length_escape)
  then have "map (\<lambda>ep. export_len sep ep + (if sep = NUL then backslashes (data_of ep) else 0)) ?q = map (length \<circ> export_entry sep) ?q"
    by (intro map_cong) (auto simp: comp_def)
  then have "sum_list (map (\<lambda>ep. export_len sep ep + (if sep = NUL then backslashes (data_of ep) else 0)) ?q) = length (concat (map (export_entry sep) ?q))"
    by (simp only: length_concat map_map)
  moreover have "sum_list (map (export_len sep) ?q) = sum_list (map (export_len sep) (used_entries htab))"
    by (metis mset_map qsort_mset sum_mset_sum_list)
  ultimately show ?thesis unfolding export_text [OF assms]
    by (auto simp: sorted_vars_def sum_list_addf comp_def)
qed

text \<open>The export of all variables.\<close>

lemma export_eq:
  fixes sep :: char
  assumes "env_ok H htab"
  defines "tot \<equiv> sum_list (map (export_len sep) (used_entries htab))" and "txt \<equiv> vars_text sep (sorted_vars htab) @ [NUL]"
  shows "hexport_r re_ok re htab sep 0 given sz [] =
    (if sz \<noteq> 0 \<and> sz < tot + 1 then (- 1, None, htab)
     else let n = if sz = 0 then tot + 1 else sz in (int n, Some (txt @ replicate (n - length txt) NUL), htab))"
proof -
  have ne: "\<not> (\<exists>ep \<in> set (used_entries htab). e_key ep = None \<or> e_data ep = None)"
    using used_entries_ok(1,2) [OF assms(1)] by force
  have all: "filter (exported re_ok re 0 []) (used_entries htab) = used_entries htab" by (simp add: exported_def)
  show ?thesis
    using table_okD(3) [OF env_okD(1) [OF assms(1)]] unfolding hexport_r_def if_not_P [OF ne]
    by (simp add: all Let_def export_text [OF assms(1)] try_malloc_def tot_def txt_def)
qed

lemma export_result:
  assumes "env_ok H htab" "hexport_r re_ok re htab sep 0 given sz [] = (n, Some buf, htab')"
  obtains j where "buf = vars_text sep (sorted_vars htab) @ NUL # replicate j NUL"
  using assms(2) by (auto simp: export_eq [OF assms(1)] Let_def split: if_splits)

lemma import_nothing:
  assumes "env_ok H htab" "env_map htab = Map.empty" "c0 pad = NUL"
  shows "himport_loop H flag sep 1 (NUL # pad) ([], htab) = Some (True, [], htab)"
proof -
  have "parse_item sep (NUL # pad) = (Delete_var [], pad)" by (simp add: parse_item_def isblank_def)
  moreover obtain res htab' where "hdelete_r H [] htab flag = Some (res, htab')" "htab' = htab"
    using hdelete_result [OF assms(1), of "[]" flag] assms(2) by auto
  ultimately show ?thesis using assms(3) by (subst himport_loop.simps) (simp add: apply_item_def drop_var_from_set_def)
qed

text \<open>Import into a new table.\<close>

lemma import_vars:
  assumes "ht_malloc htab = []" "\<not> ht_fault htab" "flag AND H_NOCLEAR = 0"
    and vars: "\<forall>(k, v) \<in> set kvs. name_ok sep k \<and> v \<noteq> [] \<and> enterable H flag None k v" and sep: "sep \<noteq> BACKSLASH" "sep \<noteq> CHR ''=''"
    and d: "distinct (map fst kvs)" and env: "env = vars_text sep kvs @ NUL # pad" and pad: "pad = replicate j NUL"
    and room: "length kvs \<le> min (CONFIG_ENV_MIN_ENTRIES + length env div 8) CONFIG_ENV_MAX_ENTRIES"
  shows "\<exists>htab'. himport_r H htab env sep flag False [] = Some (1, htab') \<and> env_ok H htab' \<and> env_map htab' = map_of kvs"
proof -
  let ?n = "min (CONFIG_ENV_MIN_ENTRIES + length env div 8) CONFIG_ENV_MAX_ENTRIES"
  define h0 where "h0 = (if ht_table htab \<noteq> None then hdestroy_r htab else htab)"
  have h0: "ht_table h0 = None" "ht_malloc h0 = []" "\<not> ht_fault h0" using assms(1,2) by (auto simp: h0_def hdestroy_r_def)
  obtain h1 where h1: "hcreate_r ?n h0 = (1, h1)" "env_ok H h1" "env_map h1 = Map.empty" "?n \<le> ht_size h1"
    by (rule hcreate_ok [OF h0, of ?n H]) simp_all
  have r: "length kvs \<le> EnvDict.room h1" using order_trans [OF room h1(4)] h1(3) by (simp add: EnvDict.room_def)
  have loop: "\<exists>h2. himport_loop H flag sep 1 (env @ [NUL]) ([], h1) = Some (True, [], h2) \<and> env_ok H h2 \<and> env_map h2 = map_of kvs"
  proof (cases "kvs = []")
    case True
    then show ?thesis using import_nothing [OF h1(2,3), of "pad @ [NUL]" flag sep] env pad h1(2,3) by (cases j) auto
  next
    case False
    have "\<forall>(k, v) \<in> set kvs. name_ok sep k \<and> v \<noteq> [] \<and> NUL \<notin> set v" using vars by (auto simp: enterable_def)
    from import_text [OF this sep False, of H flag "pad @ [NUL]" h1]
    have "himport_loop H flag sep 1 (env @ [NUL]) ([], h1) =
      map_option (\<lambda>h. (True, [], h)) (run_all (\<lambda>(k, v). enter_table H flag k v) kvs h1)" by (simp add: env)
    moreover have "\<forall>(k, v) \<in> set kvs. enterable H flag None k v" using vars by auto
    ultimately show ?thesis using env.enter_distinct [OF h1(2,3) _ r d, of flag] by auto
  qed
  then obtain h2 where "himport_loop H flag sep 1 (env @ [NUL]) ([], h1) = Some (True, [], h2)" "env_ok H h2" "env_map h2 = map_of kvs"
    by blast
  moreover have "himport_r H htab env sep flag False [] =
    (case himport_loop H flag sep 1 (env @ [NUL]) ([], h1) of None \<Rightarrow> None | Some (ok, vars, h) \<Rightarrow>
       if \<not> ok then Some (0, h) else map_option (\<lambda>h. (1, h)) (delete_left H flag vars h))"
    using assms(1,3) h1(1) h0(1) env by (auto simp: himport_r_def try_malloc_def Let_def h0_def split: if_splits option.split)
  ultimately show ?thesis by simp
qed

section \<open>Properties\<close>

text \<open>C19: The text form of the environment is read back.  Take any table in order whose variables have
  proper names and values that are not empty and that the checks accept, and export it with a NUL,
  a line feed or any other separator but backslash and equals sign.  If the export stays
  within its buffer and the variables are no more than a new table has room for, the import of
  the buffer into whatever table was there before succeeds, the new table is in order, and it has
  exactly the exported variables.  The entries of the text are in ascending order of their names.\<close>

theorem env_text_roundtrip:
  assumes "env_ok H htab"
    and "\<forall>k v. env_map htab k = Some v \<longrightarrow> name_ok sep k \<and> v \<noteq> [] \<and> enterable H flag None k v"
    and "sep \<noteq> BACKSLASH" "sep \<noteq> CHR ''=''"
    and "hexport_r re_ok re htab sep 0 given sz [] = (n, Some buf, htab1)" "length buf = nat n"
    and "card (dom (env_map htab)) \<le> min (CONFIG_ENV_MIN_ENTRIES + nat n div 8) CONFIG_ENV_MAX_ENTRIES"
    and "ht_malloc htab0 = []" "\<not> ht_fault htab0" "flag AND H_NOCLEAR = 0"
  shows "(\<exists>htab'. himport_r H htab0 buf sep flag False [] = Some (1, htab') \<and> env_ok H htab' \<and> env_map htab' = env_map htab) \<and>
    (\<exists>kvs pad. buf = vars_text sep kvs @ NUL # pad \<and> sorted_wrt (\<lambda>a b. strcmp (fst a) (fst b) \<le> 0) kvs)"
proof -
  note s = sorted_vars_ok [OF assms(1)]
  obtain j where buf: "buf = vars_text sep (sorted_vars htab) @ NUL # replicate j NUL"
    by (rule export_result [OF assms(1,5)])
  have kvs: "\<forall>(k, v) \<in> set (sorted_vars htab). name_ok sep k \<and> v \<noteq> [] \<and> enterable H flag None k v"
    using assms(2) map_of_eq_Some_iff [OF s(2)] s(3) by auto
  have "card (dom (env_map htab)) = length (sorted_vars htab)"
    using distinct_card [OF s(2)] by (simp add: s(3) [symmetric] dom_map_of_conv_image_fst)
  then have "length (sorted_vars htab) \<le> min (CONFIG_ENV_MIN_ENTRIES + length buf div 8) CONFIG_ENV_MAX_ENTRIES"
    using assms(6,7) by simp
  from import_vars [OF assms(8-10) kvs assms(3,4) s(2) buf refl this] s(3,4) buf show ?thesis by metis
qed

text \<open>C37: With a NUL as separator, as the environment is stored, the first pass leaves out the escape
  characters that the second pass writes.  A buffer of exactly the size the first pass asks for is
  accepted, and the second pass writes behind its end by as many characters as the values have
  backslashes.\<close>

theorem hexport_r_overruns:
  assumes "env_ok H htab" "sz = Suc (sum_list (map (export_len NUL) (used_entries htab)))"
  shows "\<exists>buf. hexport_r re_ok re htab NUL 0 True sz [] = (int sz, Some buf, htab) \<and>
    length buf = sz + sum_list (map (backslashes \<circ> snd) (sorted_vars htab))"
  using export_lengths [OF assms(1), of NUL] assms(2) by (simp add: export_eq [OF assms(1)] Let_def)

definition backslash_table :: hsearch_data where
  "backslash_table = the (enter_table no_hooks 0 ''path'' (''a'' @ [BACKSLASH] @ ''b'') (snd (hcreate_r 6 no_table)))"

lemma no_hooks_enterable: "NUL \<notin> set k \<Longrightarrow> NUL \<notin> set v \<Longrightarrow> enterable no_hooks flag old k v"
  by (simp add: enterable_def accepts_def no_hooks_def denied_def do_callback_def entry_for_def Let_def split: option.splits)

lemma backslash_table_ok: "env_ok no_hooks backslash_table \<and> env_map backslash_table = [''path'' \<mapsto> ''a'' @ [BACKSLASH] @ ''b'']"
  using env.enter_law [OF conjunct1 [OF new_table], of 0 "''path''" "''a'' @ [BACKSLASH] @ ''b''"] new_table
  by (auto simp: backslash_table_def no_hooks_enterable)

lemma map_of_single: "distinct (map fst xs) \<Longrightarrow> map_of xs = [k \<mapsto> v] \<Longrightarrow> xs = [(k, v)]"
proof -
  assume d: "distinct (map fst xs)" and m: "map_of xs = [k \<mapsto> v]"
  have "fst ` set xs = {k}" using dom_map_of_conv_image_fst [of xs] m by simp
  then have "length xs = 1" using distinct_card [OF d] by simp
  then obtain p where "xs = [p]" by (auto simp: length_Suc_conv)
  with fun_cong [OF m, of k] show ?thesis by (cases p) (auto split: if_splits)
qed

lemma backslash_vars: "sorted_vars backslash_table = [(''path'', ''a'' @ [BACKSLASH] @ ''b'')]"
  using sorted_vars_ok(2,3) [OF conjunct1 [OF backslash_table_ok]] backslash_table_ok by (intro map_of_single) simp_all

theorem hexport_r_overruns_witness:
  "\<exists>buf. hexport_r (\<lambda>_. True) (\<lambda>_ _. False) backslash_table NUL 0 True 10 [] = (10, Some buf, backslash_table) \<and> length buf = 11"
proof -
  have "sum_list (map (export_len NUL) (used_entries backslash_table)) = 9"
    using export_lengths [OF conjunct1 [OF backslash_table_ok], of NUL] by (simp add: backslash_vars backslashes_def)
  moreover have "sum_list (map (backslashes \<circ> snd) (sorted_vars backslash_table)) = 1" by (simp add: backslash_vars backslashes_def)
  ultimately show ?thesis
    using hexport_r_overruns [OF conjunct1 [OF backslash_table_ok], of 10 "\<lambda>_. True" "\<lambda>_ _. False"] by simp
qed

theorem env_text_roundtrip_witness:
  "\<exists>htab'. himport_r no_hooks no_table (''path=a'' @ [BACKSLASH, BACKSLASH] @ ''b'' @ replicate 3 NUL) NUL H_EXTERNAL False [] = Some (1, htab') \<and>
     env_map htab' = [''path'' \<mapsto> ''a'' @ [BACKSLASH] @ ''b'']"
proof -
  note t = conjunct1 [OF backslash_table_ok] conjunct2 [OF backslash_table_ok]
  let ?x = "hexport_r (\<lambda>_. True) (\<lambda>_ _. False) backslash_table NUL 0 True 12 []"
    and ?buf = "''path=a'' @ [BACKSLASH, BACKSLASH] @ ''b'' @ replicate 3 NUL"
  have "\<forall>k v. env_map backslash_table k = Some v \<longrightarrow> name_ok NUL k \<and> v \<noteq> [] \<and> enterable no_hooks H_EXTERNAL None k v"
    using no_hooks_enterable [of "''path''" "''a'' @ [BACKSLASH] @ ''b''" H_EXTERNAL None]
    by (auto simp: t(2) name_ok_def isblank_def split: if_splits)
  moreover have "?x = (12, Some ?buf, backslash_table)"
    using export_lengths [OF t(1), of NUL] by (simp add: export_eq [OF t(1)] backslash_vars backslashes_def numeral_nat)
  ultimately show ?thesis
    using env_text_roundtrip [OF t(1), of NUL H_EXTERNAL "\<lambda>_. True" "\<lambda>_ _. False" True 12 12 ?buf backslash_table no_table]
    by (simp add: t(2) no_table_def) blast
qed

text \<open>Taking the carriage returns out of a text moves it forward in its buffer but leaves the end of
  the old text behind it: a last line without a line feed gets a copy of its end.\<close>

lemma crlf_import_repeats_tail:
  "map_option (\<lambda>(res, h). (res, entries h)) (himport_r no_hooks no_table (''a=1'' @ [CHR 0x0d, CHR 0x0a] @ ''b=2'') CHR 0x0a 0 True []) =
     Some (1, [(''a'', ''1''), (''b'', ''22'')])"
  by code_simp

end
