(* ===== verification/EnvFlags.thy ===== *)
theory EnvFlags
  imports EnvText
begin

text \<open>
  The types and access rights of variables: env/attr.c and env/flags.c, the permission check of
  the environment.  The list of the build is \<open>ENV_FLAGS_LIST_STATIC\<close> of include/env_flags.h (with
  CONFIG_NET and CONFIG_REGEX, without CONFIG_IPV6 and CONFIG_ENV_OVERWRITE).  Regular expressions
  are the parameters \<open>re_ok\<close> and \<open>re\<close>, allocations succeed, and messages are left out.
\<close>

unbundle bit_operations_syntax

section \<open>Attribute lists\<close>

definition isspace :: "char \<Rightarrow> bool" where
  "isspace c = (let n = of_char c :: nat in 9 \<le> n \<and> n \<le> 13 \<or> n = 32 \<or> n = 160)"

definition isdigit :: "char \<Rightarrow> bool" where
  "isdigit c = (let n = of_char c :: nat in 48 \<le> n \<and> n \<le> 57)"

definition skip_spaces :: "string \<Rightarrow> string" where
  "skip_spaces s = dropWhile isspace s"

definition strim :: "string \<Rightarrow> string" where
  "strim s = skip_spaces (rev (dropWhile isspace (rev (cstr s))))"

type_synonym 'p attr_callback = "string \<Rightarrow> string option \<Rightarrow> 'p \<Rightarrow> int \<times> 'p"

text \<open>One entry of the list, and the loop.\<close>

definition attr_entry :: "'p attr_callback \<Rightarrow> string \<Rightarrow> 'p \<Rightarrow> int \<times> 'p" where
  "attr_entry callback cpy priv =
     (let attributes = map_option (\<lambda>a. strim (tl a)) (strchr cpy CHR '':'');
          name = strim (takeWhile (\<lambda>c. c \<noteq> CHR '':'') cpy)
      in if strlen name \<noteq> 0 then callback name attributes priv else (0, priv))"

lemma strchr_shorter: "strchr s c = Some t \<Longrightarrow> c \<noteq> NUL \<Longrightarrow> length (tl t) < length s"
  by (induction s c rule: strchr.induct) (auto split: if_splits)

function attr_walk :: "string \<Rightarrow> 'p attr_callback \<Rightarrow> 'p \<Rightarrow> int \<times> 'p" where
  "attr_walk list_entry callback priv =
     (let cpy = takeWhile (\<lambda>c. c \<noteq> CHR '','') (cstr list_entry);
          (retval, priv) = (if cpy = [] then (0, priv) else attr_entry callback cpy priv)
      in if retval \<noteq> 0 then (retval, priv)
         else case strchr list_entry CHR '','' of
           None \<Rightarrow> (0, priv)
         | Some entry_end \<Rightarrow> attr_walk (tl entry_end) callback priv)"
  by pat_completeness auto
termination
  by (relation "measure (\<lambda>(s, _, _). length s)") (auto dest: strchr_shorter)

declare attr_walk.simps [simp del]

definition env_attr_walk :: "string option \<Rightarrow> 'p attr_callback \<Rightarrow> 'p \<Rightarrow> int \<times> 'p" where
  "env_attr_walk attr_list callback priv = (case attr_list of None \<Rightarrow> (1, priv) | Some l \<Rightarrow> attr_walk l callback priv)"

text \<open>The attributes of the last entry whose pattern matches.\<close>

definition regex_callback :: "(string \<Rightarrow> bool) \<Rightarrow> (string \<Rightarrow> string \<Rightarrow> bool) \<Rightarrow> string \<Rightarrow> string option attr_callback" where
  "regex_callback re_ok re searched_for name attributes found =
     (let regex = ''^'' @ name @ ''$''
      in if re_ok regex
         then if re regex searched_for
              then (case attributes of None \<Rightarrow> (- EINVAL, found) | Some a \<Rightarrow> (0, Some a))
              else (0, found)
         else (- EINVAL, found))"

definition env_attr_lookup ::
    "(string \<Rightarrow> bool) \<Rightarrow> (string \<Rightarrow> string \<Rightarrow> bool) \<Rightarrow> string option \<Rightarrow> string \<Rightarrow> int \<times> string option" where
  "env_attr_lookup re_ok re attr_list name =
     (case attr_list of
        None \<Rightarrow> (- EINVAL, None)
      | Some _ \<Rightarrow>
          let (retval, found) = env_attr_walk attr_list (regex_callback re_ok re name) None
          in if retval \<noteq> 0 then (retval, None)
             else case found of None \<Rightarrow> (- ENOENT, None) | Some a \<Rightarrow> (0, Some a))"

section \<open>Types and access rights\<close>

datatype env_flags_vartype =
  env_flags_vartype_string | env_flags_vartype_decimal | env_flags_vartype_hex | env_flags_vartype_bool |
  env_flags_vartype_ipaddr | env_flags_vartype_macaddr | env_flags_vartype_end

datatype env_flags_varaccess =
  env_flags_varaccess_any | env_flags_varaccess_readonly | env_flags_varaccess_writeonce | env_flags_varaccess_changedefault

abbreviation ENV_FLAGS_VARTYPE_BIN_MASK :: u32 where "ENV_FLAGS_VARTYPE_BIN_MASK \<equiv> 0x07"
abbreviation ENV_FLAGS_VARACCESS_PREVENT_DELETE :: u32 where "ENV_FLAGS_VARACCESS_PREVENT_DELETE \<equiv> 0x08"
abbreviation ENV_FLAGS_VARACCESS_PREVENT_CREATE :: u32 where "ENV_FLAGS_VARACCESS_PREVENT_CREATE \<equiv> 0x10"
abbreviation ENV_FLAGS_VARACCESS_PREVENT_OVERWR :: u32 where "ENV_FLAGS_VARACCESS_PREVENT_OVERWR \<equiv> 0x20"
abbreviation ENV_FLAGS_VARACCESS_PREVENT_NONDEF_OVERWR :: u32 where "ENV_FLAGS_VARACCESS_PREVENT_NONDEF_OVERWR \<equiv> 0x40"
abbreviation ENV_FLAGS_VARACCESS_BIN_MASK :: u32 where "ENV_FLAGS_VARACCESS_BIN_MASK \<equiv> 0xf8"

definition vartypes :: "(char \<times> env_flags_vartype) list" where
  "vartypes = zip ''sdxbim'' [env_flags_vartype_string, env_flags_vartype_decimal, env_flags_vartype_hex,
     env_flags_vartype_bool, env_flags_vartype_ipaddr, env_flags_vartype_macaddr]"

definition varaccesses :: "(char \<times> env_flags_varaccess) list" where
  "varaccesses = zip ''aroc'' [env_flags_varaccess_any, env_flags_varaccess_readonly, env_flags_varaccess_writeonce,
     env_flags_varaccess_changedefault]"

text \<open>The number of a type in its enumeration, and back; a number without a type is no case of the \<open>switch\<close>.\<close>

fun vartype_bin :: "env_flags_vartype \<Rightarrow> u32" where
  "vartype_bin env_flags_vartype_string = 0"
| "vartype_bin env_flags_vartype_decimal = 1"
| "vartype_bin env_flags_vartype_hex = 2"
| "vartype_bin env_flags_vartype_bool = 3"
| "vartype_bin env_flags_vartype_ipaddr = 4"
| "vartype_bin env_flags_vartype_macaddr = 5"
| "vartype_bin env_flags_vartype_end = 6"

definition vartype_of :: "u32 \<Rightarrow> env_flags_vartype option" where
  "vartype_of b = find (\<lambda>t. vartype_bin t = b)
     [env_flags_vartype_string, env_flags_vartype_decimal, env_flags_vartype_hex, env_flags_vartype_bool,
      env_flags_vartype_ipaddr, env_flags_vartype_macaddr, env_flags_vartype_end]"

fun env_flags_varaccess_mask :: "env_flags_varaccess \<Rightarrow> u32" where
  "env_flags_varaccess_mask env_flags_varaccess_any = 0"
| "env_flags_varaccess_mask env_flags_varaccess_readonly =
     ENV_FLAGS_VARACCESS_PREVENT_DELETE OR ENV_FLAGS_VARACCESS_PREVENT_CREATE OR ENV_FLAGS_VARACCESS_PREVENT_OVERWR"
| "env_flags_varaccess_mask env_flags_varaccess_writeonce =
     ENV_FLAGS_VARACCESS_PREVENT_DELETE OR ENV_FLAGS_VARACCESS_PREVENT_OVERWR"
| "env_flags_varaccess_mask env_flags_varaccess_changedefault =
     ENV_FLAGS_VARACCESS_PREVENT_DELETE OR ENV_FLAGS_VARACCESS_PREVENT_NONDEF_OVERWR"

definition env_flags_parse_vartype :: "string \<Rightarrow> env_flags_vartype" where
  "env_flags_parse_vartype flags =
     (if strlen flags \<le> 0 then env_flags_vartype_string
      else case map_of vartypes (flags ! 0) of None \<Rightarrow> env_flags_vartype_string | Some t \<Rightarrow> t)"

definition env_flags_parse_varaccess :: "string \<Rightarrow> env_flags_varaccess" where
  "env_flags_parse_varaccess flags =
     (if strlen flags \<le> 1 then env_flags_varaccess_any
      else case map_of varaccesses (flags ! 1) of None \<Rightarrow> env_flags_varaccess_any | Some a \<Rightarrow> a)"

definition env_flags_parse_varaccess_from_binflags :: "u32 \<Rightarrow> env_flags_varaccess" where
  "env_flags_parse_varaccess_from_binflags binflags =
     (case find (\<lambda>va. env_flags_varaccess_mask va = binflags AND ENV_FLAGS_VARACCESS_BIN_MASK)
        [env_flags_varaccess_any, env_flags_varaccess_readonly, env_flags_varaccess_writeonce, env_flags_varaccess_changedefault] of
        None \<Rightarrow> env_flags_varaccess_any
      | Some va \<Rightarrow> va)"

definition env_parse_flags_to_bin :: "string \<Rightarrow> u32" where
  "env_parse_flags_to_bin flags =
     (vartype_bin (env_flags_parse_vartype flags) AND ENV_FLAGS_VARTYPE_BIN_MASK) OR
     env_flags_varaccess_mask (env_flags_parse_varaccess flags)"

section \<open>Checking a value\<close>

definition is_hex_prefix :: "string \<Rightarrow> bool" where
  "is_hex_prefix value \<longleftrightarrow> c0 value = CHR ''0'' \<and> (c0 (tl value) = CHR ''x'' \<or> c0 (tl value) = CHR ''X'')"

text \<open>The loop over at most \<open>max_digits\<close> digits, or over all for \<open>None\<close>.\<close>

fun skip_digits :: "bool \<Rightarrow> nat option \<Rightarrow> string \<Rightarrow> string" where
  "skip_digits hex m [] = []"
| "skip_digits hex m (c # s) =
     (if m = Some 0 then c # s
      else if hex \<and> \<not> isxdigit c then c # s
      else if \<not> hex \<and> \<not> isdigit c then c # s
      else skip_digits hex (map_option (\<lambda>n. n - 1) m) s)"

definition skip_num :: "bool \<Rightarrow> string \<Rightarrow> nat option \<Rightarrow> string" where
  "skip_num hex value m = skip_digits hex m (if hex \<and> is_hex_prefix value then drop 2 value else value)"

text \<open>Positions in the same string are compared by what is left behind them.\<close>

fun ethaddr_parts :: "nat \<Rightarrow> string \<Rightarrow> int" where
  "ethaddr_parts 0 cur = 0"
| "ethaddr_parts (Suc i) cur =
     (let fin = skip_num True cur (Some 2)
      in if length cur = length fin then - 1
         else if length cur = length fin + 2 \<and> is_hex_prefix cur then - 1
         else if i \<noteq> 0 \<and> c0 fin \<noteq> CHR '':'' then - 1
         else if i = 0 \<and> c0 fin \<noteq> NUL then - 1
         else ethaddr_parts i (tl fin))"

definition eth_validate_ethaddr_str :: "string \<Rightarrow> int" where
  "eth_validate_ethaddr_str addr = ethaddr_parts 6 addr"

fun ipaddr_parts :: "nat \<Rightarrow> string \<Rightarrow> int" where
  "ipaddr_parts 0 cur = 0"
| "ipaddr_parts (Suc i) cur =
     (let fin = skip_num False cur (Some 3)
      in if length cur = length fin then - 1
         else if i \<noteq> 0 \<and> c0 fin \<noteq> CHR ''.'' then - 1
         else if i = 0 \<and> c0 fin \<noteq> NUL then - 1
         else ipaddr_parts i (tl fin))"

definition validate_type :: "string \<Rightarrow> env_flags_vartype \<Rightarrow> int" where
  "validate_type value t =
     (case t of
        env_flags_vartype_string \<Rightarrow> 0
      | env_flags_vartype_decimal \<Rightarrow> if c0 (skip_num False value None) \<noteq> NUL then - 1 else 0
      | env_flags_vartype_hex \<Rightarrow>
          (let fin = skip_num True value None
           in if c0 fin \<noteq> NUL then - 1
              else if length value = length fin + 2 \<and> is_hex_prefix value then - 1 else 0)
      | env_flags_vartype_bool \<Rightarrow>
          if c0 value \<notin> set ''1ytYT0nfNF'' then - 1 else if c0 (tl value) \<noteq> NUL then - 1 else 0
      | env_flags_vartype_ipaddr \<Rightarrow> ipaddr_parts 4 value
      | env_flags_vartype_macaddr \<Rightarrow> if eth_validate_ethaddr_str value \<noteq> 0 then - 1 else 0
      | env_flags_vartype_end \<Rightarrow> - 1)"

text \<open>\<open>defval\<close> is \<open>env_get_default\<close> of env/common.c.\<close>

definition env_flags_validate :: "(string \<Rightarrow> string option) \<Rightarrow> env_entry \<Rightarrow> string option \<Rightarrow> env_op \<Rightarrow> u32 \<Rightarrow> int" where
  "env_flags_validate defval item newval op flag =
     (let newval = (case newval of None \<Rightarrow> [] | Some v \<Rightarrow> v);
          fl = e_flags item
      in if op \<noteq> env_op_delete \<and>
            (case vartype_of (ENV_FLAGS_VARTYPE_BIN_MASK AND fl) of None \<Rightarrow> False | Some t \<Rightarrow> validate_type newval t < 0)
         then - 1
         else if flag AND H_FORCE \<noteq> 0 then 0
         else case op of
           env_op_delete \<Rightarrow> if fl AND ENV_FLAGS_VARACCESS_PREVENT_DELETE \<noteq> 0 then 1 else 0
         | env_op_overwrite \<Rightarrow>
             if fl AND ENV_FLAGS_VARACCESS_PREVENT_OVERWR \<noteq> 0 then 1
             else if fl AND ENV_FLAGS_VARACCESS_PREVENT_NONDEF_OVERWR \<noteq> 0 \<and>
                     strcmp (data_of item) (case defval (key_of item) of None \<Rightarrow> [] | Some d \<Rightarrow> d) \<noteq> 0 then 1
             else 0
         | env_op_create \<Rightarrow> if fl AND ENV_FLAGS_VARACCESS_PREVENT_CREATE \<noteq> 0 then 1 else 0)"

section \<open>The flags of a variable\<close>

definition ENV_FLAGS_LIST_STATIC :: string where
  "ENV_FLAGS_LIST_STATIC =
     ''eth'' @ [BACKSLASH] @ ''d*addr:mo,'' @
     ''ipaddr:i,gatewayip:i,netmask:i,serverip:i,nvlan:d,vlan:d,dnsip:i,'' @ ''serial#:so,''"

definition env_flags_lookup ::
    "(string \<Rightarrow> bool) \<Rightarrow> (string \<Rightarrow> string \<Rightarrow> bool) \<Rightarrow> string option \<Rightarrow> string \<Rightarrow> int \<times> string option" where
  "env_flags_lookup re_ok re flags_list name =
     (let r = (case flags_list of None \<Rightarrow> (1, None) | Some _ \<Rightarrow> env_attr_lookup re_ok re flags_list name)
      in if fst r \<noteq> 0 then env_attr_lookup re_ok re (Some ENV_FLAGS_LIST_STATIC) name else r)"

definition env_flags_init :: "(string \<Rightarrow> bool) \<Rightarrow> (string \<Rightarrow> string \<Rightarrow> bool) \<Rightarrow> string option \<Rightarrow> string \<Rightarrow> u32 option" where
  "env_flags_init re_ok re flags_list name =
     (case env_flags_lookup re_ok re flags_list name of
        (ret, Some flags) \<Rightarrow> if ret = 0 \<and> strlen flags \<noteq> 0 then Some (env_parse_flags_to_bin flags) else None
      | (ret, None) \<Rightarrow> None)"

text \<open>A change of the variable \<open>.flags\<close>: all flags are cleared, then both lists are applied.\<close>

definition clear_flags :: "env_entry \<Rightarrow> int \<times> env_entry" where
  "clear_flags e = (0, e\<lparr>e_flags := 0\<rparr>)"

definition set_flags :: "env_hooks \<Rightarrow> hsearch_data option attr_callback" where
  "set_flags H name value st =
     (case Option.bind st (\<lambda>htab. hsearch_r H name None ENV_FIND htab 0) of
        None \<Rightarrow> (0, None)
      | Some (_, None, htab) \<Rightarrow> (0, Some htab)
      | Some (_, Some i, htab) \<Rightarrow>
          let fl = (case value of None \<Rightarrow> 0 | Some v \<Rightarrow> if strlen v = 0 then 0 else env_parse_flags_to_bin v)
          in (0, Some (set_node htab i ((nodes htab ! i)\<lparr>n_entry := (entry htab i)\<lparr>e_flags := fl\<rparr>\<rparr>))))"

definition on_flags :: "env_hooks \<Rightarrow> string option \<Rightarrow> hsearch_data \<Rightarrow> int \<times> hsearch_data option" where
  "on_flags H value htab =
     (let htab = snd (hwalk_r htab clear_flags);
          st = snd (env_attr_walk (Some ENV_FLAGS_LIST_STATIC) (set_flags H) (Some htab));
          st = snd (env_attr_walk value (set_flags H) st)
      in (0, st))"

end
