(* ===== verification/EnvStore.thy ===== *)
theory EnvStore
  imports EnvFlags SpiNorLive Crc32
begin

text \<open>
  The environment: env/common.c, env/sf.c (one copy, CONFIG_ENV_OFFSET_REDUND is off) and the
  dispatch of env/env.c, where the SPI flash is the only driver.  Functions that have the name of a
  field of the console's platform carry the suffix \<open>_r\<close>.  The variables of the global data are the
  record \<open>env_state\<close>.  \<open>defaults\<close> is the generated \<open>default_environment\<close>; \<open>probed\<close> is what
  \<open>spi_flash_probe_bus_cs\<close> returns.  A result \<open>None\<close> would be a search that does not end.
\<close>

unbundle bit_operations_syntax

abbreviation CONFIG_ENV_SIZE :: nat where "CONFIG_ENV_SIZE \<equiv> 4096"
abbreviation CONFIG_ENV_OFFSET :: u32 where "CONFIG_ENV_OFFSET \<equiv> 0x30000"
abbreviation CONFIG_ENV_SECT_SIZE :: u32 where "CONFIG_ENV_SECT_SIZE \<equiv> 0x10000"
abbreviation ENV_SIZE :: nat where "ENV_SIZE \<equiv> 4092"
abbreviation ENOMSG :: int where "ENOMSG \<equiv> 42"

datatype env_valid = ENV_INVALID | ENV_VALID | ENV_REDUND

record env_state =
  es_htab :: hsearch_data
  es_ready :: bool
  es_default :: bool
  es_valid :: env_valid
  es_inited :: bool
  es_id :: int

section \<open>Setting and reading variables\<close>

text \<open>The options of \<open>env_do_env_set\<close>; \<open>None\<close> is the usage error.\<close>

fun set_options :: "string list \<Rightarrow> u32 \<Rightarrow> (string list \<times> u32) option" where
  "set_options [] env_flag = Some ([], env_flag)"
| "set_options (arg # args) env_flag =
     (if c0 arg = CHR ''-''
      then if list_all (\<lambda>c. c = CHR ''f'') (cstr (tl arg))
           then set_options args (if cstr (tl arg) = [] then env_flag else env_flag OR H_FORCE)
           else None
      else Some (arg # args, env_flag))"

text \<open>The values, joined by blanks.\<close>

fun join_args :: "string list \<Rightarrow> string" where
  "join_args [] = []"
| "join_args [v] = cstr v"
| "join_args (v # vs) = cstr v @ CHR '' '' # join_args vs"

definition env_do_env_set :: "env_hooks \<Rightarrow> string list \<Rightarrow> u32 \<Rightarrow> env_state \<Rightarrow> (int \<times> env_state) option" where
  "env_do_env_set H args env_flag st =
     (case set_options args env_flag of
        None \<Rightarrow> Some (- 1, st)
      | Some ([], _) \<Rightarrow> Some (0, st)
      | Some (name # vals, env_flag) \<Rightarrow>
          if strchr name CHR ''='' \<noteq> None then Some (1, st)
          else let st = st\<lparr>es_id := es_id st + 1\<rparr>
               in if vals = []
                  then map_option (\<lambda>(rc, h). (if rc \<noteq> 0 \<and> rc \<noteq> - ENOENT then 1 else 0, st\<lparr>es_htab := h\<rparr>))
                         (hdelete_r H name (es_htab st) env_flag)
                  else let (ok, h) = try_malloc (es_htab st)
                       in if \<not> ok then Some (1, st\<lparr>es_htab := h\<rparr>)
                          else map_option (\<lambda>(_, ep, h). (if ep = None then 1 else 0, st\<lparr>es_htab := h\<rparr>))
                                 (hsearch_r H name (Some (join_args vals)) ENV_ENTER h env_flag))"

definition env_set_r :: "env_hooks \<Rightarrow> string \<Rightarrow> string option \<Rightarrow> env_state \<Rightarrow> (int \<times> env_state) option" where
  "env_set_r H varname varvalue st =
     (if \<not> es_ready st then Some (1, st)
      else case varvalue of
        None \<Rightarrow> env_do_env_set H [varname] H_PROGRAMMATIC st
      | Some v \<Rightarrow> if c0 v = NUL then env_do_env_set H [varname] H_PROGRAMMATIC st
                  else env_do_env_set H [varname, v] H_PROGRAMMATIC st)"

text \<open>The search in a text of entries, before the hash table exists; the length of the value, and as
  much of it as the buffer of \<open>len\<close> bytes takes.\<close>

function linear_scan :: "string \<Rightarrow> nat \<Rightarrow> string \<Rightarrow> nat \<Rightarrow> (nat \<times> string) option" where
  "linear_scan p pos name len =
     (if c0 p = NUL then None
      else let e = takeWhile (\<lambda>c. c \<noteq> NUL) p; n = strlen name
           in if CONFIG_ENV_SIZE < pos + length e then None
              else if strncmp name p n \<noteq> 0 \<or> c0 (drop n p) \<noteq> CHR ''=''
              then linear_scan (drop (length e + 1) p) (pos + length e + 1) name len
              else let value = drop (n + 1) e; res = length value
                   in Some (res, if len \<le> res then take (len - 1) value else value))"
  by pat_completeness auto
termination
proof (relation "measure (\<lambda>(p, _). length p)", goal_cases)
  case (2 p pos name len e n)
  then show ?case by (cases p) auto
qed simp

declare linear_scan.simps [simp del]

definition env_get_from_linear :: "string \<Rightarrow> string \<Rightarrow> nat \<Rightarrow> (nat \<times> string) option" where
  "env_get_from_linear env name len = (if c0 name = NUL then None else linear_scan env 0 name len)"

abbreviation env_buf_size :: nat where "env_buf_size \<equiv> 32"

definition env_get_default :: "string \<Rightarrow> string \<Rightarrow> string option" where
  "env_get_default defaults name = map_option snd (env_get_from_linear defaults name env_buf_size)"

text \<open>\<open>env_init\<close> leaves \<open>env_addr\<close> at the default environment, so both branches of \<open>env_get_f\<close> read it.\<close>

definition env_get_f :: "string \<Rightarrow> string \<Rightarrow> nat \<Rightarrow> (nat \<times> string) option" where
  "env_get_f defaults name len = env_get_from_linear defaults name len"

definition env_get_r :: "env_hooks \<Rightarrow> string \<Rightarrow> string \<Rightarrow> env_state \<Rightarrow> string option option" where
  "env_get_r H defaults name st =
     (if es_ready st
      then map_option (\<lambda>(_, ep, h). Option.bind ep (\<lambda>i. e_data (entry h i))) (hsearch_r H name None ENV_FIND (es_htab st) 0)
      else Some (map_option snd (env_get_f defaults name env_buf_size)))"

definition env_get_ulong :: "env_hooks \<Rightarrow> string \<Rightarrow> string \<Rightarrow> nat \<Rightarrow> ulong \<Rightarrow> env_state \<Rightarrow> ulong option" where
  "env_get_ulong H defaults name base default_val st =
     map_option (\<lambda>str. case str of None \<Rightarrow> default_val | Some s \<Rightarrow> fst (simple_strtoul s base)) (env_get_r H defaults name st)"

definition env_get_yesno :: "env_hooks \<Rightarrow> string \<Rightarrow> string \<Rightarrow> env_state \<Rightarrow> int option" where
  "env_get_yesno H defaults var st =
     map_option (\<lambda>s. case s of None \<Rightarrow> - 1 | Some s \<Rightarrow> if c0 s \<in> set ''1yYtT'' then 1 else 0) (env_get_r H defaults var st)"

section \<open>Default environment, import and export\<close>

definition env_set_default_r :: "env_hooks \<Rightarrow> string \<Rightarrow> u32 \<Rightarrow> env_state \<Rightarrow> env_state option" where
  "env_set_default_r H defaults flags st =
     map_option (\<lambda>(res, h). if res = 0 then st\<lparr>es_htab := h\<rparr> else st\<lparr>es_htab := h, es_ready := True, es_default := True\<rparr>)
       (himport_r H (es_htab st) defaults NUL (flags OR H_DEFAULT) False [])"

definition env_set_default_vars :: "env_hooks \<Rightarrow> string \<Rightarrow> string list \<Rightarrow> u32 \<Rightarrow> env_state \<Rightarrow> (int \<times> env_state) option" where
  "env_set_default_vars H defaults vars flags st =
     (let flags = (if vars = [] then flags OR H_NOCLEAR else flags) OR H_DEFAULT
      in map_option (\<lambda>(res, h). (res, st\<lparr>es_htab := h\<rparr>)) (himport_r H (es_htab st) defaults NUL flags False vars))"

text \<open>The image in the flash: the checksum, then the text.\<close>

definition le_bytes :: "u32 \<Rightarrow> byte list" where
  "le_bytes w = [ucast w, ucast (drop_bit 8 w), ucast (drop_bit 16 w), ucast (drop_bit 24 w)]"

definition env_crc :: "byte list \<Rightarrow> u32" where
  "env_crc dat = crc32 4 0 dat"

definition env_import :: "env_hooks \<Rightarrow> string \<Rightarrow> byte list \<Rightarrow> bool \<Rightarrow> u32 \<Rightarrow> env_state \<Rightarrow> (int \<times> env_state) option" where
  "env_import H defaults buf check flags st =
     (let crc = le_word (buf ! 0) (buf ! 1) (buf ! 2) (buf ! 3); dat = take ENV_SIZE (drop 4 buf)
      in if check \<and> env_crc dat \<noteq> crc
         then map_option (\<lambda>st. (- ENOMSG, st)) (env_set_default_r H defaults 0 st)
         else case himport_r H (es_htab st) (map char_of_byte dat) NUL flags False [] of
           None \<Rightarrow> None
         | Some (res, h) \<Rightarrow>
             if res \<noteq> 0 then Some (0, st\<lparr>es_htab := h, es_ready := True\<rparr>)
             else map_option (\<lambda>st. (- EIO, st)) (env_set_default_r H defaults 0 (st\<lparr>es_htab := h\<rparr>)))"

text \<open>An export that is longer than its buffer overwrites the stack: a fault.\<close>

definition env_export :: "env_state \<Rightarrow> int \<times> byte list \<times> env_state" where
  "env_export st =
     (case hexport_r (\<lambda>_. True) (\<lambda>_ _. False) (es_htab st) NUL 0 True ENV_SIZE [] of
        (len, None, h) \<Rightarrow> (1, [], st\<lparr>es_htab := h\<rparr>)
      | (len, Some res, h) \<Rightarrow>
          let h = (if ENV_SIZE < length res then h\<lparr>ht_fault := True\<rparr> else h); dat = take ENV_SIZE (bytes_of res)
          in (0, le_bytes (env_crc dat) @ dat, st\<lparr>es_htab := h\<rparr>))"

section \<open>The copy in the SPI flash\<close>

definition setup_flash_device :: "env_hooks \<Rightarrow> string \<Rightarrow> int \<Rightarrow> env_state \<Rightarrow> (int \<times> env_state) option" where
  "setup_flash_device H defaults probed st =
     (if probed \<noteq> 0 then map_option (\<lambda>st. (probed, st)) (env_set_default_r H defaults 0 st) else Some (0, st))"

text \<open>From the erase on.\<close>

definition sf_store :: "'c dm_spi_flash_ops \<Rightarrow> byte list \<Rightarrow> u32 \<Rightarrow> byte list \<Rightarrow> 'c \<Rightarrow> int \<times> 'c" where
  "sf_store ops env_new saved_offset saved c =
     (let sector = (of_nat CONFIG_ENV_SIZE + CONFIG_ENV_SECT_SIZE - 1) div CONFIG_ENV_SECT_SIZE;
          (ret, c) = sf_erase ops c CONFIG_ENV_OFFSET (sector * CONFIG_ENV_SECT_SIZE)
      in if ret \<noteq> 0 then (ret, c)
         else let (ret, c) = sf_write ops c CONFIG_ENV_OFFSET env_new
              in if ret \<noteq> 0 then (ret, c)
                 else sf_write ops c saved_offset saved)"

definition env_sf_save ::
    "env_hooks \<Rightarrow> 'c dm_spi_flash_ops \<Rightarrow> string \<Rightarrow> int \<Rightarrow> env_state \<Rightarrow> 'c \<Rightarrow> (int \<times> env_state \<times> 'c) option" where
  "env_sf_save H ops defaults probed st c =
     (case setup_flash_device H defaults probed st of
        None \<Rightarrow> None
      | Some (ret, st) \<Rightarrow> Some
          (if ret \<noteq> 0 then (ret, st, c)
           else let saved_size = CONFIG_ENV_SECT_SIZE - of_nat CONFIG_ENV_SIZE;
                    saved_offset = CONFIG_ENV_OFFSET + of_nat CONFIG_ENV_SIZE;
                    (ok, h) = try_malloc (es_htab st); st = st\<lparr>es_htab := h\<rparr>
                in if \<not> ok then (- ENOMEM, st, c)
                   else let (ret, saved, c) = sf_read ops c saved_offset saved_size
                        in if ret \<noteq> 0 then (ret, st, c)
                           else let (ret, env_new, st) = env_export st
                                in if ret \<noteq> 0 then (ret, st, c)
                                   else let (ret, c) = sf_store ops env_new saved_offset saved c in (ret, st, c)))"

definition env_sf_load ::
    "env_hooks \<Rightarrow> 'c dm_spi_flash_ops \<Rightarrow> string \<Rightarrow> int \<Rightarrow> env_state \<Rightarrow> 'c \<Rightarrow> (int \<times> env_state \<times> 'c) option" where
  "env_sf_load H ops defaults probed st c =
     (let (ok, h) = try_malloc (es_htab st); st = st\<lparr>es_htab := h\<rparr>
      in if \<not> ok then map_option (\<lambda>st. (- EIO, st, c)) (env_set_default_r H defaults 0 st)
         else case setup_flash_device H defaults probed st of
           None \<Rightarrow> None
         | Some (ret, st) \<Rightarrow>
             if ret \<noteq> 0 then Some (ret, st, c)
             else let (ret, buf, c) = sf_read ops c CONFIG_ENV_OFFSET (of_nat CONFIG_ENV_SIZE)
                  in if ret \<noteq> 0 then map_option (\<lambda>st. (ret, st, c)) (env_set_default_r H defaults 0 st)
                     else map_option (\<lambda>(ret, st). (ret, if ret = 0 then st\<lparr>es_valid := ENV_VALID\<rparr> else st, c))
                            (env_import H defaults buf True H_EXTERNAL st))"

definition env_sf_erase ::
    "env_hooks \<Rightarrow> 'c dm_spi_flash_ops \<Rightarrow> string \<Rightarrow> int \<Rightarrow> env_state \<Rightarrow> 'c \<Rightarrow> (int \<times> env_state \<times> 'c) option" where
  "env_sf_erase H ops defaults probed st c =
     map_option (\<lambda>(ret, st). if ret \<noteq> 0 then (ret, st, c)
         else let (ret, c) = sf_write ops c CONFIG_ENV_OFFSET (replicate CONFIG_ENV_SIZE 0) in (ret, st, c))
       (setup_flash_device H defaults probed st)"

section \<open>The operations of env/env.c\<close>

text \<open>CONFIG_ENV_ADDR is 0, so \<open>env_sf_init\<close> answers \<open>-ENOENT\<close> and the location counts as initialised.\<close>

definition env_sf_init :: int where
  "env_sf_init = - ENOENT"

definition env_init :: "env_state \<Rightarrow> int \<times> env_state" where
  "env_init st =
     (let ret = env_sf_init;
          st = (if ret = 0 \<or> ret = - ENOENT then st\<lparr>es_inited := True\<rparr> else st);
          ret = (if es_valid st = ENV_INVALID then - ENOENT else ret)
      in if ret = - ENOENT then (0, st\<lparr>es_valid := ENV_VALID\<rparr>) else (ret, st))"

text \<open>With a single driver, \<open>env_load\<close>, \<open>env_reload\<close>, \<open>env_save\<close> and \<open>env_erase\<close> ask it once.\<close>

definition driver_call :: "env_state \<Rightarrow> 'c \<Rightarrow> (int \<times> env_state \<times> 'c) option \<Rightarrow> (int \<times> env_state \<times> 'c) option" where
  "driver_call st c r =
     (if \<not> es_inited st then Some (- ENODEV, st, c)
      else map_option (\<lambda>(ret, st, c). (if ret \<noteq> 0 then - ENODEV else 0, st, c)) r)"

definition env_load where
  "env_load H ops defaults probed st c = driver_call st c (env_sf_load H ops defaults probed st c)"

definition env_reload where
  "env_reload H ops defaults probed st c = driver_call st c (env_sf_load H ops defaults probed st c)"

definition env_save_r where
  "env_save_r H ops defaults probed st c = driver_call st c (env_sf_save H ops defaults probed st c)"

definition env_erase where
  "env_erase H ops defaults probed st c = driver_call st c (env_sf_erase H ops defaults probed st c)"

definition env_relocate where
  "env_relocate H ops defaults probed st c =
     (if es_valid st = ENV_INVALID then map_option (\<lambda>st. (st, c)) (env_set_default_r H defaults 0 st)
      else map_option (\<lambda>(_, st, c). (st, c)) (env_load H ops defaults probed st c))"

end
