(* ===== verification/EnvSaved.thy ===== *)
theory EnvSaved
  imports EnvStore
begin

text \<open>
  The environment survives.  Reading and setting variables are lookup and update of the
  dictionary; what is saved to the flash is loaded again; the rest of the flash, also of the
  sector that is erased, stays as it was.
\<close>

unbundle bit_operations_syntax

section \<open>Variables\<close>

definition env_in_order :: "env_hooks \<Rightarrow> env_state \<Rightarrow> bool" where
  "env_in_order H st \<longleftrightarrow> es_ready st \<and> es_inited st \<and> env_ok H (es_htab st)"

definition env_vars :: "env_state \<Rightarrow> string \<rightharpoonup> string" where
  "env_vars st = env_map (es_htab st)"

lemma env_get_lookup:
  assumes "env_in_order H st" "NUL \<notin> set k"
  shows "env_get_r H defaults k st = Some (env_vars st k)"
proof -
  have t: "table_ok (es_htab st)" "es_ready st" using assms(1) by (auto simp: env_in_order_def env_ok_def)
  show ?thesis
  proof (cases rule: hsearch_find [OF t(1) assms(2), of H None 0, case_names found absent])
    case (found i)
    have "live (es_htab st) i" using found(1) by (simp add: holds_key_def)
    then have "node_ok (es_htab st) i" by (rule table_okD(7) [OF t(1)])
    then have "e_data (entry (es_htab st) i) = Some (data_at (es_htab st) i)" by (auto simp: node_ok_def Let_def data_at_def)
    with found t(2) show ?thesis by (simp add: env_get_r_def env_vars_def)
  next
    case absent
    with t(2) show ?thesis by (simp add: env_get_r_def env_vars_def)
  qed
qed

text \<open>A name that \<open>env_set\<close> takes as a name.\<close>

definition settable :: "string \<Rightarrow> bool" where
  "settable k \<longleftrightarrow> NUL \<notin> set k \<and> CHR ''='' \<notin> set k \<and> c0 k \<noteq> CHR ''-''"

lemma strchr_absent: "c \<notin> set s \<Longrightarrow> c \<noteq> NUL \<Longrightarrow> strchr s c = None"
  by (induction s c rule: strchr.induct) auto

lemma env_set_update:
  assumes o: "env_in_order H st" and k: "settable k" and v: "NUL \<notin> set v" "v \<noteq> []"
    and a: "accepts H k (env_vars st k) v H_PROGRAMMATIC" "env_vars st k = None \<longrightarrow> 0 < room (es_htab st)"
  shows "\<exists>st'. env_set_r H k (Some v) st = Some (0, st') \<and> env_in_order H st' \<and> env_vars st' = (env_vars st)(k \<mapsto> v) \<and>
    ht_size (es_htab st') = ht_size (es_htab st)"
proof -
  have e: "env_ok H (es_htab st)" "es_ready st" "es_inited st" using o by (auto simp: env_in_order_def)
  have t: "table_ok (es_htab st)" by (rule env_okD(1) [OF e(1)])
  have n: "NUL \<notin> set k" "strchr k CHR ''='' = None" "c0 k \<noteq> CHR ''-''" using k strchr_absent by (auto simp: settable_def)
  have acc: "accepts H k (env_map (es_htab st) k) v H_PROGRAMMATIC \<and> (env_map (es_htab st) k = None \<longrightarrow> \<not> table_full (es_htab st))"
    using a table_full_iff [OF t] by (simp add: env_vars_def)
  obtain res ep h where s: "hsearch_r H k (Some v) ENV_ENTER (es_htab st) H_PROGRAMMATIC = Some (res, ep, h)"
    "env_ok H h" "ht_size h = ht_size (es_htab st)" "res \<noteq> 0 \<and> ep \<noteq> None \<and> env_map h = (env_map (es_htab st))(k \<mapsto> v)"
    by (rule hsearch_enter [OF e(1) n(1) v(1), of H_PROGRAMMATIC]) (use acc in simp)
  have "ep \<noteq> None" using s(4) by simp
  moreover have "c0 v \<noteq> NUL" using v by (cases v) auto
  ultimately have "env_set_r H k (Some v) st = Some (0, st\<lparr>es_id := es_id st + 1, es_htab := h\<rparr>)"
    using e(2) n table_okD(3) [OF t] s(1) v by (simp add: env_set_r_def env_do_env_set_def try_malloc_def)
  then show ?thesis using s e by (auto simp: env_in_order_def env_vars_def)
qed

lemma env_set_removes:
  assumes o: "env_in_order H st" and k: "settable k"
    and a: "\<And>d. env_vars st k = Some d \<Longrightarrow> accepts_delete H k d H_PROGRAMMATIC" and v: "v = None \<or> v = Some []"
  shows "\<exists>st'. env_set_r H k v st = Some (0, st') \<and> env_in_order H st' \<and> env_vars st' = (env_vars st)(k := None) \<and>
    ht_size (es_htab st') = ht_size (es_htab st)"
proof -
  have e: "env_ok H (es_htab st)" "es_ready st" "es_inited st" using o by (auto simp: env_in_order_def)
  have n: "NUL \<notin> set k" "strchr k CHR ''='' = None" "c0 k \<noteq> CHR ''-''" using k strchr_absent by (auto simp: settable_def)
  obtain res h where h: "hdelete_r H k (es_htab st) H_PROGRAMMATIC = Some (res, h)" "env_ok H h" "ht_size h = ht_size (es_htab st)"
    "case env_map (es_htab st) k of
       None \<Rightarrow> res = - ENOENT \<and> h = es_htab st
     | Some d \<Rightarrow> if accepts_delete H k d H_PROGRAMMATIC then res = 0 \<and> env_map h = (env_map (es_htab st))(k := None)
                 else res < 0 \<and> h = es_htab st"
    by (rule hdelete_result [OF e(1) n(1)])
  have "(res = 0 \<or> res = - ENOENT) \<and> env_map h = (env_map (es_htab st))(k := None)"
    using h(4) a by (auto simp: env_vars_def fun_upd_idem split: option.splits)
  moreover have "env_set_r H k v st = Some (if res \<noteq> 0 \<and> res \<noteq> - ENOENT then 1 else 0, st\<lparr>es_id := es_id st + 1, es_htab := h\<rparr>)"
    using e(2) n h(1) v by (auto simp: env_set_r_def env_do_env_set_def)
  ultimately show ?thesis using h(2,3) e by (auto simp: env_in_order_def env_vars_def)
qed

section \<open>The flash\<close>

context quiet_nor_flash
begin

lemma sf_store_keeps:
  assumes c: "ok c" "0x40000 \<le> capacity c" "sector c dvd 0x10000"
    and l: "length env = CONFIG_ENV_SIZE" "saved = mem_bytes (view c) 0x31000 0xf000"
  shows "\<exists>c'. sf_store ops env 0x31000 saved c = (0, c') \<and> ok c' \<and> capacity c' = capacity c \<and> sector c' = sector c \<and>
    mem_bytes (view c') 0x30000 CONFIG_ENV_SIZE = env \<and> (\<forall>a. \<not> (0x30000 \<le> a \<and> a < 0x31000) \<longrightarrow> view c' a = view c a)"
proof -
  have u: "unat (0x30000 :: u32) = 0x30000" "unat (0x10000 :: u32) = 0x10000" "unat (0x31000 :: u32) = 0x31000" by simp_all
  have d: "sector c dvd 0x30000" using c(3) by (rule dvd_trans) simp
  obtain r c1 where e: "sf_erase ops c 0x30000 0x10000 = (r, c1)" by fastforce
  have r: "r = 0" using erase_succeeds [of c "0x30000" "0x10000"] c d e by simp
  have c1: "ok c1" "capacity c1 = capacity c" "sector c1 = sector c"
    "\<And>a. \<not> (0x30000 \<le> a \<and> a < 0x40000) \<Longrightarrow> view c1 a = view c a" "\<And>a. 0x30000 \<le> a \<Longrightarrow> a < 0x40000 \<Longrightarrow> view c1 a = 0xff"
    using erase_ok [of c "0x30000" "0x10000" r c1, unfolded u, OF c(1) _ e] c(2) r by simp_all
  obtain c2 where w: "sf_write ops c1 0x30000 env = (0, c2)"
    "view c2 = (\<lambda>a. if 0x30000 \<le> a \<and> a < 0x30000 + length env then view c1 a AND env ! (a - 0x30000) else view c1 a)"
    "ok c2" "capacity c2 = capacity c1" "sector c2 = sector c1"
    using write_ok [of c1 "0x30000" env, unfolded u] c1(1-3) c(2) l(1) by auto
  obtain c3 where w': "sf_write ops c2 0x31000 saved = (0, c3)"
    "view c3 = (\<lambda>a. if 0x31000 \<le> a \<and> a < 0x31000 + length saved then view c2 a AND saved ! (a - 0x31000) else view c2 a)"
    "ok c3" "capacity c3 = capacity c2" "sector c3 = sector c2"
    using write_ok [of c2 "0x31000" saved, unfolded u] c1(1-3) c(2) w(3-5) l(2) by auto
  have "sf_store ops env 0x31000 saved c = (0, c3)" using e r w(1) w'(1) by (simp add: sf_store_def)
  moreover have "mem_bytes (view c3) 0x30000 CONFIG_ENV_SIZE = env"
    using l(1) c1(5) by (intro nth_equalityI) (simp_all add: w(2) w'(2))
  moreover have "view c3 a = view c a" if "\<not> (0x30000 \<le> a \<and> a < 0x31000)" for a
    using that c1(4) [of a] c1(5) [of a] l by (auto simp: w(2) w'(2))
  ultimately show ?thesis using w(3-5) w'(3-5) c1(1-3) by auto
qed

end

section \<open>The image\<close>

lemma le_word_le_bytes: "le_word (ucast w) (ucast (drop_bit 8 w)) (ucast (drop_bit 16 w)) (ucast (drop_bit 24 (w :: u32))) = w"
proof (rule bit_word_eqI)
  fix n assume "n < LENGTH(32)"
  then consider "n < 8" | "8 \<le> n" "n < 16" | "16 \<le> n" "n < 24" | "24 \<le> n" "n < 32" by fastforce
  then show "bit (le_word (ucast w) (ucast (drop_bit 8 w)) (ucast (drop_bit 16 w)) (ucast (drop_bit 24 w))) n = bit w n"
    by cases (auto simp: le_word_def bit_simps)
qed

lemma length_le_bytes [simp]: "length (le_bytes w) = 4"
  by (simp add: le_bytes_def)

text \<open>An environment that can be stored: proper variables that fit into the image.\<close>

definition storable :: "env_hooks \<Rightarrow> hsearch_data \<Rightarrow> bool" where
  "storable H htab \<longleftrightarrow>
     (\<forall>k v. env_map htab k = Some v \<longrightarrow> name_ok NUL k \<and> v \<noteq> [] \<and> enterable H H_EXTERNAL None k v) \<and>
     length (vars_text NUL (sorted_vars htab)) < ENV_SIZE \<and> card (dom (env_map htab)) \<le> CONFIG_ENV_MAX_ENTRIES"

definition env_chars :: "hsearch_data \<Rightarrow> string" where
  "env_chars htab = (let txt = vars_text NUL (sorted_vars htab) in txt @ NUL # replicate (ENV_SIZE - Suc (length txt)) NUL)"

definition env_image :: "hsearch_data \<Rightarrow> byte list" where
  "env_image htab = le_bytes (env_crc (bytes_of (env_chars htab))) @ bytes_of (env_chars htab)"

lemma length_env_chars: "storable H htab \<Longrightarrow> length (env_chars htab) = ENV_SIZE"
  by (simp add: env_chars_def storable_def Let_def)

lemma export_image:
  assumes "env_ok H (es_htab st)" "storable H (es_htab st)"
  shows "env_export st = (0, env_image (es_htab st), st)"
proof -
  let ?t = "vars_text NUL (sorted_vars (es_htab st))"
  have "sum_list (map (export_len NUL) (used_entries (es_htab st))) \<le> length ?t" using export_lengths [OF assms(1), of NUL] by simp
  moreover have "length ?t < ENV_SIZE" using assms(2) by (simp add: storable_def)
  ultimately have "hexport_r (\<lambda>_. True) (\<lambda>_ _. False) (es_htab st) NUL 0 True ENV_SIZE [] =
      (int ENV_SIZE, Some (env_chars (es_htab st)), es_htab st)"
    by (simp add: export_eq [OF assms(1)] env_chars_def Let_def)
  then show ?thesis using length_env_chars [OF assms(2)] by (simp add: env_export_def env_image_def Let_def)
qed

lemma import_image:
  assumes "env_ok H htab" "storable H htab" "ht_malloc (es_htab st) = []" "\<not> ht_fault (es_htab st)"
  shows "\<exists>h. env_import H defaults (env_image htab) True H_EXTERNAL st = Some (0, st\<lparr>es_htab := h, es_ready := True\<rparr>) \<and>
    env_ok H h \<and> env_map h = env_map htab"
proof -
  note s = sorted_vars_ok [OF assms(1)]
  have kvs: "\<forall>(k, v) \<in> set (sorted_vars htab). name_ok NUL k \<and> v \<noteq> [] \<and> enterable H H_EXTERNAL None k v"
    using assms(2) map_of_eq_Some_iff [OF s(2)] s(3) by (auto simp: storable_def)
  have "card (dom (env_map htab)) = length (sorted_vars htab)"
    using distinct_card [OF s(2)] by (simp add: s(3) [symmetric] dom_map_of_conv_image_fst)
  then have room: "length (sorted_vars htab) \<le> min (CONFIG_ENV_MIN_ENTRIES + length (env_chars htab) div 8) CONFIG_ENV_MAX_ENTRIES"
    using assms(2) length_env_chars [OF assms(2)] by (simp add: storable_def)
  have flag: "H_EXTERNAL AND H_NOCLEAR = 0" by simp
  obtain h where h: "himport_r H (es_htab st) (env_chars htab) NUL H_EXTERNAL False [] = Some (1, h)" "env_ok H h" "env_map h = map_of (sorted_vars htab)"
    using import_vars [OF assms(3,4) flag kvs _ _ s(2) env_chars_def [unfolded Let_def] refl room] by auto
  have "map char_of_byte (bytes_of (env_chars htab)) = env_chars htab" by (simp add: bytes_of_def comp_def)
  moreover have "take ENV_SIZE (drop 4 (env_image htab)) = bytes_of (env_chars htab)"
    using length_env_chars [OF assms(2)] by (simp add: env_image_def)
  moreover have "le_word (env_image htab ! 0) (env_image htab ! 1) (env_image htab ! 2) (env_image htab ! 3) = env_crc (bytes_of (env_chars htab))"
    by (simp add: env_image_def le_bytes_def le_word_le_bytes)
  ultimately show ?thesis using h s(3) by (intro exI [of _ h]) (simp add: env_import_def Let_def)
qed

context quiet_nor_flash
begin

text \<open>Saving and loading over any flash that keeps its contract.\<close>

lemma save_stores:
  assumes o: "env_in_order H st" "storable H (es_htab st)" and c: "ok c" "0x40000 \<le> capacity c" "sector c dvd 0x10000"
  shows "\<exists>c'. env_save_r H ops defaults 0 st c = Some (0, st, c') \<and> ok c' \<and> capacity c' = capacity c \<and> sector c' = sector c \<and>
    mem_bytes (view c') 0x30000 CONFIG_ENV_SIZE = env_image (es_htab st) \<and>
    (\<forall>a. \<not> (0x30000 \<le> a \<and> a < 0x31000) \<longrightarrow> view c' a = view c a)"
proof -
  have e: "env_ok H (es_htab st)" "es_inited st" using o(1) by (auto simp: env_in_order_def)
  have m: "ht_malloc (es_htab st) = []" by (rule table_okD(3) [OF env_okD(1) [OF e(1)]])
  obtain c1 where r: "sf_read ops c 0x31000 0xf000 = (0, mem_bytes (view c) 0x31000 0xf000, c1)"
    "view c1 = view c" "ok c1" "capacity c1 = capacity c" "sector c1 = sector c"
    using read_ok [of c "0x31000" "0xf000"] c by auto
  have "length (env_image (es_htab st)) = CONFIG_ENV_SIZE" using length_env_chars [OF o(2)] by (simp add: env_image_def)
  from sf_store_keeps [of c1, OF _ _ _ this refl] r(2-5) c obtain c2 where
    s: "sf_store ops (env_image (es_htab st)) 0x31000 (mem_bytes (view c) 0x31000 0xf000) c1 = (0, c2)"
    "ok c2" "capacity c2 = capacity c" "sector c2 = sector c" "mem_bytes (view c2) 0x30000 CONFIG_ENV_SIZE = env_image (es_htab st)"
    "\<forall>a. \<not> (0x30000 \<le> a \<and> a < 0x31000) \<longrightarrow> view c2 a = view c a" by auto
  have "env_sf_save H ops defaults 0 st c = Some (0, st, c2)"
    using m r(1) s(1) export_image [OF e(1) o(2)] by (simp add: env_sf_save_def setup_flash_device_def try_malloc_def)
  then show ?thesis using s(2-6) e(2) by (simp add: env_save_r_def driver_call_def)
qed

lemma load_reads:
  assumes e: "env_ok H htab" "storable H htab" and c: "ok c" "0x40000 \<le> capacity c"
    and i: "mem_bytes (view c) 0x30000 CONFIG_ENV_SIZE = env_image htab"
    and st: "ht_malloc (es_htab st) = []" "\<not> ht_fault (es_htab st)" "es_inited st"
  shows "\<exists>st' c'. env_load H ops defaults 0 st c = Some (0, st', c') \<and> env_in_order H st' \<and> env_vars st' = env_map htab \<and> view c' = view c"
proof -
  obtain c1 where r: "sf_read ops c 0x30000 0x1000 = (0, env_image htab, c1)" "view c1 = view c"
    using read_ok [of c "0x30000" "0x1000"] c i by auto
  obtain h where h: "env_import H defaults (env_image htab) True H_EXTERNAL st = Some (0, st\<lparr>es_htab := h, es_ready := True\<rparr>)"
    "env_ok H h" "env_map h = env_map htab"
    using import_image [OF e st(1,2)] by blast
  have "env_sf_load H ops defaults 0 st c = Some (0, st\<lparr>es_htab := h, es_ready := True, es_valid := ENV_VALID\<rparr>, c1)"
    using st(1) r(1) h(1) by (simp add: env_sf_load_def setup_flash_device_def try_malloc_def)
  then show ?thesis using h(2,3) st(3) r(2) by (simp add: env_load_def driver_call_def env_in_order_def env_vars_def)
qed

end

section \<open>Properties\<close>

text \<open>C11: The environment survives a reset.  Take an environment in order whose variables are proper and fit
  into the image, and a quiet SPI NOR of at least 256 KiB whose sectors divide 64 KiB.  Saving it
  succeeds and changes no variable; outside the 4 KiB of the image, also in the rest of the erased
  sector, the flash is as it was.  Loading it into any fresh or used table succeeds, and reading a
  variable gives what it was when the environment was saved.\<close>

theorem env_survives_reset:
  assumes "env_in_order H st" "storable H (es_htab st)"
    and "spi_quiet nor" "0x40000 \<le> mtd_size nor" "erasesize nor dvd 0x10000"
    and "ht_malloc (es_htab st0) = []" "\<not> ht_fault (es_htab st0)" "es_inited st0"
  shows "\<exists>nor1 st' nor2.
    env_save_r H spi_flash_std_ops defaults 0 st nor = Some (0, st, nor1) \<and> spi_quiet nor1 \<and>
    (\<forall>a. \<not> (0x30000 \<le> a \<and> a < 0x31000) \<longrightarrow> array nor1 a = array nor a) \<and>
    env_load H spi_flash_std_ops defaults 0 st0 nor1 = Some (0, st', nor2) \<and> array nor2 = array nor1 \<and>
    (\<forall>k. NUL \<notin> set k \<longrightarrow> env_get_r H defaults k st' = env_get_r H defaults k st)"
proof -
  obtain nor1 where n: "env_save_r H spi_flash_std_ops defaults 0 st nor = Some (0, st, nor1)" "spi_quiet nor1" "mtd_size nor1 = mtd_size nor"
    "mem_bytes (array nor1) 0x30000 CONFIG_ENV_SIZE = env_image (es_htab st)"
    "\<forall>a. \<not> (0x30000 \<le> a \<and> a < 0x31000) \<longrightarrow> array nor1 a = array nor a"
    using quiet.save_stores [OF assms(1-5), of defaults] by auto
  have e: "env_ok H (es_htab st)" using assms(1) by (simp add: env_in_order_def)
  obtain st' nor2 where l: "env_load H spi_flash_std_ops defaults 0 st0 nor1 = Some (0, st', nor2)" "env_in_order H st'"
    "env_vars st' = env_map (es_htab st)" "array nor2 = array nor1"
    using quiet.load_reads [OF e assms(2) n(2) _ n(4) assms(6-8), of defaults] n(3) assms(4) by auto
  have "env_get_r H defaults k st' = env_get_r H defaults k st" if "NUL \<notin> set k" for k
    using env_get_lookup [OF l(2) that] env_get_lookup [OF assms(1) that] l(3) by (simp add: env_vars_def)
  with n l show ?thesis by blast
qed

text \<open>The default environment, when it is proper, is what \<open>env_set_default\<close> leaves.\<close>

lemma set_default_vars:
  assumes "defaults = vars_text NUL kvs @ NUL # replicate j NUL" "\<forall>(k, v) \<in> set kvs. name_ok NUL k \<and> v \<noteq> [] \<and> enterable H H_DEFAULT None k v"
    and "distinct (map fst kvs)" "length kvs \<le> min (CONFIG_ENV_MIN_ENTRIES + length defaults div 8) CONFIG_ENV_MAX_ENTRIES"
    and "ht_malloc (es_htab st) = []" "\<not> ht_fault (es_htab st)"
  shows "\<exists>h. env_set_default_r H defaults 0 st = Some (st\<lparr>es_htab := h, es_ready := True, es_default := True\<rparr>) \<and> env_ok H h \<and> env_map h = map_of kvs"
proof -
  have "H_DEFAULT AND H_NOCLEAR = 0" by simp
  then obtain h where "himport_r H (es_htab st) defaults NUL H_DEFAULT False [] = Some (1, h)" "env_ok H h" "env_map h = map_of kvs"
    using import_vars [OF assms(5,6) _ assms(2) _ _ assms(3,1) refl assms(4)] by auto
  then show ?thesis by (intro exI [of _ h]) (simp add: env_set_default_r_def)
qed

text \<open>C12: A damaged copy is not used.  If the copy in the flash differs from what was stored in up to four
  neighbouring bytes of its text, loading it fails with \<open>-ENODEV\<close>, the flash is left alone, and the
  environment has exactly the variables of the default environment.\<close>

theorem damaged_env_falls_back:
  assumes "spi_quiet nor" "0x40000 \<le> mtd_size nor"
    and "mem_bytes (array nor) 0x30000 CONFIG_ENV_SIZE = le_bytes (env_crc (pre @ xs @ post)) @ pre @ ys @ post"
    and "length (pre @ xs @ post) = ENV_SIZE" "length ys = length xs" "length xs \<le> 4" "ys \<noteq> xs"
    and "defaults = vars_text NUL kvs @ NUL # replicate j NUL" "\<forall>(k, v) \<in> set kvs. name_ok NUL k \<and> v \<noteq> [] \<and> enterable H H_DEFAULT None k v"
    and "distinct (map fst kvs)" "length kvs \<le> min (CONFIG_ENV_MIN_ENTRIES + length defaults div 8) CONFIG_ENV_MAX_ENTRIES"
    and "ht_malloc (es_htab st) = []" "\<not> ht_fault (es_htab st)" "es_inited st"
  shows "\<exists>st' nor'. env_load H spi_flash_std_ops defaults 0 st nor = Some (- ENODEV, st', nor') \<and> array nor' = array nor \<and>
    es_default st' \<and> env_in_order H st' \<and> env_vars st' = map_of kvs"
proof -
  let ?buf = "le_bytes (env_crc (pre @ xs @ post)) @ pre @ ys @ post"
  obtain nor1 where r: "sf_read spi_flash_std_ops nor 0x30000 0x1000 = (0, ?buf, nor1)" "array nor1 = array nor"
    using quiet.read_ok [OF assms(1), of "0x30000" "0x1000"] assms(2,3) by auto
  obtain h where h: "env_set_default_r H defaults 0 st = Some (st\<lparr>es_htab := h, es_ready := True, es_default := True\<rparr>)" "env_ok H h" "env_map h = map_of kvs"
    using set_default_vars [OF assms(8-13)] by blast
  have "take ENV_SIZE (drop 4 ?buf) = pre @ ys @ post" using assms(4,5) by simp
  moreover have "le_word (?buf ! 0) (?buf ! 1) (?buf ! 2) (?buf ! 3) = env_crc (pre @ xs @ post)" by (simp add: le_bytes_def le_word_le_bytes)
  moreover have "env_crc (pre @ ys @ post) \<noteq> env_crc (pre @ xs @ post)"
    unfolding env_crc_def using assms(5-7) by (intro crc32_detects_bursts) simp_all
  ultimately have "env_import H defaults ?buf True H_EXTERNAL st = Some (- ENOMSG, st\<lparr>es_htab := h, es_ready := True, es_default := True\<rparr>)"
    unfolding env_import_def using h(1) by (simp only: Let_def) simp
  then have "env_sf_load H spi_flash_std_ops defaults 0 st nor = Some (- ENOMSG, st\<lparr>es_htab := h, es_ready := True, es_default := True\<rparr>, nor1)"
    using assms(12) r(1) by (simp add: env_sf_load_def setup_flash_device_def try_malloc_def)
  then show ?thesis using h(2,3) assms(14) r(2) by (simp add: env_load_def driver_call_def env_in_order_def env_vars_def)
qed

definition damaged_nor :: spi_nor where
  "damaged_nor = \<lparr>mtd_size = 0x40000, erasesize = 0x10000, page_size = 256, no_op_chip_erase = False, bank_curr = 0,
     array = (\<lambda>a. (le_bytes (env_crc (replicate ENV_SIZE 0)) @ 7 # replicate (ENV_SIZE - 1) 0) ! (a - 0x30000)), ear = 0, wel = False, xfer = [],
     ctrlc_in = []\<rparr>"

theorem damaged_env_falls_back_witness:
  "\<exists>st' nor'. env_load no_hooks spi_flash_std_ops (''ipaddr=1.1.1.1'' @ [NUL, NUL]) 0
       \<lparr>es_htab = no_table, es_ready = False, es_default = False, es_valid = ENV_VALID, es_inited = True, es_id = 1\<rparr> damaged_nor =
     Some (- ENODEV, st', nor') \<and> env_vars st' = [''ipaddr'' \<mapsto> ''1.1.1.1'']"
proof -
  have q: "spi_quiet damaged_nor" "0x40000 \<le> mtd_size damaged_nor"
    by (simp_all add: damaged_nor_def spi_quiet_def spi_ok_def spi_mid_def spi_geometry_def)
  have z: "[] @ [0] @ replicate (ENV_SIZE - 1) 0 = (replicate ENV_SIZE 0 :: byte list)" by (simp add: numeral_nat)
  have m: "mem_bytes (array damaged_nor) 0x30000 CONFIG_ENV_SIZE =
      le_bytes (env_crc ([] @ [0] @ replicate (ENV_SIZE - 1) 0)) @ [] @ [7] @ replicate (ENV_SIZE - 1) 0"
    unfolding z by (intro nth_equalityI) (simp_all add: damaged_nor_def)
  have v: "\<forall>(k, v) \<in> set [(''ipaddr'', ''1.1.1.1'')]. name_ok NUL k \<and> v \<noteq> [] \<and> enterable no_hooks H_DEFAULT None k v"
    by (simp add: name_ok_def isblank_def no_hooks_enterable)
  show ?thesis
    using damaged_env_falls_back [OF q m _ _ _ _ _ v, of "''ipaddr=1.1.1.1'' @ [NUL, NUL]" 0
        "\<lparr>es_htab = no_table, es_ready = False, es_default = False, es_valid = ENV_VALID, es_inited = True, es_id = 1\<rparr>"]
    by (simp add: no_table_def) blast
qed

end
