(* ===== verification/EnvCallback.thy ===== *)
theory EnvCallback
  imports EnvFlags
begin

text \<open>
  The callbacks of variables, env/callback.c: which function watches a variable, found by name in
  the lists \<open>.callbacks\<close> and \<open>ENV_CALLBACK_LIST_STATIC\<close> (include/env_callback.h, with the settings of
  build/.config: CONFIG_NET and CONFIG_REGEX, without CONFIG_CMD_DNS, CONFIG_IPV6, CONFIG_BOOTSTD,
  CONFIG_DFU and CONFIG_SILENT_CONSOLE) and then in the linker list, a list of names and functions here.  Of the functions
  themselves, the answer of those that refuse a change; the rate of the serial line and the
  assignment of a console device are parameters.
\<close>

definition ENV_CALLBACK_LIST_STATIC :: string where
  "ENV_CALLBACK_LIST_STATIC =
     [BACKSLASH] @ ''.callbacks:callbacks,'' @ [BACKSLASH] @ ''.flags:flags,'' @ ''baudrate:baudrate,'' @
     ''bootfile:bootfile,ipaddr:ipaddr,gatewayip:gatewayip,netmask:netmask,serverip:serverip,nvlan:nvlan,vlan:vlan,'' @
     ''eth'' @ [BACKSLASH] @ ''d*addr:ethaddr,'' @
     ''loadaddr:loadaddr,'' @ ''stdin:console,stdout:console,stderr:console,'' @ ''serial#:serialno,''"

type_synonym env_clbk_tbl = "(string \<times> env_callback) list"

definition find_env_callback :: "env_clbk_tbl \<Rightarrow> string option \<Rightarrow> env_callback option" where
  "find_env_callback clbks name =
     (case name of None \<Rightarrow> None | Some n \<Rightarrow> map_option snd (find (\<lambda>c. strcmp n (fst c) = 0) clbks))"

definition env_callback_init ::
    "(string \<Rightarrow> bool) \<Rightarrow> (string \<Rightarrow> string \<Rightarrow> bool) \<Rightarrow> string option \<Rightarrow> env_clbk_tbl \<Rightarrow> string \<Rightarrow> env_callback option" where
  "env_callback_init re_ok re callback_list clbks var_name =
     (let r = (case callback_list of None \<Rightarrow> (1, None) | Some _ \<Rightarrow> env_attr_lookup re_ok re callback_list var_name);
          r = (if fst r \<noteq> 0 then env_attr_lookup re_ok re (Some ENV_CALLBACK_LIST_STATIC) var_name else r)
      in case r of
           (ret, Some callback_name) \<Rightarrow>
             if ret = 0 \<and> strlen callback_name \<noteq> 0 then find_env_callback clbks (Some callback_name) else None
         | (ret, None) \<Rightarrow> None)"

text \<open>A change of the variable \<open>.callbacks\<close>: all callbacks are removed, then both lists are applied.\<close>

definition clear_callback :: "env_entry \<Rightarrow> int \<times> env_entry" where
  "clear_callback e = (0, e\<lparr>e_callback := None\<rparr>)"

definition set_callback :: "env_hooks \<Rightarrow> env_clbk_tbl \<Rightarrow> hsearch_data option attr_callback" where
  "set_callback H clbks name value st =
     (case Option.bind st (\<lambda>htab. hsearch_r H name None ENV_FIND htab 0) of
        None \<Rightarrow> (0, None)
      | Some (_, None, htab) \<Rightarrow> (0, Some htab)
      | Some (_, Some i, htab) \<Rightarrow>
          let old = e_callback (entry htab i);
              f = (case value of
                     None \<Rightarrow> None
                   | Some v \<Rightarrow> if strlen v = 0 then None
                               else case find_env_callback clbks (Some v) of None \<Rightarrow> old | Some f \<Rightarrow> Some f)
          in (0, Some (set_node htab i ((nodes htab ! i)\<lparr>n_entry := (entry htab i)\<lparr>e_callback := f\<rparr>\<rparr>))))"

definition on_callbacks :: "env_hooks \<Rightarrow> env_clbk_tbl \<Rightarrow> string option \<Rightarrow> hsearch_data \<Rightarrow> int \<times> hsearch_data option" where
  "on_callbacks H clbks value htab =
     (let htab = snd (hwalk_r htab clear_callback);
          st = snd (env_attr_walk (Some ENV_CALLBACK_LIST_STATIC) (set_callback H clbks) (Some htab));
          st = snd (env_attr_walk value (set_callback H clbks) st)
      in (0, st))"

section \<open>Functions that refuse a change\<close>

definition baudrate_table :: "u32 list" where
  "baudrate_table = [9600, 19200, 38400, 57600, 115200, 230400, 460800, 921600]"

text \<open>The answers; \<open>baudrate\<close> is the rate in use.  A variable that is created or overwritten has a value.\<close>

definition on_baudrate :: "u32 \<Rightarrow> env_callback" where
  "on_baudrate baudrate name value op flags =
     (case op of
        env_op_delete \<Rightarrow> 1
      | _ \<Rightarrow> let b = fst (simple_strtoul (case value of None \<Rightarrow> [] | Some v \<Rightarrow> v) 10)
             in if baudrate = b \<or> b \<in> set baudrate_table then 0 else 1)"

definition on_console :: "bool \<Rightarrow> (string \<Rightarrow> string \<Rightarrow> int) \<Rightarrow> env_callback" where
  "on_console devinit console_assign name value op flags =
     (if name \<notin> {''stdin'', ''stdout'', ''stderr''} \<or> \<not> devinit then 0
      else case op of
        env_op_delete \<Rightarrow> 1
      | _ \<Rightarrow> if console_assign name (case value of None \<Rightarrow> [] | Some v \<Rightarrow> v) < 0 then 1 else 0)"

definition on_loadaddr :: env_callback where
  "on_loadaddr name value op flags = 0"

text \<open>The names in the linker list of the build; the functions of net/net.c (CONFIG_NET_LEGACY), among them those for the addresses of
  the board and its server, are not part of a build with lwIP.\<close>

definition build_callbacks :: "string list" where
  "build_callbacks = [''baudrate'', ''callbacks'', ''console'', ''ethaddr'', ''flags'', ''loadaddr'']"

end
