(* ===== verification/EnvConsole.thy ===== *)
theory EnvConsole
  imports EnvSaved EnvCallback Settings Sample
begin

text \<open>
  The console on the environment of U-Boot: the platform of the console with the functions of
  EnvStore in the place of its parameters, the permission checks and callbacks of the build, and
  the settings page from the form to the next boot.
\<close>

unbundle bit_operations_syntax

section \<open>The permission checks and callbacks of the build\<close>

definition static_entries :: "(string \<times> string) list" where
  "static_entries =
     [(''eth'' @ [BACKSLASH] @ ''d*addr'', ''mo''), (''ipaddr'', ''i''), (''gatewayip'', ''i''), (''netmask'', ''i''), (''serverip'', ''i''),
      (''nvlan'', ''d''), (''vlan'', ''d''), (''dnsip'', ''i''), (''serial#'', ''so'')]"

definition callback_entries :: "(string \<times> string) list" where
  "callback_entries =
     [([BACKSLASH] @ ''.callbacks'', ''callbacks''), ([BACKSLASH] @ ''.flags'', ''flags''), (''baudrate'', ''baudrate''), (''bootfile'', ''bootfile''),
      (''ipaddr'', ''ipaddr''), (''gatewayip'', ''gatewayip''), (''netmask'', ''netmask''), (''serverip'', ''serverip''), (''nvlan'', ''nvlan''),
      (''vlan'', ''vlan''), (''eth'' @ [BACKSLASH] @ ''d*addr'', ''ethaddr''), (''loadaddr'', ''loadaddr''), (''stdin'', ''console''),
      (''stdout'', ''console''), (''stderr'', ''console''), (''serial#'', ''serialno'')]"

definition attr_text :: "(string \<times> string) list \<Rightarrow> string" where
  "attr_text es = concat (map (\<lambda>(n, a). n @ CHR '':'' # a @ '','') es)"

lemma static_text:
  "ENV_FLAGS_LIST_STATIC = attr_text static_entries" "ENV_CALLBACK_LIST_STATIC = attr_text callback_entries"
  by (simp_all add: ENV_FLAGS_LIST_STATIC_def ENV_CALLBACK_LIST_STATIC_def attr_text_def static_entries_def callback_entries_def)

definition clean :: "string \<Rightarrow> bool" where
  "clean s \<longleftrightarrow> list_all (\<lambda>c. c \<noteq> NUL \<and> c \<noteq> CHR '','' \<and> c \<noteq> CHR '':'' \<and> \<not> isspace c) s \<and> s \<noteq> []"

fun attr_run :: "(string \<times> string) list \<Rightarrow> 'p attr_callback \<Rightarrow> 'p \<Rightarrow> int \<times> 'p" where
  "attr_run [] callback priv = (0, priv)"
| "attr_run ((n, a) # es) callback priv =
     (let (r, priv) = callback n (Some a) priv in if r \<noteq> 0 then (r, priv) else attr_run es callback priv)"

lemma dropWhile_clean: "clean s \<Longrightarrow> dropWhile isspace s = s"
  by (cases s) (auto simp: clean_def)

lemma strim_clean: "clean s \<Longrightarrow> strim s = s"
proof -
  assume c: "clean s"
  have "NUL \<notin> set s" using c by (auto simp: clean_def list_all_iff)
  then have "cstr s = s" by (rule cstr_id)
  moreover have "clean (rev s)" using c by (simp add: clean_def)
  ultimately show ?thesis using dropWhile_clean [OF c] dropWhile_clean [of "rev s"] by (simp add: strim_def skip_spaces_def)
qed

lemma strchr_first: "c \<notin> set s \<Longrightarrow> NUL \<notin> set s \<Longrightarrow> strchr (s @ c # t) c = Some (c # t)"
  by (induction s) auto

lemma takeWhile_first: "c \<notin> set s \<Longrightarrow> takeWhile (\<lambda>x. x \<noteq> c) (s @ c # t) = s"
  by (induction s) auto

lemma attr_entry_clean:
  assumes "clean n" "clean a"
  shows "attr_entry callback (n @ CHR '':'' # a) priv = callback n (Some a) priv"
proof -
  have n: "CHR '':'' \<notin> set n" "NUL \<notin> set n" using assms(1) by (auto simp: clean_def list_all_iff)
  then have "strlen n \<noteq> 0" using assms(1) by (simp add: clean_def)
  then show ?thesis
    using strchr_first [OF n] takeWhile_first [OF n(1)] strim_clean [OF assms(1)] strim_clean [OF assms(2)]
    by (simp add: attr_entry_def Let_def)
qed

lemma attr_walk_clean:
  "\<forall>(n, a) \<in> set es. clean n \<and> clean a \<Longrightarrow> attr_walk (attr_text es) callback priv = attr_run es callback priv"
proof (induction es arbitrary: priv)
  case Nil
  show ?case by (subst attr_walk.simps) (simp add: attr_text_def)
next
  case (Cons e es)
  obtain n a where e: "e = (n, a)" by (cases e)
  have c: "clean n" "clean a" using Cons.prems e by auto
  let ?e = "n @ CHR '':'' # a"
  have t: "attr_text ((n, a) # es) = ?e @ CHR '','' # attr_text es" by (simp add: attr_text_def)
  have s: "CHR '','' \<notin> set ?e" "NUL \<notin> set ?e" using c by (auto simp: clean_def list_all_iff)
  have "cstr (?e @ CHR '','' # attr_text es) = ?e @ CHR '','' # cstr (attr_text es)"
    using s(2) unfolding cstr_def by (subst takeWhile_append2) auto
  then have "takeWhile (\<lambda>c. c \<noteq> CHR '','') (cstr (?e @ CHR '','' # attr_text es)) = ?e" using takeWhile_first [OF s(1)] by metis
  moreover have "strchr (?e @ CHR '','' # attr_text es) CHR '','' = Some (CHR '','' # attr_text es)" using strchr_first [OF s] .
  ultimately show ?case unfolding e t attr_run.simps using Cons.IH Cons.prems attr_entry_clean [OF c, of callback priv]
    by (subst attr_walk.simps) (simp add: Let_def split: prod.splits)
qed

text \<open>What the code relies on of the regular expressions of the two lists: all are well formed; a pattern without a
  backslash between anchors matches its own text only, and the others match only names that begin with a dot
  or with \<open>eth\<close>.\<close>

definition anchored :: "string \<Rightarrow> string" where
  "anchored n = ''^'' @ n @ ''$''"

definition patterns :: "string list" where
  "patterns = map fst static_entries @ map fst callback_entries"

definition exact_regex :: "(string \<Rightarrow> bool) \<Rightarrow> (string \<Rightarrow> string \<Rightarrow> bool) \<Rightarrow> bool" where
  "exact_regex re_ok re \<longleftrightarrow>
     (\<forall>n \<in> set patterns. re_ok (anchored n) \<and>
        (\<forall>s. if BACKSLASH \<in> set n then re (anchored n) s \<longrightarrow> take 1 s = ''.'' \<or> take 3 s = ''eth'' else re (anchored n) s \<longleftrightarrow> s = n))"

lemma exact_regexD:
  assumes "exact_regex re_ok re" "n \<in> set patterns"
  shows "re_ok (anchored n)" "BACKSLASH \<notin> set n \<Longrightarrow> re (anchored n) s \<longleftrightarrow> s = n"
    "BACKSLASH \<in> set n \<Longrightarrow> take 1 s \<noteq> ''.'' \<Longrightarrow> take 3 s \<noteq> ''eth'' \<Longrightarrow> \<not> re (anchored n) s"
  using assms unfolding exact_regex_def by metis+

text \<open>The last entry of a list that has the name, for a name that only a plain pattern can match.\<close>

fun last_entry :: "string \<Rightarrow> (string \<times> string) list \<Rightarrow> string option \<Rightarrow> string option" where
  "last_entry s [] found = found"
| "last_entry s ((n, a) # es) found = last_entry s es (if s = n then Some a else found)"

lemma lookup_run:
  assumes "exact_regex re_ok re" "set (map fst es) \<subseteq> set patterns" "take 1 s \<noteq> ''.''" "take 3 s \<noteq> ''eth''" "BACKSLASH \<notin> set s"
  shows "attr_run es (regex_callback re_ok re s) found = (0, last_entry s es found)"
  using assms(2)
proof (induction es arbitrary: found)
  case (Cons e es)
  obtain n a where e: "e = (n, a)" by (cases e)
  have "n \<in> set patterns" using Cons.prems e by simp
  note d = exact_regexD [OF assms(1) this]
  have "re (anchored n) s \<longleftrightarrow> s = n" using d(2,3) assms(3-5) by (cases "BACKSLASH \<in> set n") auto
  then have "regex_callback re_ok re s n (Some a) found = (0, if s = n then Some a else found)"
    using d(1) by (simp add: regex_callback_def anchored_def)
  then show ?case using Cons e by simp
qed simp

lemma static_lookup:
  assumes "exact_regex re_ok re" "take 1 s \<noteq> ''.''" "take 3 s \<noteq> ''eth''" "BACKSLASH \<notin> set s"
  shows "env_attr_lookup re_ok re (Some ENV_FLAGS_LIST_STATIC) s = (case last_entry s static_entries None of None \<Rightarrow> (- ENOENT, None) | Some a \<Rightarrow> (0, Some a))"
    "env_attr_lookup re_ok re (Some ENV_CALLBACK_LIST_STATIC) s = (case last_entry s callback_entries None of None \<Rightarrow> (- ENOENT, None) | Some a \<Rightarrow> (0, Some a))"
proof -
  have "\<forall>(n, a) \<in> set static_entries. clean n \<and> clean a" "\<forall>(n, a) \<in> set callback_entries. clean n \<and> clean a" by code_simp+
  note w = this [THEN attr_walk_clean]
  have "attr_run static_entries (regex_callback re_ok re s) None = (0, last_entry s static_entries None)"
    "attr_run callback_entries (regex_callback re_ok re s) None = (0, last_entry s callback_entries None)"
    by (intro lookup_run [OF assms(1) _ assms(2-4)]; simp add: patterns_def)+
  then show "env_attr_lookup re_ok re (Some ENV_FLAGS_LIST_STATIC) s = (case last_entry s static_entries None of None \<Rightarrow> (- ENOENT, None) | Some a \<Rightarrow> (0, Some a))"
    "env_attr_lookup re_ok re (Some ENV_CALLBACK_LIST_STATIC) s = (case last_entry s callback_entries None of None \<Rightarrow> (- ENOENT, None) | Some a \<Rightarrow> (0, Some a))"
    by (simp_all add: env_attr_lookup_def env_attr_walk_def static_text w)
qed

lemma static_flags:
  assumes "exact_regex re_ok re"
  shows "env_flags_init re_ok re None ''ipaddr'' = Some 4" "env_flags_init re_ok re None ''netmask'' = Some 4"
    "env_flags_init re_ok re None ''serverip'' = Some 4" "env_flags_init re_ok re None ''bootdelay'' = None"
    "env_flags_init re_ok re None ''baudrate'' = None" "env_flags_init re_ok re None ''stdin'' = None"
  by (simp_all add: env_flags_init_def env_flags_lookup_def static_lookup [OF assms] static_entries_def env_parse_flags_to_bin_def
      env_flags_parse_vartype_def env_flags_parse_varaccess_def vartypes_def)

text \<open>No function watches the four variables of the settings page.\<close>

lemma static_callbacks:
  assumes "exact_regex re_ok re" "set (map fst clbks) \<subseteq> set build_callbacks"
  shows "env_callback_init re_ok re None clbks ''ipaddr'' = None" "env_callback_init re_ok re None clbks ''netmask'' = None"
    "env_callback_init re_ok re None clbks ''serverip'' = None" "env_callback_init re_ok re None clbks ''bootdelay'' = None"
proof -
  have "find_env_callback clbks (Some n) = None" if "n \<in> {''ipaddr'', ''netmask'', ''serverip''}" for n
  proof -
    have "strcmp n m \<noteq> 0" if "m \<in> set build_callbacks" for m
      using that \<open>n \<in> {''ipaddr'', ''netmask'', ''serverip''}\<close> by (auto simp: build_callbacks_def strcmp_0_iff)
    then show ?thesis using assms(2) by (auto simp: find_env_callback_def find_None_iff)
  qed
  then show "env_callback_init re_ok re None clbks ''ipaddr'' = None" "env_callback_init re_ok re None clbks ''netmask'' = None"
    "env_callback_init re_ok re None clbks ''serverip'' = None" "env_callback_init re_ok re None clbks ''bootdelay'' = None"
    by (simp_all add: env_callback_init_def static_lookup [OF assms(1)] callback_entries_def)
qed

text \<open>The hooks of the hash table: \<open>flags_list\<close> and \<open>callback_list\<close> are the variables \<open>.flags\<close> and \<open>.callbacks\<close>.\<close>

definition uboot_hooks ::
    "(string \<Rightarrow> bool) \<Rightarrow> (string \<Rightarrow> string \<Rightarrow> bool) \<Rightarrow> string option \<Rightarrow> string option \<Rightarrow> env_clbk_tbl \<Rightarrow> string \<Rightarrow> env_hooks" where
  "uboot_hooks re_ok re flags_list callback_list clbks defaults =
     \<lparr>change_ok = Some (env_flags_validate (env_get_default defaults)), callback_of = env_callback_init re_ok re callback_list clbks,
      flags_of = env_flags_init re_ok re flags_list\<rparr>"

text \<open>A variable with a type and no access restriction: every value of the type is granted.\<close>

lemma typed_granted:
  assumes "e_flags e = vartype_bin t" "op = env_op_delete \<or> (\<exists>v. nv = Some v \<and> 0 \<le> validate_type v t)"
  shows "env_flags_validate dv e nv op flag = 0"
proof -
  have "vartype_of (ENV_FLAGS_VARTYPE_BIN_MASK AND vartype_bin t) = Some t" by (cases t) (simp_all add: vartype_of_def)
  moreover have "vartype_bin t AND ENV_FLAGS_VARACCESS_PREVENT_DELETE = 0" "vartype_bin t AND ENV_FLAGS_VARACCESS_PREVENT_OVERWR = 0"
    "vartype_bin t AND ENV_FLAGS_VARACCESS_PREVENT_NONDEF_OVERWR = 0" "vartype_bin t AND ENV_FLAGS_VARACCESS_PREVENT_CREATE = 0"
    by (cases t, simp_all)+
  ultimately show ?thesis using assms by (auto simp: env_flags_validate_def Let_def split: env_op.splits)
qed

lemma typed_not_denied:
  assumes "env_flags_init re_ok re None k = Some (vartype_bin t) \<or> env_flags_init re_ok re None k = None \<and> t = env_flags_vartype_string"
    and "0 \<le> validate_type v t" and H: "H = uboot_hooks re_ok re None cl clbks defaults"
  shows "\<not> denied H (entry_for H k x) (Some v) op flag" "\<not> denied H (entry_for H k x) None env_op_delete flag"
proof -
  have f: "e_flags (entry_for H k x) = vartype_bin t" for x using assms(1) by (auto simp: entry_for_def new_flags_def uboot_hooks_def H)
  show "\<not> denied H (entry_for H k x) (Some v) op flag" "\<not> denied H (entry_for H k x) None env_op_delete flag"
    using typed_granted [OF f] assms(2) by (auto simp: denied_def) (auto simp: uboot_hooks_def H)
qed

lemma typed_accepts:
  assumes "env_callback_init re_ok re None clbks k = None"
    and "env_flags_init re_ok re None k = Some (vartype_bin t) \<or> env_flags_init re_ok re None k = None \<and> t = env_flags_vartype_string"
    and "0 \<le> validate_type v t" and H: "H = uboot_hooks re_ok re None None clbks defaults"
  shows "accepts H k old v flag" "accepts_delete H k d flag"
proof -
  have "do_callback (entry_for H k x) name u op fl = 0" for x name u op fl
    using assms(1) by (simp add: do_callback_def entry_for_def uboot_hooks_def H)
  then show "accepts H k old v flag" "accepts_delete H k d flag"
    using typed_not_denied [OF assms(2-4)] by (simp_all add: accepts_def accepts_delete_def Let_def)
qed

lemma isdigit_lwip: "isdigit = lwip_isdigit"
  by (simp add: fun_eq_iff isdigit_def lwip_isdigit_def)

lemma skip_digits_append:
  "list_all isdigit ds \<Longrightarrow> length ds \<le> m \<Longrightarrow> s = [] \<or> \<not> isdigit (hd s) \<Longrightarrow> skip_digits False (Some m) (ds @ s) = s"
proof (induction ds arbitrary: m)
  case Nil
  then show ?case by (cases s) auto
qed auto

lemma ip_text_typed: "ip_ok i \<Longrightarrow> validate_type (ip_text i) env_flags_vartype_ipaddr = 0"
proof -
  assume "ip_ok i"
  then obtain a b c d where i: "i = (a, b, c, d)" "a < 256" "b < 256" "c < 256" "d < 256" by (cases i) (auto simp: ip_ok_def)
  have dg: "list_all isdigit (fmt_u n)" for n using number_isdigit by (simp add: list_all_iff isdigit_lwip fmt_u_def)
  have ln: "length (fmt_u n) \<le> 3" "fmt_u n \<noteq> []" if "n < 256" for n using number_length [of n 3] that by (simp_all add: fmt_u_def)
  have dot: "\<not> isdigit CHR ''.''" by code_simp
  have sk: "skip_num False (fmt_u n @ CHR ''.'' # r) (Some 3) = CHR ''.'' # r" "skip_num False (fmt_u n) (Some 3) = []" if "n < 256" for n r
    using skip_digits_append [OF dg ln(1) [OF that], of "CHR ''.'' # r"] skip_digits_append [OF dg ln(1) [OF that], of "[]"] dot
    by (simp_all add: skip_num_def)
  have four: "(4 :: nat) = Suc (Suc (Suc (Suc 0)))" by simp
  show ?thesis using i ln(2) sk by (simp add: validate_type_def ip_text_def dotted_def four Let_def)
qed

section \<open>The size of the text\<close>

definition entry_size :: "string \<Rightarrow> string \<Rightarrow> nat" where
  "entry_size k v = length k + length (escape NUL v) + 2"

definition text_size :: "(string \<rightharpoonup> string) \<Rightarrow> nat" where
  "text_size m = (\<Sum>k \<in> dom m. entry_size k (the (m k)))"

lemma length_vars_text: "distinct (map fst kvs) \<Longrightarrow> length (vars_text NUL kvs) = text_size (map_of kvs)"
proof -
  assume d: "distinct (map fst kvs)"
  have "length (vars_text NUL kvs) = sum_list (map (\<lambda>(k, v). entry_size k v) kvs)"
    by (induction kvs) (auto simp: entry_size_def)
  also have "\<dots> = (\<Sum>(k, v) \<in> set kvs. entry_size k v)" using d by (intro sum_list_distinct_conv_sum_set) (simp add: distinct_map)
  also have "\<dots> = (\<Sum>k \<in> fst ` set kvs. entry_size k (the (map_of kvs k)))"
    using d by (subst sum.reindex) (auto simp: distinct_map intro!: sum.cong)
  finally show ?thesis by (simp add: text_size_def dom_map_of_conv_image_fst)
qed

lemma text_size_upd: "finite (dom m) \<Longrightarrow> text_size (m(k \<mapsto> v)) \<le> text_size m + entry_size k v"
proof -
  assume f: "finite (dom m)"
  have "text_size (m(k \<mapsto> v)) = entry_size k v + (\<Sum>x \<in> dom m - {k}. entry_size x (the (m x)))"
    using f by (simp add: text_size_def sum.insert_remove)
  also have "(\<Sum>x \<in> dom m - {k}. entry_size x (the (m x))) \<le> text_size m"
    unfolding text_size_def using f by (intro sum_mono2) auto
  finally show ?thesis by simp
qed

lemma text_size_del: "finite (dom m) \<Longrightarrow> text_size (m(k := None)) \<le> text_size m"
proof -
  assume f: "finite (dom m)"
  have "text_size (m(k := None)) = (\<Sum>x \<in> dom m - {k}. entry_size x (the (m x)))" by (auto simp: text_size_def intro!: sum.cong)
  also have "\<dots> \<le> text_size m" unfolding text_size_def using f by (intro sum_mono2) auto
  finally show ?thesis .
qed

section \<open>The platform\<close>

definition uboot_env :: "env_hooks \<Rightarrow> string \<Rightarrow> (spi_nor, env_state \<times> 'n) platform \<Rightarrow> (spi_nor, env_state \<times> 'n) platform" where
  "uboot_env H defaults P = P\<lparr>
     env_get := (\<lambda>(st, w) k. Option.bind (env_get_r H defaults k st) id),
     env_set := (\<lambda>(st, w) k v. case env_set_r H k v st of None \<Rightarrow> (1, (st, w)) | Some (ret, st) \<Rightarrow> (ret, (st, w))),
     env_save := (\<lambda>(st, w) c. case env_save_r H spi_flash_std_ops defaults 0 st c of
        None \<Rightarrow> (- ENODEV, (st, w), c) | Some (ret, st, c) \<Rightarrow> (ret, (st, w), c)),
     env_set_default := (\<lambda>(st, w). (case env_set_default_r H defaults 0 st of None \<Rightarrow> st | Some st \<Rightarrow> st, w))\<rparr>"

lemma uboot_env_ops:
  "env_set (uboot_env H defaults P) (st, w) k v = (case env_set_r H k v st of None \<Rightarrow> (1, (st, w)) | Some (ret, st) \<Rightarrow> (ret, (st, w)))"
  "env_save (uboot_env H defaults P) (st, w) c =
     (case env_save_r H spi_flash_std_ops defaults 0 st c of None \<Rightarrow> (- ENODEV, (st, w), c) | Some (ret, st, c) \<Rightarrow> (ret, (st, w), c))"
  by (simp_all add: uboot_env_def)

section \<open>The settings page\<close>

text \<open>Setting a list of variables; an absent value removes the variable.\<close>

fun set_vars :: "(string \<times> string option) list \<Rightarrow> (string \<rightharpoonup> string) \<Rightarrow> string \<rightharpoonup> string" where
  "set_vars [] m = m"
| "set_vars ((k, v) # kvs) m = set_vars kvs (m(k := v))"

definition grantable :: "env_hooks \<Rightarrow> string \<times> string option \<Rightarrow> bool" where
  "grantable H kv \<longleftrightarrow> settable (fst kv) \<and> (\<forall>old fl. case snd kv of
     None \<Rightarrow> \<forall>d. accepts_delete H (fst kv) d fl
   | Some v \<Rightarrow> NUL \<notin> set v \<and> v \<noteq> [] \<and> accepts H (fst kv) old v fl)"

lemma env_set_all_vars:
  assumes "env_in_order H st" "\<forall>kv \<in> set kvs. grantable H kv" "card (dom (env_vars st)) + length kvs \<le> ht_size (es_htab st)"
  shows "\<exists>st'. env_set_all (uboot_env H defaults P) (st, w) kvs = (0, (st', w)) \<and> env_in_order H st' \<and> env_vars st' = set_vars kvs (env_vars st) \<and>
    ht_size (es_htab st') = ht_size (es_htab st)"
  using assms
proof (induction kvs arbitrary: st)
  case (Cons kv kvs)
  obtain k v where kv: "kv = (k, v)" by (cases kv)
  have g: "grantable H (k, v)" using Cons.prems(2) kv by simp
  have room: "0 < room (es_htab st)" using Cons.prems(3) by (simp add: room_def env_vars_def)
  obtain st1 where st1: "env_set_r H k v st = Some (0, st1)" "env_in_order H st1" "env_vars st1 = (env_vars st)(k := v)"
    "ht_size (es_htab st1) = ht_size (es_htab st)"
  proof (cases v)
    case None
    then show thesis using env_set_removes [OF Cons.prems(1), of k None] g that by (auto simp: grantable_def)
  next
    case (Some x)
    then show thesis using env_set_update [OF Cons.prems(1), of k x] g that room by (auto simp: grantable_def)
  qed
  have "finite (dom (env_vars st))" by (simp add: env_vars_def)
  then have "card (dom (env_vars st1)) \<le> Suc (card (dom (env_vars st)))"
    unfolding st1(3) by (cases v) (auto simp: card_insert_if intro: le_SucI card_mono card_Diff1_le)
  then have "card (dom (env_vars st1)) + length kvs \<le> ht_size (es_htab st1)" using Cons.prems(3) st1(4) by simp
  with Cons.IH [OF st1(2)] Cons.prems(2) obtain st' where
    "env_set_all (uboot_env H defaults P) (st1, w) kvs = (0, (st', w))" "env_in_order H st'" "env_vars st' = set_vars kvs (env_vars st1)"
    "ht_size (es_htab st') = ht_size (es_htab st1)" by auto
  with st1 show ?case by (intro exI [of _ st']) (simp add: kv uboot_env_ops)
qed simp

definition settings :: "octets \<Rightarrow> octets \<Rightarrow> octets option \<Rightarrow> nat \<Rightarrow> (string \<times> string option) list" where
  "settings ip nm srv d =
     [(''ipaddr'', Some (ip_text ip)), (''netmask'', Some (ip_text nm)), (''serverip'', map_option ip_text srv), (''bootdelay'', Some (fmt_u d))]"

lemma plain_facts: "\<not> plain NUL" "\<not> plain BACKSLASH"
  by (simp_all add: plain_def lwip_isdigit_def)

lemma escape_plain: "\<forall>c \<in> set s. plain c \<Longrightarrow> NUL \<notin> set s \<and> escape NUL s = s"
  using plain_facts by (induction s) auto

lemma ip_text_short:
  assumes "ip_ok i"
  shows "NUL \<notin> set (ip_text i)" "ip_text i \<noteq> []" "length (escape NUL (ip_text i)) \<le> 23"
  using ip_text_facts [OF assms] escape_plain [of "ip_text i"] by auto

lemma fmt_u_short: "d \<le> 30 \<Longrightarrow> NUL \<notin> set (fmt_u d) \<and> fmt_u d \<noteq> [] \<and> length (escape NUL (fmt_u d)) \<le> 2"
  using escape_plain [of "fmt_u d"] fmt_u_plain number_length [of d 2] by (simp add: fmt_u_def)

lemma settings_grantable:
  assumes "exact_regex re_ok re" "set (map fst clbks) \<subseteq> set build_callbacks" "ip_ok ip" "ip_ok nm" "\<And>s. srv = Some s \<Longrightarrow> ip_ok s" "d \<le> 30"
  shows "\<forall>kv \<in> set (settings ip nm srv d). grantable (uboot_hooks re_ok re None None clbks defaults) kv \<and> name_ok NUL (fst kv)"
proof -
  let ?H = "uboot_hooks re_ok re None None clbks defaults"
  note fl = static_flags [OF assms(1)] and cb = static_callbacks [OF assms(1,2)]
  have ip: "accepts ?H k old (ip_text i) f" "accepts_delete ?H k x f"
    if "ip_ok i" "k \<in> {''ipaddr'', ''netmask'', ''serverip''}" for i k old f x
    using typed_accepts [of re_ok re clbks k env_flags_vartype_ipaddr "ip_text i"] ip_text_typed [OF that(1)] that(2) fl cb by auto
  have bd: "accepts ?H ''bootdelay'' old v f" for old v f
    using typed_accepts(1) [of re_ok re clbks "''bootdelay''" env_flags_vartype_string v] fl(4) cb(4) by (simp add: validate_type_def)
  have srv: "grantable ?H (''serverip'', map_option ip_text srv)"
    using assms(5) ip [of _ "''serverip''"] ip_text_short ip(2) [of "(0, 0, 0, 0)" "''serverip''"]
    by (cases srv) (auto simp: grantable_def settable_def ip_ok_def)
  show ?thesis
    using srv assms(3,4) ip ip_text_short fmt_u_short [OF assms(6)] bd
    by (auto simp: settings_def grantable_def settable_def name_ok_def isblank_def)
qed

definition vars_size :: "(string \<times> string option) list \<Rightarrow> nat" where
  "vars_size kvs = sum_list (map (\<lambda>(k, v). case v of None \<Rightarrow> 0 | Some v \<Rightarrow> entry_size k v) kvs)"

lemma set_vars_bounds:
  "finite (dom m) \<Longrightarrow> finite (dom (set_vars kvs m)) \<and> card (dom (set_vars kvs m)) \<le> card (dom m) + length kvs \<and>
     text_size (set_vars kvs m) \<le> text_size m + vars_size kvs"
proof (induction kvs arbitrary: m)
  case (Cons kv kvs)
  obtain k v where kv: "kv = (k, v)" by (cases kv)
  define u where "u = m(k := v)"
  have f: "finite (dom u)" using Cons.prems by (simp add: u_def)
  have "card (dom u) \<le> Suc (card (dom m))" unfolding u_def
    using Cons.prems by (cases v) (auto simp: card_insert_if intro: le_SucI card_mono card_Diff1_le)
  moreover have "text_size u \<le> text_size m + (case v of None \<Rightarrow> 0 | Some v \<Rightarrow> entry_size k v)"
    using text_size_upd [OF Cons.prems] text_size_del [OF Cons.prems] unfolding u_def by (cases v) auto
  moreover have "set_vars (kv # kvs) m = set_vars kvs u" by (simp add: kv u_def)
  ultimately show ?case using Cons.IH [OF f] by (simp add: kv vars_size_def del: set_vars.simps)
qed (simp add: vars_size_def)

lemma set_vars_cases: "set_vars kvs m k = Some v \<Longrightarrow> m k = Some v \<or> (k, Some v) \<in> set kvs"
proof (induction kvs arbitrary: m)
  case (Cons kv kvs)
  obtain k' v' where kv: "kv = (k', v')" by (cases kv)
  define u where "u = m(k' := v')"
  have "set_vars kvs u k = Some v" using Cons.prems by (simp add: kv u_def)
  then have "u k = Some v \<or> (k, Some v) \<in> set kvs" by (rule Cons.IH)
  then show ?case by (auto simp: kv u_def split: if_splits)
qed simp

lemma set_vars_storable:
  assumes "storable H htab" "env_ok H htab'" "env_map htab' = set_vars kvs (env_map htab)"
    and g: "\<forall>kv \<in> set kvs. grantable H kv \<and> name_ok NUL (fst kv)"
    and "card (dom (env_map htab)) + length kvs \<le> CONFIG_ENV_MAX_ENTRIES" "text_size (env_map htab) + vars_size kvs < ENV_SIZE"
  shows "storable H htab'"
  unfolding storable_def
proof (intro conjI allI impI)
  note b = set_vars_bounds [OF dom_env_map_finite, of kvs htab, folded assms(3)]
  note s = sorted_vars_ok [OF assms(2)]
  show "length (vars_text NUL (sorted_vars htab')) < ENV_SIZE" using length_vars_text [OF s(2)] s(3) b assms(6) by simp
  show "card (dom (env_map htab')) \<le> CONFIG_ENV_MAX_ENTRIES" using b assms(5) by simp
  fix k v assume "env_map htab' k = Some v"
  then consider "env_map htab k = Some v" | "(k, Some v) \<in> set kvs" using set_vars_cases assms(3) by metis
  then have "name_ok NUL k \<and> v \<noteq> [] \<and> enterable H H_EXTERNAL None k v"
  proof cases
    case 1
    then show ?thesis using assms(1) by (simp add: storable_def)
  next
    case 2
    then have "grantable H (k, Some v)" "name_ok NUL k" using g by auto
    then show ?thesis by (auto simp: grantable_def enterable_def name_ok_def)
  qed
  then show "name_ok NUL k" "v \<noteq> []" "enterable H H_EXTERNAL None k v" by auto
qed

lemma settings_size:
  assumes "ip_ok ip" "ip_ok nm" "\<And>s. srv = Some s \<Longrightarrow> ip_ok s" "d \<le> 30"
  shows "vars_size (settings ip nm srv d) < 150"
  using ip_text_short(3) [OF assms(1)] ip_text_short(3) [OF assms(2)] ip_text_short(3) [OF assms(3)] fmt_u_short [OF assms(4)]
  by (cases srv) (auto simp: vars_size_def settings_def entry_size_def)

text \<open>C10: Settings survive.  The settings page on the environment of U-Boot and its SPI NOR flash: a form
  with proper values is answered with success, the flash changes in the 4 KiB of the environment
  only, and after a reset the environment that is loaded from that flash has the four
  variables of the form (no server address: the variable is gone) and every other variable as it was.
  The functions that watch variables are any of the build, and may refuse values; the environment
  before has room for the four variables, redefines neither \<open>.flags\<close> nor \<open>.callbacks\<close>, and its variables have values
  that can be loaded (\<open>storable\<close>: the checks and functions accept them).\<close>

theorem settings_survive_reset:
  assumes "form_safe keep" "\<And>c. plain c \<Longrightarrow> keep c" "ip_ok ip" "ip_ok nm" "ip4_addr_netmask_valid (ip_addr nm)"
    and "\<And>s. srv = Some s \<Longrightarrow> ip_ok s" "d \<le> 30"
    and "body ctx = form_text keep [(''ipaddr'', ip_text ip), (''netmask'', ip_text nm),
      (''serverip'', case srv of None \<Rightarrow> [] | Some s \<Rightarrow> ip_text s), (''bootdelay'', fmt_u d)]"
    and H: "H = uboot_hooks re_ok re (env_vars st ''.flags'') (env_vars st ''.callbacks'') clbks defaults"
      "env_vars st ''.flags'' = None" "env_vars st ''.callbacks'' = None" "exact_regex re_ok re" "set (map fst clbks) \<subseteq> set build_callbacks"
    and st: "world ctx = (st, w)" "env_in_order H st" "storable H (es_htab st)"
      "card (dom (env_vars st)) + 4 \<le> min (ht_size (es_htab st)) CONFIG_ENV_MAX_ENTRIES" "text_size (env_vars st) + 150 \<le> ENV_SIZE"
    and nor: "spi_quiet (flash ctx)" "0x40000 \<le> mtd_size (flash ctx)" "erasesize (flash ctx) dvd 0x10000"
    and st0: "ht_malloc (es_htab st0) = []" "\<not> ht_fault (es_htab st0)" "es_inited st0"
  shows "\<exists>c nor1 st1 nor2. webflash_env_save (uboot_env H defaults P) ctx = webflash_ok (uboot_env H defaults P) c ''saved; reboot to apply'' \<and>
    flash (snd (webflash_env_save (uboot_env H defaults P) ctx)) = nor1 \<and>
    (\<forall>a. \<not> (0x30000 \<le> a \<and> a < 0x31000) \<longrightarrow> array nor1 a = array (flash ctx) a) \<and>
    env_load H spi_flash_std_ops defaults 0 st0 nor1 = Some (0, st1, nor2) \<and>
    env_vars st1 = (env_vars st)(''ipaddr'' \<mapsto> ip_text ip, ''netmask'' \<mapsto> ip_text nm, ''serverip'' := map_option ip_text srv, ''bootdelay'' \<mapsto> fmt_u d)"
proof -
  let ?P = "uboot_env H defaults P" and ?kvs = "settings ip nm srv d"
  have g: "\<forall>kv \<in> set ?kvs. grantable H kv \<and> name_ok NUL (fst kv)" using settings_grantable [OF H(4,5) assms(3,4,6,7)] H(1-3) by simp
  have len: "length ?kvs = 4" by (simp add: settings_def)
  have e: "env_ok H (es_htab st)" using st(2) by (simp add: env_in_order_def)
  obtain st' where s: "env_set_all ?P (st, w) ?kvs = (0, (st', w))" "env_in_order H st'" "env_vars st' = set_vars ?kvs (env_vars st)"
    using env_set_all_vars [OF st(2), of ?kvs defaults P w] g st(4) len by auto
  have e': "env_ok H (es_htab st')" using s(2) by (simp add: env_in_order_def)
  have "card (dom (env_map (es_htab st))) + length ?kvs \<le> CONFIG_ENV_MAX_ENTRIES" using st(4) len by (simp add: env_vars_def)
  moreover have "text_size (env_map (es_htab st)) + vars_size ?kvs < ENV_SIZE"
    using st(5) settings_size [of ip nm srv d, OF assms(3,4,6,7)] unfolding env_vars_def by linarith
  ultimately have stor: "storable H (es_htab st')"
    by (rule set_vars_storable [OF st(3) e' s(3) [unfolded env_vars_def] g])
  obtain nor1 where n: "env_save_r H spi_flash_std_ops defaults 0 st' (flash ctx) = Some (0, st', nor1)" "spi_quiet nor1" "mtd_size nor1 = mtd_size (flash ctx)"
    "mem_bytes (array nor1) 0x30000 EnvStore.CONFIG_ENV_SIZE = env_image (es_htab st')"
    "\<forall>a. \<not> (0x30000 \<le> a \<and> a < 0x31000) \<longrightarrow> array nor1 a = array (flash ctx) a"
    using quiet.save_stores [OF s(2) stor nor, of defaults] by auto
  obtain st1 nor2 where l: "env_load H spi_flash_std_ops defaults 0 st0 nor1 = Some (0, st1, nor2)" "env_vars st1 = env_map (es_htab st')"
    using quiet.load_reads [OF e' stor n(2) _ n(4) st0, of defaults] n(3) nor(2) by auto
  let ?c = "ctx\<lparr>world := (st', w), flash := nor1\<rparr>"
  have "env_commit ?P ctx ?kvs = (0, ?c)" using s(1) n(1) st(1) by (simp add: env_commit_def uboot_env_ops)
  then have r: "webflash_env_save ?P ctx = webflash_ok ?P ?c ''saved; reboot to apply''"
    using settings_form_saves [OF assms(1-8), of ?P] by (simp add: settings_def)
  have "flash (snd (webflash_env_save ?P ctx)) = nor1" unfolding r using ok_keeps [of ?c ?P] by (simp add: keeps_def)
  moreover have "env_vars st1 = (env_vars st)(''ipaddr'' \<mapsto> ip_text ip, ''netmask'' \<mapsto> ip_text nm, ''serverip'' := map_option ip_text srv, ''bootdelay'' \<mapsto> fmt_u d)"
    using l(2) s(3) by (simp add: env_vars_def settings_def)
  ultimately show ?thesis using r n(5) l(1) by blast
qed

section \<open>A concrete board\<close>

definition boot_state :: "hsearch_data \<Rightarrow> env_state" where
  "boot_state h = \<lparr>es_htab = h, es_ready = (ht_table h \<noteq> None), es_default = False, es_valid = ENV_VALID, es_inited = True, es_id = 1\<rparr>"

lemma boot_state_fields [simp]:
  "es_htab (boot_state h) = h" "es_inited (boot_state h)" "env_vars (boot_state h) = env_map h"
  by (simp_all add: boot_state_def env_vars_def)

lemma boot_state_order: "env_ok H h \<Longrightarrow> env_in_order H (boot_state h)"
  using table_okD(5) [OF env_okD(1)] by (auto simp: env_in_order_def boot_state_def)

lemma no_table_fields [simp]: "ht_malloc no_table = []" "\<not> ht_fault no_table"
  by (simp_all add: no_table_def)

theorem env_survives_reset_witness:
  "\<exists>nor1 st' nor2. env_save_r no_hooks spi_flash_std_ops [NUL, NUL] 0 (boot_state backslash_table) lab_nor = Some (0, boot_state backslash_table, nor1) \<and>
     env_load no_hooks spi_flash_std_ops [NUL, NUL] 0 (boot_state no_table) nor1 = Some (0, st', nor2) \<and>
     env_get_r no_hooks [NUL, NUL] ''path'' st' = Some (Some (''a'' @ [BACKSLASH] @ ''b''))"
proof -
  note t = conjunct1 [OF backslash_table_ok] conjunct2 [OF backslash_table_ok]
  have o: "env_in_order no_hooks (boot_state backslash_table)" by (rule boot_state_order [OF t(1)])
  have s: "storable no_hooks (es_htab (boot_state backslash_table))"
    by (auto simp: storable_def t(2) backslash_vars name_ok_def isblank_def no_hooks_enterable split: if_splits)
  have g: "env_get_r no_hooks [NUL, NUL] ''path'' (boot_state backslash_table) = Some (Some (''a'' @ [BACKSLASH] @ ''b''))"
    using env_get_lookup [OF o, of "''path''"] by (simp add: t(2))
  have d: "erasesize lab_nor dvd 0x10000" by simp
  from env_survives_reset [OF o s lab_nor_quiet(1) _ d, of "boot_state no_table" "[NUL, NUL]"] obtain nor1 st' nor2 where
    "env_save_r no_hooks spi_flash_std_ops [NUL, NUL] 0 (boot_state backslash_table) lab_nor = Some (0, boot_state backslash_table, nor1)"
    "env_load no_hooks spi_flash_std_ops [NUL, NUL] 0 (boot_state no_table) nor1 = Some (0, st', nor2)"
    "\<forall>k. NUL \<notin> set k \<longrightarrow> env_get_r no_hooks [NUL, NUL] k st' = env_get_r no_hooks [NUL, NUL] k (boot_state backslash_table)" by auto
  with g show ?thesis by (intro exI [of _ nor1] exI [of _ st'] exI [of _ nor2]) simp
qed

text \<open>Functions that refuse: another rate than those of the table, and the removal of the rate or of a console.\<close>

definition lab_clbks :: env_clbk_tbl where
  "lab_clbks = [(''baudrate'', on_baudrate 115200), (''console'', on_console True (\<lambda>_ _. 0)), (''loadaddr'', on_loadaddr)]"

definition lab_re :: "string \<Rightarrow> string \<Rightarrow> bool" where
  "lab_re pat s \<longleftrightarrow> BACKSLASH \<notin> set pat \<and> pat = anchored s"

definition lab_hooks :: env_hooks where
  "lab_hooks = uboot_hooks (\<lambda>_. True) lab_re None None lab_clbks [NUL, NUL]"

lemma lab_regex: "exact_regex (\<lambda>_. True) lab_re"
  by (auto simp: lab_re_def exact_regex_def anchored_def patterns_def static_entries_def callback_entries_def)

definition lab_table :: hsearch_data where
  "lab_table = snd (hcreate_r 6 no_table)"

lemma lab_table_ok: "env_ok lab_hooks lab_table" "env_map lab_table = Map.empty" "6 \<le> ht_size lab_table"
proof -
  obtain h where "hcreate_r 6 no_table = (1, h)" "env_ok lab_hooks h" "env_map h = Map.empty" "6 \<le> ht_size h"
    by (rule hcreate_ok [of no_table 6 lab_hooks]) (simp_all add: no_table_def)
  then show "env_ok lab_hooks lab_table" "env_map lab_table = Map.empty" "6 \<le> ht_size lab_table" by (simp_all add: lab_table_def)
qed

lemma lab_table_storable: "storable lab_hooks lab_table"
proof -
  have "map_of (sorted_vars lab_table) = Map.empty" using sorted_vars_ok(3) [OF lab_table_ok(1)] lab_table_ok(2) by simp
  then have "sorted_vars lab_table = []" by simp
  then show ?thesis by (simp add: storable_def lab_table_ok(2))
qed

definition lab_net :: "(spi_nor, env_state \<times> unit) platform" where
  "lab_net =
     \<lparr>sf_ops = spi_flash_std_ops, sf_size = (\<lambda>c. of_nat (mtd_size c)), sf_sector_size = (\<lambda>c. of_nat (erasesize c)),
      tcp_sndbuf = (\<lambda>w pcb. 1460), tcp_write = (\<lambda>w pcb bs. (ERR_OK, w)), tcp_output = (\<lambda>w pcb. (ERR_OK, w)),
      tcp_close = (\<lambda>w pcb. (ERR_OK, w)), tcp_abort = (\<lambda>w pcb. w), tcp_recved = (\<lambda>w pcb n. w),
      tcp_arg = (\<lambda>w pcb b. w), tcp_recv = (\<lambda>w pcb b. w), tcp_sent = (\<lambda>w pcb b. w), tcp_err = (\<lambda>w pcb b. w),
      tcp_poll = (\<lambda>w pcb b n. w), tcp_accept = (\<lambda>w pcb b. w), tcp_setprio_min = (\<lambda>w pcb. w),
      tcp_nagle_disable = (\<lambda>w pcb. w), tcp_new = (\<lambda>w. (Some 0, w)), tcp_bind = (\<lambda>w pcb port. (ERR_OK, w)),
      tcp_listen_with_backlog = (\<lambda>w pcb n. (Some 1, w)), env_get = (\<lambda>w s. None), env_set = (\<lambda>w k v. (0, w)),
      env_save = (\<lambda>w c. (0, w, c)), env_set_default = (\<lambda>w. w), ram_base = 0x80000000, ram_size = 0x10000000,
      webflash_index_html = ''<html>'', version_string = ''U-Boot''\<rparr>"

text \<open>An environment with watched variables.\<close>

definition lab_vars :: "(string \<times> string option) list" where
  "lab_vars = [(''baudrate'', Some ''57600''), (''stdin'', Some ''serial'')]"

lemma lab_vars_grantable: "\<forall>kv \<in> set lab_vars. grantable lab_hooks kv \<and> name_ok NUL (fst kv)"
proof -
  note fl = static_flags(5,6) [OF lab_regex]
  have cb: "env_callback_init (\<lambda>_. True) lab_re None lab_clbks ''baudrate'' = Some (on_baudrate 115200)"
    "env_callback_init (\<lambda>_. True) lab_re None lab_clbks ''stdin'' = Some (on_console True (\<lambda>_ _. 0))"
    by (simp_all add: env_callback_init_def static_lookup [OF lab_regex] callback_entries_def find_env_callback_def lab_clbks_def strcmp_0_iff)
  have b: "fst (simple_strtoul ''57600'' 10) = 57600" by code_simp
  have d: "\<not> denied lab_hooks (entry_for lab_hooks k x) (Some v) op f" if "k \<in> {''baudrate'', ''stdin''}" for k x v op f
    using that fl typed_not_denied(1) [OF _ _ lab_hooks_def, of k env_flags_vartype_string v x op f] by (auto simp: validate_type_def)
  have "do_callback (entry_for lab_hooks ''baudrate'' x) n (Some ''57600'') op f = 0"
    "do_callback (entry_for lab_hooks ''stdin'' x) n (Some ''serial'') op f = 0" if "op \<noteq> env_op_delete" for x n op f
    using that cb b by (cases op; simp add: do_callback_def entry_for_def lab_hooks_def uboot_hooks_def on_baudrate_def on_console_def baudrate_table_def)+
  then show ?thesis using d
    by (auto simp: lab_vars_def grantable_def accepts_def settable_def name_ok_def isblank_def Let_def)
qed

definition lab_env :: env_state where
  "lab_env = fst (snd (env_set_all (uboot_env lab_hooks [NUL, NUL] lab_net) (boot_state lab_table, ()) lab_vars))"

lemma lab_env_ok: "env_in_order lab_hooks lab_env" "env_vars lab_env = [''baudrate'' \<mapsto> ''57600'', ''stdin'' \<mapsto> ''serial'']"
    "storable lab_hooks (es_htab lab_env)" "ht_size (es_htab lab_env) = ht_size lab_table"
proof -
  have g: "\<forall>kv \<in> set lab_vars. grantable lab_hooks kv \<and> name_ok NUL (fst kv)" by (rule lab_vars_grantable)
  have len: "length lab_vars = 2" "set_vars lab_vars Map.empty = [''baudrate'' \<mapsto> ''57600'', ''stdin'' \<mapsto> ''serial'']" by (simp_all add: lab_vars_def)
  from env_set_all_vars [OF boot_state_order [OF lab_table_ok(1)], of lab_vars "[NUL, NUL]" lab_net "()"] g len lab_table_ok(2,3)
  obtain st where st: "env_set_all (uboot_env lab_hooks [NUL, NUL] lab_net) (boot_state lab_table, ()) lab_vars = (0, (st, ()))"
    "env_in_order lab_hooks st" "env_vars st = set_vars lab_vars Map.empty" "ht_size (es_htab st) = ht_size lab_table" by auto
  then have e: "lab_env = st" by (simp add: lab_env_def)
  have "text_size (env_map lab_table) + vars_size lab_vars < ENV_SIZE"
    by (simp add: lab_table_ok(2) text_size_def vars_size_def lab_vars_def entry_size_def)
  then have "storable lab_hooks (es_htab st)"
    using set_vars_storable [OF lab_table_storable _ _ g, of "es_htab st"] st(2,3) len lab_table_ok(2) by (simp add: env_in_order_def env_vars_def)
  with st len show "env_in_order lab_hooks lab_env" "env_vars lab_env = [''baudrate'' \<mapsto> ''57600'', ''stdin'' \<mapsto> ''serial'']"
    "storable lab_hooks (es_htab lab_env)" "ht_size (es_htab lab_env) = ht_size lab_table" by (simp_all add: e)
qed

definition lab_settings :: "(spi_nor, env_state \<times> unit) webflash_ctx" where
  "lab_settings = (ctx_zero lab_nor (lab_env, ()) lab_lmb (\<lambda>a. 0))\<lparr>body :=
     form_text plain [(''ipaddr'', ip_text (10, 0, 0, 1)), (''netmask'', ip_text (255, 255, 255, 0)),
       (''serverip'', case None of None \<Rightarrow> [] | Some s \<Rightarrow> ip_text s), (''bootdelay'', fmt_u 3)]\<rparr>"

theorem settings_survive_reset_witness:
  "\<exists>nor1 st1 nor2. flash (snd (webflash_env_save (uboot_env lab_hooks [NUL, NUL] lab_net) lab_settings)) = nor1 \<and>
     env_load lab_hooks spi_flash_std_ops [NUL, NUL] 0 (boot_state no_table) nor1 = Some (0, st1, nor2) \<and>
     env_vars st1 ''ipaddr'' = Some (ip_text (10, 0, 0, 1)) \<and> env_vars st1 ''serverip'' = None \<and>
     env_vars st1 ''baudrate'' = Some ''57600''"
proof -
  have k: "form_safe plain" by (simp add: form_safe_def plain_def lwip_isdigit_def)
  have nm: "ip4_addr_netmask_valid (ip_addr (255, 255, 255, 0))"
    by (simp add: ip_addr_def ip4_addr_netmask_valid_def) code_simp
  have ctx: "body lab_settings = form_text plain [(''ipaddr'', ip_text (10, 0, 0, 1)), (''netmask'', ip_text (255, 255, 255, 0)),
      (''serverip'', case None of None \<Rightarrow> [] | Some s \<Rightarrow> ip_text s), (''bootdelay'', fmt_u 3)]"
    "world lab_settings = (lab_env, ())" "flash lab_settings = lab_nor"
    by (simp_all add: lab_settings_def ctx_zero_def)
  have H: "lab_hooks = uboot_hooks (\<lambda>_. True) lab_re (env_vars lab_env ''.flags'') (env_vars lab_env ''.callbacks'') lab_clbks [NUL, NUL]"
    "env_vars lab_env ''.flags'' = None" "env_vars lab_env ''.callbacks'' = None" "set (map fst lab_clbks) \<subseteq> set build_callbacks"
    by (simp_all add: lab_env_ok(2) lab_hooks_def lab_clbks_def build_callbacks_def)
  have size: "card (dom (env_vars lab_env)) + 4 \<le> min (ht_size (es_htab lab_env)) CONFIG_ENV_MAX_ENTRIES"
    "text_size (env_vars lab_env) + 150 \<le> ENV_SIZE"
    using lab_table_ok(3) by (simp_all add: lab_env_ok(2,4) text_size_def entry_size_def)
  have nor: "spi_quiet (flash lab_settings)" "0x40000 \<le> mtd_size (flash lab_settings)" "erasesize (flash lab_settings) dvd 0x10000"
    using lab_nor_quiet by (simp_all add: ctx(3))
  have st0: "ht_malloc (es_htab (boot_state no_table)) = []" "\<not> ht_fault (es_htab (boot_state no_table))" "es_inited (boot_state no_table)" by simp_all
  have ok: "ip_ok (10, 0, 0, 1)" "ip_ok (255, 255, 255, 0)" "(3 :: nat) \<le> 30" by (simp_all add: ip_ok_def)
  from settings_survive_reset [of plain "(10, 0, 0, 1)" "(255, 255, 255, 0)" None 3 lab_settings, OF k _ ok(1,2) nm _ ok(3) ctx(1) H(1-3) lab_regex H(4)
      ctx(2) lab_env_ok(1,3) size nor st0, of lab_net]
  show ?thesis by (auto simp: lab_env_ok(2))
qed

end
