(* ===== verification/Spec2Isabelle.thy ===== *)
theory Spec2Isabelle
  imports SampleReset Ip4Addr JobFacts Layout Trials Hazards LmbAlloc Images EnvConsole
begin

text \<open>
  The web recovery console of a HLK-7621A router board (U-Boot with a Web page that receives an
  OpenWrt image, checks it and writes it to the SPI NOR flash), with the parts of U-Boot it
  rests on.  The sources are below src/u-boot-2026.07; paths are relative to it.

  \<^bold>\<open>The program.\<close>  The command \<open>webflash\<close> (cmd/lwip/webflash.c) probes the flash, opens a TCP
  listener and runs a loop: poll the network (lwIP calls the callbacks \<open>webflash_accept\<close>,
  \<open>webflash_recv\<close>, \<open>webflash_sent\<close>, \<open>webflash_poll\<close>, \<open>webflash_tcp_error\<close>), make one step of the
  running flash job, and reset the board or boot an image when that is due.  A request is a
  page, a backup, a settings form, an upload into RAM, or a command (flash, factory reset,
  reboot, boot from RAM).  Uploads ask lib/lmb.c for the RAM and are judged by boot/image.c,
  lib/crc32.c and the fwtool metadata; jobs go through drivers/mtd/spi.  Settings are variables
  of the environment: env/common.c, on the hash table of lib/hashtable.c, saved by env/sf.c.

  \<^bold>\<open>Theories.\<close>
  \<^item> Prelude: machine words of the 32-bit little-endian target, error numbers, memory, the
    lemmas on lists and words that all share.
  \<^item> CString: lib/string.c, lib/strto.c, lib/vsprintf.c (\<open>%u\<close>, \<open>%x\<close>), include/linux/ctype.h.  A decimal
    number that is printed is parsed back (modulo the word size).
  \<^item> Crc32: lib/crc32.c.  The table is the generator's; the word-at-a-time loop is the bit-serial
    CRC for every alignment; checksums compose; every burst within four bytes is detected.
  \<^item> ImageLegacy: include/image.h and boot/image.c, header and data checks.
  \<^item> Ip4Addr: \<open>ip4addr_aton\<close> and \<open>ip4_addr_netmask_valid\<close> of the vendored lwIP, and that a mask is
    accepted exactly when its one bits are the topmost.
  \<^item> Lmb, LmbSet, LmbAlloc: lib/lmb.c and lib/alist.c.  Reserving and freeing are union and
    difference of address sets; allocation takes the highest free block; at boot U-Boot's own
    memory is protected.  LmbSet and LmbAlloc end with runs on which the lists go wrong.
  \<^item> SpiNor, SpiNorLive: \<open>spi_nor_erase\<close>, \<open>spi_nor_read\<close>, \<open>spi_nor_write\<close> with the bank register, and the
    operations of sf_probe.c.  The locale \<open>nor_flash\<close> is the contract of a flash device,
    \<open>quiet_nor_flash\<close> adds that an erase is not interrupted; both are interpreted on the driver.
    The chip (array, bank register, write enable latch) is part of the state, and the outcomes of
    the bus transfers are a list in it.
  \<^item> WebflashState, WebflashHttp, WebflashUpload, WebflashJob, WebflashServer: webflash.c, in the
    order of the file.  The record \<open>webflash_ctx\<close> has the fields of \<open>struct webflash_ctx\<close> and then the
    machine: RAM, clock, memory map, flash, world.  The record \<open>platform\<close> holds the functions of
    lwIP and of the environment; they are parameters.  A null pointer the code would follow sets the
    field \<open>faulted\<close>.
  \<^item> WebflashFrame, WebflashInv, Console: what a reply may change, the invariant \<open>console_inv\<close>, the
    step relation \<open>console_step\<close> with \<open>reachable\<close>, and the invariant by rule induction; the main loop
    takes steps of the relation.
  \<^item> Callbacks, Busy, Exclusive, Schedule: the locale \<open>callbacks_keep\<close> (what the handlers keep, every
    callback keeps), interpreted on three invariants; while a job runs the handlers only talk; a
    job excludes reset and boot; only a confirmed request starts one; no backup is under way
    while a job runs; a pending restart is carried out.
  \<^item> FlashJob, FlashRun, JobFacts: the locale \<open>flash_platform\<close> (the console on any device that keeps
    the contract) with the invariant of a job, \<open>quiet_platform\<close> with its progress, both interpreted
    on the SPI NOR driver; chunks and progress figures.
  \<^item> Uploads, Images, Forms, Settings, Layout, Overlay, Streams: uploads arrive whole and in
    permitted RAM; fwtool metadata decides; headers, forms and addresses are read back as they were
    printed; the partitions tile the flash; the overlay search is a linear search; replies and
    backups are delivered byte for byte.  Streams interprets \<open>logged_platform\<close> on the driver with a
    network that records what it takes.
  \<^item> QSort: lib/qsort.c, a Shell sort that gives a sorted permutation.
  \<^item> EnvTable, EnvDict: lib/hashtable.c and include/search.h.  For the prime sizes the table has, a
    search visits every node, ends, and finds what is there: the table is a dictionary.  The
    locale \<open>env_dictionary\<close> is what the import relies on, interpreted on \<open>hsearch_r\<close> and \<open>hdelete_r\<close>.
  \<^item> EnvText: \<open>hexport_r\<close> and \<open>himport_r\<close>.  The import of an export gives the same variables; an
    export with backslashes can leave its buffer.
  \<^item> EnvFlags, EnvCallback: env/attr.c and env/flags.c, the types and rights that decide about a
    change; env/callback.c, the functions that watch a variable and may refuse one.
  \<^item> EnvStore, EnvSaved: env/common.c, env/sf.c and env/env.c.  Setting and reading are update and
    lookup; a saved environment is loaded again and the rest of the flash stays; a copy damaged in
    up to four neighbouring bytes is replaced by the default environment; proved over
    the locale \<open>quiet_nor_flash\<close>.
  \<^item> EnvConsole: the console with this environment in the place of the parameters of its platform; the
    settings page from the form to the variables after a reset.
  \<^item> Hazards: behaviours that contradict the purpose of the code, as theorems.
  \<^item> Sample, SampleReset, Trials: a concrete board, runs of it, and the theorems applied to it.

  This theory holds the properties of the console as a whole.

  \<^bold>\<open>Bounds.\<close>  Only two recursions count down: the loop over fwtool records has the bound 3 of the
  source, and the main loop runs over the list of turns it is given, since the code's loop ends by
  reset, boot or Ctrl-C only; that enough turns finish a job is proved, not assumed.  All
  other loops have their termination proofs, but for the probe loop of the hash table, whose
  end is proved from the invariant of the table.  Integers have the width of the target: \<open>u32\<close>, \<open>ulong\<close>
  and \<open>size_t\<close> are 32-bit words, file sizes of squashfs 64-bit words; string lengths inside buffers
  and offsets into the flash array below the driver are natural numbers.

  \<^bold>\<open>Not modelled.\<close>  lwIP beyond its address parser, the board code, SPL and menu, the other drivers
  of U-Boot and the OpenWrt tree: they are third-party or hardware code that the console only calls.  Text on the serial
  console, the generated start page (an arbitrary string here), printing of the memory map and its
  unit-test support have no part in the behaviour.  Of the environment, redundant copies, the other
  storage drivers and completion are left out; callbacks answer and do not change the table, so their
  guard against recursion has nothing to do; allocations of env/attr.c succeed; regular
  expressions (slre.c) are parameters.  Of the SPI NOR driver, probing, SFDP, locking
  and the stacked, parallel, DTR and SST variants are not in the build of the board; its controller takes every transfer whole.
  A boot that comes back is taken to have changed nothing but the connection.
\<close>

section \<open>The console as a whole\<close>

text \<open>C1: Flashing works.  A confirmed flash request on a quiet SPI NOR, served by the main loop for at
  least as many turns as the image has 64 KiB chunks to erase, write and verify, ends with the
  job done and a reboot scheduled, whatever requests arrive meanwhile: the flash holds the
  uploaded image (for calibration data: the factory partition with the upload in its window)
  and every byte outside the erased range is what it was.\<close>

theorem flash_request_completes:
  assumes "console_inv (with_spi_nor P) ctx" and "spi_quiet (flash ctx)" and "0x2000000 \<le> mtd_size (flash ctx)"
    and "layout_ok (sf_sector_size (with_spi_nor P) (flash ctx))"
    and "webflash_start_uploaded_flash (with_spi_nor P) ctx = (0, ctx')" and "upload_part ctx = Some p"
    and "chunks (unat (erase_size (job ctx'))) + 2 * chunks (unat (write_size (job ctx'))) \<le> length ts"
  shows "\<exists>c. (main_loop (with_spi_nor P) ctx' ts = Running c \<or> main_loop (with_spi_nor P) ctx' ts = Reset c) \<and>
    phase (job c) = WEBFLASH_PHASE_DONE \<and> reboot_pending c \<and>
    mem_bytes (array (flash c)) (unat (erase_offset (job c))) (unat (write_size (job c))) =
      flash_image (array (flash ctx)) ctx p \<and>
    (\<forall>a. \<not> (unat (erase_offset (job c)) \<le> a \<and> a < unat (erase_offset (job c)) + unat (erase_size (job c))) \<longrightarrow>
       array (flash c) a = array (flash ctx) a)"
  by (rule spi.flash_completes [OF assms])

theorem flash_request_completes_witness:
  "\<exists>c c'. webflash_start_uploaded_flash (lab 0) lab_ready = (0, c) \<and>
    (main_loop (lab 0) c (replicate 5 \<lparr>t_now = 0, t_events = [Ev_accept (Some 9) ERR_OK], t_bootm_returns = True\<rparr>) = Running c' \<or>
     main_loop (lab 0) c (replicate 5 \<lparr>t_now = 0, t_events = [Ev_accept (Some 9) ERR_OK], t_bootm_returns = True\<rparr>) = Reset c') \<and>
    phase (job c') = WEBFLASH_PHASE_DONE"
proof -
  obtain c where c: "webflash_start_uploaded_flash (lab 0) lab_ready = (0, c)" "erase_size (job c) = 0x30000"
    "write_size (job c) = 1" using lab_flash_request by blast
  let ?ts = "replicate 5 \<lparr>t_now = 0, t_events = [Ev_accept (Some 9) ERR_OK], t_bootm_returns = True\<rparr>"
  have "chunks (unat (erase_size (job c))) + 2 * chunks (unat (write_size (job c))) \<le> length ?ts"
    by (simp add: c chunks_def)
  with flash_request_completes [of "lab 0" lab_ready c _ ?ts] c(1) lab_ready_inv lab_nor_quiet lab_layout
  show ?thesis by (auto simp: firmware_partition)
qed

text \<open>C2: The invariant of the console.  From a start-up that succeeded, through any callbacks, clock
  readings, job steps and failed boots: no buffer is overrun, an upload stays inside RAM, nothing
  is received while a job runs, and an upload marked valid is the one in RAM, of a size its
  partition takes, with its checksum, and passes the validation.\<close>

theorem reachable_console_inv:
  assumes "webflash_setup P S (ctx_zero c w m r) arg = (0, ctx)" and "read_bounded P"
    and "\<And>io. io_mem S = Some io \<Longrightarrow> length io = 65536" and "\<And>fb. factory_mem S = Some fb \<Longrightarrow> length fb = 65536"
    and "reachable P ctx ctx'"
  shows "console_inv P ctx'"
  using setup_inv [OF assms(1,3,4)] reachable_inv [OF assms(5,2)] by blast

theorem reachable_console_inv_witness:
  "reachable (lab 0) lab_start (handle_event (lab 0) lab_start (Ev_accept (Some 7) ERR_OK)) \<and>
   console_inv (lab 0) (handle_event (lab 0) lab_start (Ev_accept (Some 7) ERR_OK))"
proof -
  have r: "reachable (lab 0) lab_start (handle_event (lab 0) lab_start (Ev_accept (Some 7) ERR_OK))"
    by (rule step [OF start event])
  have "read_bounded (lab 0)" using spi_read_bounded [of "lab 0"] by simp
  from reachable_console_inv [OF lab_setup this _ _ r] r show ?thesis by (simp add: lab_startup_def)
qed

text \<open>C3: A pending restart is carried out.  From a start-up that succeeded, through any steps, and whatever
  requests arrive: once a restart is pending, the loop runs on with the restart pending, its start
  time and the job as they are, for as long as the delay has not passed, and the first turn after
  the delay resets the board (if a boot from RAM is pending too: provided that the boots come back).
  After a finished job nothing changes the flash in between.\<close>

theorem pending_restart_happens:
  assumes "webflash_setup P S (ctx_zero c w m r) arg = (0, ctx0)" and "read_bounded P"
    and "\<And>io. io_mem S = Some io \<Longrightarrow> length io = 65536" and "\<And>fb. factory_mem S = Some fb \<Longrightarrow> length fb = 65536"
    and "reachable P ctx0 ctx" and "reboot_pending ctx"
    and "\<forall>u\<in>set us. t_now u - reboot_start ctx < WEBFLASH_REBOOT_DELAY_MS" and "WEBFLASH_REBOOT_DELAY_MS \<le> t_now t - reboot_start ctx"
    and "boot_pending ctx \<longrightarrow> (\<forall>u\<in>set (us @ [t]). t_bootm_returns u)"
  shows "\<exists>a b. main_loop P ctx us = Running a \<and> reboot_pending a \<and> reboot_start a = reboot_start ctx \<and> job a = job ctx \<and>
    main_loop P ctx (us @ t # ts) = Reset b \<and> job b = job ctx \<and>
    (phase (job ctx) = WEBFLASH_PHASE_DONE \<longrightarrow> flash b = flash ctx)"
proof -
  have "\<not> webflash_job_active ctx"
    using reachable_exclusive [OF assms(5) exclusive_idle [OF setup_settled(2) [OF assms(1)]]] assms(6) by (auto simp: exclusive_def)
  then have "restarting ctx ctx" using assms(6) by (simp add: restarting_def)
  moreover have "calm ctx" if "phase (job ctx) = WEBFLASH_PHASE_DONE"
    using committed_calm [OF assms(1-5)] that assms(6) by (simp add: committed_def)
  ultimately show ?thesis using main_loop_restarts [OF _ assms(7-9), of P ts] by (auto simp: restarting_def)
qed

theorem pending_restart_happens_witness:
  "\<exists>b. main_loop (lab 0) (lab_asked lab_reboot_request)
     [\<lparr>t_now = 4999, t_events = [Ev_poll 7], t_bootm_returns = False\<rparr>,
      \<lparr>t_now = 5000, t_events = [Ev_sent 7 100], t_bootm_returns = False\<rparr>] = Reset b"
proof -
  have "read_bounded (lab 0)" using spi_read_bounded [of "lab 0"] by simp
  from pending_restart_happens [OF lab_booted_setup this _ _ lab_asked_reachable lab_rebooting(1),
      of "[\<lparr>t_now = 4999, t_events = [Ev_poll 7], t_bootm_returns = False\<rparr>]"
        "\<lparr>t_now = 5000, t_events = [Ev_sent 7 100], t_bootm_returns = False\<rparr>" "[]"]
  show ?thesis using lab_rebooting(2,3) by (auto simp: lab_startup_def)
qed

text \<open>C4: The board is never reset, and never leaves for an uploaded image, in the middle of a job:
  from any idle state, through any steps, the turn that does so has no job running.\<close>

theorem no_reset_during_job:
  assumes "\<not> webflash_job_active ctx0" and "reachable P ctx0 ctx"
    and "main_turn P ctx t = Reset ctx' \<or> main_turn P ctx t = Booted a ctx'"
  shows "\<not> webflash_job_active ctx'"
  using reachable_exclusive [OF assms(2) exclusive_idle [OF assms(1)]] main_turn_exclusive assms(3) by blast

theorem no_reset_during_job_witness:
  "main_turn (lab 0) (lab_start\<lparr>reboot_pending := True\<rparr>) \<lparr>t_now = 6000, t_events = [], t_bootm_returns = True\<rparr> =
     Reset (lab_start\<lparr>reboot_pending := True, now := 6000\<rparr>) \<and>
   \<not> webflash_job_active (lab_start\<lparr>reboot_pending := True, now := 6000\<rparr>)"
proof -
  let ?c = "lab_start\<lparr>reboot_pending := True\<rparr>"
  have m: "main_turn (lab 0) ?c \<lparr>t_now = 6000, t_events = [], t_bootm_returns = True\<rparr> = Reset (?c\<lparr>now := 6000\<rparr>)"
    by (simp add: main_turn_def turn_job_def turn_reboot_def get_timer_def lab_start_def ctx_zero_def
        webflash_job_active_def Let_def)
  have i: "\<not> webflash_job_active ?c" by (simp add: lab_start_def ctx_zero_def webflash_job_active_def)
  from no_reset_during_job [OF i start disjI1 [OF m]] m show ?thesis by simp
qed

text \<open>C5: Only a confirmed request starts a job: headers that bring a job to life are a flash request for a
  valid upload with the phrase of its kind of image, or a factory reset with its phrase.\<close>

theorem job_needs_confirmation:
  assumes "\<not> webflash_job_active ctx" and "webflash_job_active (snd (webflash_handle_headers P ctx))"
  shows "(request_is ctx ''POST'' ''/api/flash'' \<and> upload_valid ctx \<and>
      confirmed ctx (webflash_expected_confirmation ctx)) \<or>
    (request_is ctx ''POST'' ''/api/factory-reset'' \<and> confirmed ctx ''ERASE-SETTINGS'')"
  by (rule headers_start_job [OF assms])

theorem job_needs_confirmation_witness:
  "webflash_job_active (snd (webflash_handle_headers (lab 0) lab_ready)) \<and>
   confirmed lab_ready (webflash_expected_confirmation lab_ready)"
proof -
  have "\<not> request_is lab_ready ''POST'' ''/api/factory-reset''"
    unfolding lab_ready_fields lab_request_def by code_simp
  with job_needs_confirmation [OF _ lab_headers_active] lab_headers_active show ?thesis
    using lab_ready_fields(9) by (auto simp: webflash_operation_blocked_def)
qed

text \<open>C6: A busy console only talks.  From a start-up that succeeded, through any steps: while a job runs, or is
  done and the restart is pending, no callback changes the job, the flash, the RAM, the factory
  buffer or the schedule.  In particular no upload, no settings form and no backup is
  under way then.\<close>

theorem busy_console_only_talks:
  assumes "webflash_setup P S (ctx_zero c w m r) arg = (0, ctx0)" and "read_bounded P"
    and "\<And>io. io_mem S = Some io \<Longrightarrow> length io = 65536" and "\<And>fb. factory_mem S = Some fb \<Longrightarrow> length fb = 65536"
    and "reachable P ctx0 ctx" and "committed ctx"
  shows "calm ctx \<and> busy_frame ctx (handle_event P ctx e)"
proof -
  have "calm ctx" by (rule committed_calm [OF assms])
  with event_serves [OF assms(6)] show ?thesis by (simp add: serves_def)
qed

theorem busy_console_only_talks_witness:
  "webflash_job_active (lab_asked lab_reset_request) \<and>
   busy_frame (lab_asked lab_reset_request) (handle_event (lab 0) (lab_asked lab_reset_request) (Ev_sent 7 100))"
proof -
  have c: "committed (lab_asked lab_reset_request)" using lab_resetting_active by (simp add: committed_def)
  have "read_bounded (lab 0)" using spi_read_bounded [of "lab 0"] by simp
  from busy_console_only_talks [OF lab_booted_setup this _ _ lab_asked_reachable c, of "Ev_sent 7 100"] lab_resetting_active
  show ?thesis by (simp add: lab_startup_def)
qed

text \<open>C7: A step of a job stays in its range.  On a working SPI NOR a step of a well-formed flash job brings it exactly
  one turn nearer to its end, or ends it in the error phase; in both cases every
  byte outside the range to be erased is what it was when the job began.\<close>

theorem job_step_contained:
  assumes "spi_ok (flash ctx)" and "0x2000000 \<le> mtd_size (flash ctx)" and "webflash_job_active ctx"
    and "job_wf (erasesize (flash ctx)) (with_spi_nor P) ctx"
    and "job_content (erasesize (flash ctx)) v0 (array (flash ctx)) (job_image (with_spi_nor P) ctx) (job ctx)"
  shows "let ctx' = webflash_job_step (with_spi_nor P) ctx
    in spi_ok (flash ctx') \<and>
       (\<forall>a. \<not> (unat (erase_offset (job ctx)) \<le> a \<and> a < unat (erase_offset (job ctx)) + unat (erase_size (job ctx))) \<longrightarrow>
          array (flash ctx') a = v0 a) \<and>
       (phase (job ctx') = WEBFLASH_PHASE_ERROR \<or>
        (job_content (erasesize (flash ctx')) v0 (array (flash ctx')) (job_image (with_spi_nor P) ctx) (job ctx') \<and>
         turns_left (job ctx) = Suc (turns_left (job ctx'))))"
proof -
  let ?c = "webflash_job_step (with_spi_nor P) ctx" and ?img = "job_image (with_spi_nor P) ctx"
  have inv: "spi_std.job_inv P v0 ?img ctx" using assms by (simp add: spi_std.job_inv_def)
  have same: "erase_offset (job ?c) = erase_offset (job ctx)" "erase_size (job ?c) = erase_size (job ctx)"
    using job_step_same [of ctx "with_spi_nor P"] by (simp_all add: same_job_def)
  have out: "\<forall>a. \<not> (unat (erase_offset (job ctx)) \<le> a \<and> a < unat (erase_offset (job ctx)) + unat (erase_size (job ctx))) \<longrightarrow>
      array (flash ?c) a = v0 a" if "job_content s v0 (array (flash ?c)) ?img (job ?c)" for s
    using that unfolding job_content_def Let_def same by simp
  from spi_std.job_step_ok [OF inv assms(3)] show ?thesis
    unfolding spi_std.job_inv_def spi_std.job_failed_def Let_def same using out by blast
qed

theorem job_step_contained_witness:
  "spi_ok (flash (webflash_job_step (lab 0) lab_erasing)) \<and>
   array (flash (webflash_job_step (lab 0) lab_erasing)) 0 = 0"
proof -
  have j: "job lab_erasing = lab_job" "flash lab_erasing = lab_nor" by (simp_all add: lab_erasing_def)
  have img: "job_image (lab 0) lab_erasing = [0]"
    by (simp add: job_image_def lab_erasing_def lab_job_def lab_ready_def lab_start_def ctx_zero_def map_sysmem_def
        mem_bytes_def)
  have wf: "job_wf (erasesize (flash lab_erasing)) (with_spi_nor (lab 0)) lab_erasing"
    unfolding lab_spi job_wf_def img j by (simp add: lab_job_def firmware_partition Let_def)
  have co: "job_content (erasesize (flash lab_erasing)) (\<lambda>a. 0) (array (flash lab_erasing))
      (job_image (with_spi_nor (lab 0)) lab_erasing) (job lab_erasing)"
    unfolding lab_spi img j by (simp add: job_content_def lab_job_def)
  have ok: "spi_ok (flash lab_erasing)" "0x2000000 \<le> mtd_size (flash lab_erasing)" "webflash_job_active lab_erasing"
    using lab_nor_quiet by (simp_all add: j webflash_job_active_def lab_job_def)
  from job_step_contained [OF ok wf co] show ?thesis
    unfolding j lab_spi Let_def by (simp add: lab_job_def)
qed

end
